(* ===== verification/Prelude.thy ===== *)
theory Prelude
  imports Main "HOL-Library.Word" "HOL-Library.List_Lexorder"
begin

text \<open>
  What every component of the store shares: the machine types, the error codes of
  \<open>include/lsm/errors.hpp\<close>, the result type of code that may throw, the little-endian
  integer codec that \<open>src/wal.cpp\<close>, \<open>src/sstable.cpp\<close> and \<open>src/table_reader.cpp\<close> each
  repeat, and the collections of facts the component proofs run on.

  A \<open>std::string\<close> or byte buffer is a list of bytes.  \<open>std::string\<close> compares as
  unsigned bytes, lexicographically, which is the order of \<open>List_Lexorder\<close> on \<open>8 word\<close>.
  Values kept in files and counters (sequence numbers, lengths, offsets, sizes) are words
  of the width the code gives them.  Positions inside a buffer that is in memory are \<open>nat\<close>:
  they are bounded by the length of the buffer.
\<close>

unbundle bit_operations_syntax

section \<open>Machine types\<close>

type_synonym byte = "8 word"
type_synonym bytes = "byte list"
type_synonym u32 = "32 word"
type_synonym u64 = "64 word"

named_theorems codec_simps \<open>lengths and round trips of the binary encodings\<close>
named_theorems inv_intros \<open>preservation of component invariants\<close>
named_theorems inv_dests \<open>consequences of component invariants\<close>

section \<open>Errors\<close>

text \<open>
  \<open>error_code\<close> is the enum class \<open>ErrorCode\<close>.  A run of the code ends in a value, in a
  thrown \<open>lsm::Error\<close> (\<open>Thrown\<close>), in an exception of the standard or the JSON library that the
  code does not catch (\<open>Escaped\<close>), or in behaviour C++ leaves undefined (\<open>Undefined\<close>): a
  read outside a buffer or an integer division by zero.  The last is a value of the model
  so that its absence is a theorem and not an assumption.
\<close>

datatype error_code =
    InvalidArgument
  | StoreClosed
  | IOFailure
  | CorruptionDetected
  | NotImplemented
  | Backpressure

definition error_to_string :: "error_code \<Rightarrow> string" where
  "error_to_string c = (case c of
      InvalidArgument \<Rightarrow> ''InvalidArgument''
    | StoreClosed \<Rightarrow> ''StoreClosed''
    | IOFailure \<Rightarrow> ''IOFailure''
    | CorruptionDetected \<Rightarrow> ''CorruptionDetected''
    | NotImplemented \<Rightarrow> ''NotImplemented''
    | Backpressure \<Rightarrow> ''Backpressure'')"

datatype fault = Thrown error_code | Escaped | Undefined

type_synonym 'a result = "fault + 'a"

fun and_then :: "'a result \<Rightarrow> ('a \<Rightarrow> 'b result) \<Rightarrow> 'b result" where
  "and_then (Inl e) f = Inl e"
| "and_then (Inr x) f = f x"

lemma and_then_Inr_iff:
  "and_then r f = Inr y \<longleftrightarrow> (\<exists>x. r = Inr x \<and> f x = Inr y)"
  by (cases r) auto

lemma and_then_Inl_iff:
  "and_then r f = Inl e \<longleftrightarrow> r = Inl e \<or> (\<exists>x. r = Inr x \<and> f x = Inl e)"
  by (cases r) auto

lemma and_then_Inr [simp]: "and_then r Inr = r"
  by (cases r) auto

lemma and_then_assoc: "and_then (and_then r f) g = and_then r (\<lambda>x. and_then (f x) g)"
  by (cases r) auto

text \<open>
  A member function that may throw yields its result and the object it leaves behind:
  what was written before the throw stays written.
\<close>

fun bind_st :: "'a result \<times> 's \<Rightarrow> ('a \<Rightarrow> 's \<Rightarrow> 'b result \<times> 's) \<Rightarrow> 'b result \<times> 's" where
  "bind_st (Inl e, s) f = (Inl e, s)"
| "bind_st (Inr x, s) f = f x s"

lemma bind_st_Inr_iff:
  "bind_st m f = (Inr y, t) \<longleftrightarrow> (\<exists>x s. m = (Inr x, s) \<and> f x s = (Inr y, t))"
  by (cases m; cases "fst m") auto

lemma bind_st_Inl_iff:
  "bind_st m f = (Inl e, t) \<longleftrightarrow> m = (Inl e, t) \<or> (\<exists>x s. m = (Inr x, s) \<and> f x s = (Inl e, t))"
  by (cases m; cases "fst m") auto

section \<open>Little-endian integers\<close>

text \<open>
  \<open>put_u32\<close> and \<open>put_u64\<close> give the bytes the code pushes onto its output vector;
  \<open>get_u32\<close> and \<open>get_u64\<close> read from the front of a buffer (the code's \<open>data + off\<close>
  is \<open>drop off data\<close>).
\<close>

definition put_u32 :: "u32 \<Rightarrow> bytes" where
  "put_u32 v = map (\<lambda>i. ucast (drop_bit (8 * i) v)) [0..<4]"

definition put_u64 :: "u64 \<Rightarrow> bytes" where
  "put_u64 v = map (\<lambda>i. ucast (drop_bit (8 * i) v)) [0..<8]"

definition get_u32 :: "bytes \<Rightarrow> u32" where
  "get_u32 p = ucast (p ! 0) OR push_bit 8 (ucast (p ! 1)) OR
     push_bit 16 (ucast (p ! 2)) OR push_bit 24 (ucast (p ! 3))"

definition get_u64 :: "bytes \<Rightarrow> u64" where
  "get_u64 p = foldl (\<lambda>v i. push_bit 8 v OR ucast (p ! i)) 0 (rev [0..<8])"

text \<open>
  Both readers are the value of a byte list read little-endian; its bits are the bits of
  the bytes.
\<close>

definition le_value :: "bytes \<Rightarrow> 'a::len word" where
  "le_value ps = foldr (\<lambda>b v. push_bit 8 v OR ucast b) ps 0"

lemma bit_le_value:
  "bit (le_value ps :: 'a::len word) n \<longleftrightarrow>
     n < LENGTH('a) \<and> n < 8 * length ps \<and> bit (ps ! (n div 8)) (n mod 8)"
proof (induction ps arbitrary: n)
  case Nil
  then show ?case by (simp add: le_value_def)
next
  case (Cons b ps)
  have step: "bit (le_value (b # ps) :: 'a word) n \<longleftrightarrow>
      n < LENGTH('a) \<and> (8 \<le> n \<and> bit (le_value ps :: 'a word) (n - 8) \<or> bit b n)"
    by (auto simp: le_value_def bit_simps dest: bit_imp_le_length)
  show ?case
  proof (cases "n < 8")
    case True
    then show ?thesis using step by auto
  next
    case False
    then obtain m where n: "n = m + 8" by (metis add.commute le_Suc_ex not_less)
    have "\<not> bit b n" using False by (auto dest: bit_imp_le_length)
    moreover have "(m + 8) div 8 = Suc (m div 8)" by simp
    ultimately show ?thesis using step Cons.IH [of m] by (auto simp: n)
  qed
qed

lemma word_xor_right_cancel [simp]: "x XOR z = y XOR z \<longleftrightarrow> x = (y :: 'a::len word)"
  by (auto simp: bit_eq_iff bit_simps)

lemma word_xor_left_cancel [simp]: "z XOR x = z XOR y \<longleftrightarrow> x = (y :: 'a::len word)"
  by (auto simp: bit_eq_iff bit_simps)

lemma upt_4: "[0..<4] = [0, 1, 2, 3::nat]"
  by (simp add: upt_rec)

lemma upt_8: "[0..<8] = [0, 1, 2, 3, 4, 5, 6, 7::nat]"
  by (simp add: upt_rec)

lemma get_u32_le_value: "get_u32 p = le_value [p ! 0, p ! 1, p ! 2, p ! 3]"
  by (simp add: get_u32_def le_value_def push_bit_or or.assoc or.commute or.left_commute)

lemma get_u64_le_value:
  "get_u64 p = le_value [p ! 0, p ! 1, p ! 2, p ! 3, p ! 4, p ! 5, p ! 6, p ! 7]"
  by (simp add: get_u64_def le_value_def upt_8)

lemma length_put_u32 [simp, codec_simps]: "length (put_u32 v) = 4"
  by (simp add: put_u32_def)

lemma length_put_u64 [simp, codec_simps]: "length (put_u64 v) = 8"
  by (simp add: put_u64_def)

lemma le_value_put:
  fixes v :: "'a::len word"
  assumes "LENGTH('a) = 8 * k"
  shows "le_value (map (\<lambda>i. ucast (drop_bit (8 * i) v)) [0..<k]) = v"
proof (rule bit_word_eqI)
  fix n
  assume n: "n < LENGTH('a)"
  then have "n div 8 < k" using assms by auto
  then show "bit (le_value (map (\<lambda>i. ucast (drop_bit (8 * i) v) :: byte) [0..<k]) :: 'a word) n
      \<longleftrightarrow> bit v n"
    using n assms by (simp add: bit_le_value bit_simps)
qed

lemma get_put_u32 [simp, codec_simps]: "get_u32 (put_u32 v @ rest) = v"
  using le_value_put [of 4 v]
  by (simp add: get_u32_le_value put_u32_def upt_4)

lemma get_put_u64 [simp, codec_simps]: "get_u64 (put_u64 v @ rest) = v"
  using le_value_put [of 8 v]
  by (simp add: get_u64_le_value put_u64_def upt_8)

lemma put_u32_le_value:
  "length ps = 4 \<Longrightarrow> put_u32 (le_value ps) = ps"
  by (rule nth_equalityI) (auto simp: put_u32_def intro!: bit_word_eqI simp: bit_simps bit_le_value)

lemma put_u64_le_value:
  "length ps = 8 \<Longrightarrow> put_u64 (le_value ps) = ps"
  by (rule nth_equalityI) (auto simp: put_u64_def intro!: bit_word_eqI simp: bit_simps bit_le_value)

lemma get_u32_eq_take: "4 \<le> length p \<Longrightarrow> get_u32 p = le_value (take 4 p)"
  by (auto simp: get_u32_le_value numeral_eq_Suc Suc_le_length_iff)

lemma get_u64_eq_take: "8 \<le> length p \<Longrightarrow> get_u64 p = le_value (take 8 p)"
  by (auto simp: get_u64_le_value numeral_eq_Suc Suc_le_length_iff)

lemma put_get_u32: "4 \<le> length p \<Longrightarrow> put_u32 (get_u32 p) = take 4 p"
  by (simp add: get_u32_eq_take put_u32_le_value)

lemma put_get_u64: "8 \<le> length p \<Longrightarrow> put_u64 (get_u64 p) = take 8 p"
  by (simp add: get_u64_eq_take put_u64_le_value)

lemma get_u32_put [simp, codec_simps]: "get_u32 (put_u32 v) = v"
  using get_put_u32 [of v "[]"] by simp

lemma get_u64_put [simp, codec_simps]: "get_u64 (put_u64 v) = v"
  using get_put_u64 [of v "[]"] by simp

lemma get_u32_append: "4 \<le> length p \<Longrightarrow> get_u32 (p @ q) = get_u32 p"
  by (simp add: get_u32_eq_take)

lemma get_u64_append: "8 \<le> length p \<Longrightarrow> get_u64 (p @ q) = get_u64 p"
  by (simp add: get_u64_eq_take)

lemma get_u32_take: "4 \<le> n \<Longrightarrow> 4 \<le> length p \<Longrightarrow> get_u32 (take n p) = get_u32 p"
  by (simp add: get_u32_eq_take min_absorb1)

lemma get_u64_take: "8 \<le> n \<Longrightarrow> 8 \<le> length p \<Longrightarrow> get_u64 (take n p) = get_u64 p"
  by (simp add: get_u64_eq_take min_absorb1)

section \<open>Casts of sizes\<close>

lemma unat_of_nat_u32: "n < 2 ^ 32 \<Longrightarrow> unat (of_nat n :: u32) = n"
  by (simp add: unat_of_nat take_bit_nat_eq_self_iff)

lemma unat_of_nat_u64: "n < 2 ^ 64 \<Longrightarrow> unat (of_nat n :: u64) = n"
  by (simp add: unat_of_nat take_bit_nat_eq_self_iff)

lemma unat_u32_less: "unat (x :: u32) < 2 ^ 32"
  using unsigned_less [where 'a = nat and w = x] by simp

text \<open>A counter that is not at its last value grows by one.\<close>

lemma unat_succ: "x \<noteq> - 1 \<Longrightarrow> unat (x + 1 :: 'a::len word) = Suc (unat x)"
  using unatSuc [of x] by (metis add.commute add_eq_0_iff)

lemma word_less_succ: "x \<noteq> - 1 \<Longrightarrow> x < (x + 1 :: 'a::len word)"
  by (simp add: word_less_nat_alt unat_succ)

section \<open>Buffers\<close>

text \<open>\<open>bytes_at off n buf\<close>: the \<open>n\<close> bytes of a buffer from \<open>off\<close> on.\<close>

definition bytes_at :: "nat \<Rightarrow> nat \<Rightarrow> 'a list \<Rightarrow> 'a list" where
  "bytes_at off n xs = take n (drop off xs)"

lemma length_bytes_at [simp]: "length (bytes_at off n xs) = min n (length xs - off)"
  by (simp add: bytes_at_def)

lemma bytes_at_0 [simp]: "bytes_at off 0 xs = []"
  by (simp add: bytes_at_def)

lemma bytes_at_append_left [simp]: "off = length xs \<Longrightarrow> bytes_at off n (xs @ ys) = take n ys"
  by (simp add: bytes_at_def)

lemma bytes_at_inside: "off = length xs \<Longrightarrow> n = length ys \<Longrightarrow> bytes_at off n (xs @ ys @ zs) = ys"
  by (simp add: bytes_at_def)

end
