(* ===== verification/Checksum.thy ===== *)
theory Checksum
  imports Prelude
begin

text \<open>
  The CRC-32 of \<open>src/wal.cpp\<close> (the same text stands in \<open>src/sstable.cpp\<close> and
  \<open>src/table_reader.cpp\<close>): the table the static initialiser fills, the table-driven loop,
  the bit-at-a-time definition it has to agree with, and what the checksum detects.
\<close>

section \<open>The code\<close>

definition crc_poly :: u32 where
  "crc_poly = 0xEDB88320"

text \<open>One turn of the inner loop: \<open>c = (c & 1) ? 0xEDB88320u ^ (c >> 1) : c >> 1\<close>.\<close>

definition crc_shift :: "u32 \<Rightarrow> u32" where
  "crc_shift c = (if bit c 0 then crc_poly XOR drop_bit 1 c else drop_bit 1 c)"

definition crc_table :: "u32 list" where
  "crc_table = map (\<lambda>i. (crc_shift ^^ 8) (of_nat i)) [0..<256]"

definition crc_update :: "u32 \<Rightarrow> byte \<Rightarrow> u32" where
  "crc_update crc b = crc_table ! unat ((crc XOR ucast b) AND 0xFF) XOR drop_bit 8 crc"

definition crc32 :: "bytes \<Rightarrow> u32" where
  "crc32 data = foldl crc_update 0xFFFFFFFF data XOR 0xFFFFFFFF"

section \<open>The reference: one bit at a time, no table\<close>

definition crc32_bitwise :: "bytes \<Rightarrow> u32" where
  "crc32_bitwise data =
     foldl (\<lambda>crc b. (crc_shift ^^ 8) (crc XOR ucast b)) 0xFFFFFFFF data XOR 0xFFFFFFFF"

section \<open>The shift register is linear and injective\<close>

lemma crc_shift_xor: "crc_shift (x XOR y) = crc_shift x XOR crc_shift y"
  by (rule bit_word_eqI) (auto simp: crc_shift_def bit_simps)

lemma crc_shifts_xor: "(crc_shift ^^ k) (x XOR y) = (crc_shift ^^ k) x XOR (crc_shift ^^ k) y"
  by (induction k) (auto simp: crc_shift_xor)

lemma crc_shifts_low_zero:
  "(\<And>i. i < k \<Longrightarrow> \<not> bit x i) \<Longrightarrow> (crc_shift ^^ k) x = drop_bit k x"
proof (induction k)
  case 0
  then show ?case by simp
next
  case (Suc k)
  then have "(crc_shift ^^ Suc k) x = crc_shift (drop_bit k x)" by simp
  moreover have "\<not> bit (drop_bit k x) 0" using Suc.prems by (simp add: bit_simps)
  ultimately have "(crc_shift ^^ Suc k) x = drop_bit 1 (drop_bit k x)"
    by (simp only: crc_shift_def if_False)
  then show ?case by (simp add: drop_bit_drop_bit)
qed

lemma crc_shift_top: "bit (crc_shift c) 31 \<longleftrightarrow> bit c 0"
  by (auto simp: crc_shift_def crc_poly_def bit_simps dest: bit_imp_le_length)

lemma crc_shift_inj: "crc_shift x = crc_shift y \<Longrightarrow> x = y"
proof (rule bit_word_eqI)
  fix n
  assume eq: "crc_shift x = crc_shift y" and n: "n < LENGTH(32)"
  have low: "bit x 0 = bit y 0" using eq crc_shift_top by metis
  then have "drop_bit 1 x = drop_bit 1 y"
    using eq by (auto simp: crc_shift_def split: if_splits)
  then have "bit (drop_bit 1 x) (n - 1) = bit (drop_bit 1 y) (n - 1)" by simp
  then show "bit x n = bit y n" using low by (cases n) (auto simp: bit_simps)
qed

lemma crc_shifts_inj: "(crc_shift ^^ k) x = (crc_shift ^^ k) y \<Longrightarrow> x = y"
  by (induction k) (auto dest: crc_shift_inj)

section \<open>The table-driven step is eight turns of the register\<close>

lemma crc_table_nth: "n < 256 \<Longrightarrow> crc_table ! n = (crc_shift ^^ 8) (of_nat n)"
  by (simp add: crc_table_def)

lemma unat_low_byte: "unat ((x :: u32) AND 0xFF) < 256"
proof -
  have "x AND 0xFF \<le> 0xFF" by (rule word_and_le1)
  then show ?thesis by (simp add: word_le_nat_alt)
qed

lemma crc_update_eq: "crc_update crc b = (crc_shift ^^ 8) (crc XOR ucast b)"
proof -
  let ?x = "crc XOR ucast b"
  have ff: "(0xFF :: u32) = mask 8" by (simp add: mask_eq_exp_minus_1)
  have split: "?x = (?x AND 0xFF) XOR (?x AND NOT 0xFF)"
    by (rule bit_word_eqI) (auto simp: bit_simps)
  have high: "(crc_shift ^^ 8) (?x AND NOT 0xFF) = drop_bit 8 crc"
  proof -
    have "\<not> bit (?x AND NOT 0xFF) i" if "i < 8" for i
      using that by (simp add: ff bit_simps)
    then have "(crc_shift ^^ 8) (?x AND NOT 0xFF) = drop_bit 8 (?x AND NOT 0xFF)"
      by (rule crc_shifts_low_zero)
    also have "\<dots> = drop_bit 8 crc"
      by (rule bit_word_eqI) (auto simp: ff bit_simps dest: bit_imp_le_length)
    finally show ?thesis .
  qed
  have "crc_table ! unat (?x AND 0xFF) = (crc_shift ^^ 8) (?x AND 0xFF)"
    using crc_table_nth [OF unat_low_byte [of ?x]] by simp
  then have "crc_update crc b = (crc_shift ^^ 8) (?x AND 0xFF) XOR (crc_shift ^^ 8) (?x AND NOT 0xFF)"
    by (simp only: crc_update_def high)
  also have "\<dots> = (crc_shift ^^ 8) ?x"
    by (simp only: crc_shifts_xor [symmetric] split [symmetric])
  finally show ?thesis .
qed

lemma crc_fold_eq:
  "foldl crc_update c data = foldl (\<lambda>crc b. (crc_shift ^^ 8) (crc XOR ucast b)) c data"
  by (induction data arbitrary: c) (simp_all only: foldl.simps crc_update_eq)

lemma crc_fold_inj: "foldl crc_update c data = foldl crc_update d data \<Longrightarrow> c = d"
proof (induction data arbitrary: c d)
  case Nil
  then show ?case by simp
next
  case (Cons b data)
  then have "crc_update c b = crc_update d b" by simp
  then have "c XOR ucast b = d XOR ucast b"
    by (simp only: crc_update_eq) (drule crc_shifts_inj, simp)
  then show ?case by simp
qed

text \<open>Up to four bytes go through the register as one word.\<close>

lemma crc_fold_short:
  assumes "length us \<le> 4"
  shows "foldl crc_update c us = (crc_shift ^^ (8 * length us)) (c XOR le_value us)"
  using assms
proof (induction us arbitrary: c)
  case Nil
  then show ?case by (simp add: le_value_def)
next
  case (Cons u us)
  let ?v = "le_value us :: u32"
  have le: "le_value (u # us) = (ucast u :: u32) XOR push_bit 8 ?v"
    by (rule bit_word_eqI) (auto simp: le_value_def bit_simps dest: bit_imp_le_length)
  have "(crc_shift ^^ 8) (push_bit 8 ?v) = drop_bit 8 (push_bit 8 ?v)"
    by (rule crc_shifts_low_zero) (simp add: bit_simps)
  also have "\<dots> = ?v"
    using Cons.prems by (intro bit_word_eqI) (auto simp: bit_simps bit_le_value)
  finally have v: "?v = (crc_shift ^^ 8) (push_bit 8 ?v)" by simp
  have "foldl crc_update c (u # us) = (crc_shift ^^ (8 * length us)) (crc_update c u XOR ?v)"
    using Cons by simp
  also have "crc_update c u XOR ?v = (crc_shift ^^ 8) (c XOR ucast u XOR push_bit 8 ?v)"
    by (subst v) (simp only: crc_update_eq crc_shifts_xor xor.assoc)
  also have "(crc_shift ^^ (8 * length us)) \<dots> = (crc_shift ^^ (8 * length (u # us))) (c XOR le_value (u # us))"
    by (simp add: le xor.assoc funpow_add add.commute [of 8] del: funpow.simps)
  finally show ?case .
qed

lemma le_value_inj:
  assumes "length us = length vs" "length us \<le> 4" "(le_value us :: u32) = le_value vs"
  shows "us = vs"
proof (rule nth_equalityI)
  fix i
  assume i: "i < length us"
  show "us ! i = vs ! i"
  proof (rule bit_word_eqI)
    fix n
    assume "n < LENGTH(8)"
    then have n: "8 * i + n < 32" "8 * i + n < 8 * length us" "(8 * i + n) div 8 = i"
        "(8 * i + n) mod 8 = n"
      using i assms(2) by auto
    have "bit (le_value us :: u32) (8 * i + n) = bit (le_value vs :: u32) (8 * i + n)"
      using assms(3) by simp
    then show "bit (us ! i) n = bit (vs ! i) n"
      using n assms(1) by (simp add: bit_le_value)
  qed
qed (use assms(1) in simp)

lemma crc32_burst:
  assumes "length us = length vs" "length us \<le> 4"
    and "crc32 (xs @ us @ ys) = crc32 (xs @ vs @ ys)"
  shows "us = vs"
proof -
  let ?c = "foldl crc_update 0xFFFFFFFF xs"
  have "foldl crc_update (foldl crc_update ?c us) ys = foldl crc_update (foldl crc_update ?c vs) ys"
    using assms(3) by (simp add: crc32_def)
  then have "foldl crc_update ?c us = foldl crc_update ?c vs" by (rule crc_fold_inj)
  then have "(crc_shift ^^ (8 * length us)) (?c XOR le_value us)
      = (crc_shift ^^ (8 * length us)) (?c XOR le_value vs)"
    using assms(1,2) by (simp add: crc_fold_short)
  then have "?c XOR le_value us = ?c XOR le_value vs" by (rule crc_shifts_inj)
  then have "(le_value us :: u32) = le_value vs" by simp
  then show ?thesis using le_value_inj assms(1,2) by blast
qed

text \<open>
  A checksummed frame, \<open>payload | crc32(payload) u32\<close>, has a constant residue, so a burst
  of up to four bytes is detected wherever it falls, across the boundary too.
\<close>

lemma crc_frame_residue:
  assumes "length w = 4"
  shows "crc32 payload = get_u32 w \<longleftrightarrow>
    foldl crc_update 0xFFFFFFFF (payload @ w) = (crc_shift ^^ 32) 0xFFFFFFFF"
proof -
  let ?c = "foldl crc_update 0xFFFFFFFF payload"
  have "foldl crc_update 0xFFFFFFFF (payload @ w) = (crc_shift ^^ 32) (?c XOR le_value w)"
    using crc_fold_short [of w ?c] assms by simp
  moreover have "crc32 payload = get_u32 w \<longleftrightarrow> ?c XOR le_value w = 0xFFFFFFFF"
  proof -
    have "?c XOR 0xFFFFFFFF = le_value w \<longleftrightarrow> ?c XOR (?c XOR 0xFFFFFFFF) = ?c XOR le_value w"
      by (simp only: word_xor_left_cancel)
    then show ?thesis
      using assms by (auto simp: crc32_def get_u32_eq_take simp flip: xor.assoc)
  qed
  ultimately show ?thesis by (auto dest: crc_shifts_inj)
qed

lemma crc_frame_burst:
  assumes good: "crc32 payload = get_u32 w" and bad: "crc32 payload' = get_u32 w'"
    and len: "length w = 4" "length w' = 4"
    and frames: "payload @ w = xs @ us @ ys" "payload' @ w' = xs @ vs @ ys"
    and burst: "length us = length vs" "length us \<le> 4"
  shows "us = vs"
proof -
  have "foldl crc_update 0xFFFFFFFF (xs @ us @ ys) = foldl crc_update 0xFFFFFFFF (xs @ vs @ ys)"
    using good bad len by (simp only: crc_frame_residue frames [symmetric])
  then have "crc32 (xs @ us @ ys) = crc32 (xs @ vs @ ys)" by (simp add: crc32_def)
  then show ?thesis by (rule crc32_burst [OF burst])
qed

section \<open>Properties\<close>

text \<open>C30. The table-driven CRC-32 loop computes the bit-at-a-time CRC-32 (reflected
  polynomial 0xEDB88320, initial value and final complement 0xFFFFFFFF) of every input.\<close>
theorem crc32_is_bitwise: "crc32 data = crc32_bitwise data"
  by (simp add: crc32_def crc32_bitwise_def crc_fold_eq)

end
