(* ===== verification/Wal_Record.thy ===== *)
theory Wal_Record
  imports Checksum
begin

text \<open>
  The record framing of \<open>src/wal.cpp\<close>: how \<open>Wal::append\<close> builds a record, how
  \<open>scan_segment\<close> reads a segment back, and what the scan makes of a log that was cut short
  or garbled.  A file is the list of its bytes; \<open>std::fread\<close> of \<open>n\<close> bytes yields \<open>take n\<close>
  of what is left.  Counters of records and file offsets are bounded by the file's length
  and are \<open>nat\<close>; everything read from the file keeps its width.
\<close>

section \<open>Constants\<close>

definition kMagic :: bytes where
  "kMagic = [0x4C, 0x53, 0x4D, 0x57]"

definition kVersion :: byte where "kVersion = 1"
definition kHeaderSize :: nat where "kHeaderSize = 8"
definition kTypePut :: byte where "kTypePut = 1"
definition kTypeDel :: byte where "kTypeDel = 2"
definition kMinPayload :: nat where "kMinPayload = 17"
definition kMaxPayload :: nat where "kMaxPayload = 2 ^ 30"
definition kFrameOverhead :: nat where "kFrameOverhead = 8"

lemmas wal_consts = kHeaderSize_def kTypePut_def kTypeDel_def kMinPayload_def kMaxPayload_def
  kFrameOverhead_def

section \<open>Writing a record\<close>

record wal_record =
  rec_type :: byte
  rec_seqno :: u64
  rec_key :: bytes
  rec_value :: bytes

text \<open>The length field is the sum cast to 32 bits; the checksum runs over that many bytes.\<close>

definition payload_length :: "bytes \<Rightarrow> bytes \<Rightarrow> u32" where
  "payload_length key value = of_nat (kMinPayload + length key + length value)"

definition record_payload :: "wal_record \<Rightarrow> bytes" where
  "record_payload r = [rec_type r] @ put_u64 (rec_seqno r)
     @ put_u32 (of_nat (length (rec_key r))) @ put_u32 (of_nat (length (rec_value r)))
     @ rec_key r @ rec_value r"

definition encode_record :: "wal_record \<Rightarrow> bytes" where
  "encode_record r =
     (let payload_len = payload_length (rec_key r) (rec_value r);
          body = put_u32 payload_len @ record_payload r
      in body @ put_u32 (crc32 (take (unat payload_len) (drop 4 body))))"

text \<open>The header \<open>Wal::open_active_segment\<close> writes into a fresh segment.\<close>

definition segment_header :: bytes where
  "segment_header = kMagic @ [kVersion] @ replicate 3 0"

section \<open>Reading a segment\<close>

text \<open>
  One turn of the loop of \<open>scan_segment\<close>: the end of the segment, a tail that is not a
  record, or a record and the number of bytes it takes.
\<close>

datatype frame = SegmentEnd | BadTail | Frame wal_record nat

definition read_frame :: "bytes \<Rightarrow> frame" where
  "read_frame f =
     (let lenb = take 4 f in
      if length lenb = 0 then SegmentEnd
      else if length lenb < 4 then BadTail
      else
        let payload_len = unat (get_u32 lenb) in
        if payload_len < kMinPayload \<or> payload_len > kMaxPayload then BadTail
        else
          let buf = bytes_at 4 (payload_len + 4) f in
          if length buf \<noteq> payload_len + 4 then BadTail
          else if crc32 (take payload_len buf) \<noteq> get_u32 (drop payload_len buf) then BadTail
          else
            let type = buf ! 0;
                seqno = get_u64 (drop 1 buf);
                key_len = unat (get_u32 (drop 9 buf));
                val_len = unat (get_u32 (drop 13 buf))
            in if (type \<noteq> kTypePut \<and> type \<noteq> kTypeDel)
                  \<or> kMinPayload + key_len + val_len \<noteq> payload_len
                  \<or> (type = kTypeDel \<and> val_len \<noteq> 0) then BadTail
               else Frame \<lparr>rec_type = type, rec_seqno = seqno,
                           rec_key = bytes_at kMinPayload key_len buf,
                           rec_value = bytes_at (kMinPayload + key_len) val_len buf\<rparr>
                          (kFrameOverhead + payload_len))"

record segment_scan =
  sc_records :: nat
  sc_max_seqno :: u64
  sc_good_bytes :: nat
  sc_clean :: bool

definition scan_add :: "wal_record \<Rightarrow> nat \<Rightarrow> segment_scan \<Rightarrow> segment_scan" where
  "scan_add r n s = s\<lparr>sc_records := sc_records s + 1,
     sc_max_seqno := max (sc_max_seqno s) (rec_seqno r),
     sc_good_bytes := sc_good_bytes s + n\<rparr>"

lemma read_frame_length: "read_frame f = Frame r n \<Longrightarrow> 25 \<le> n \<and> n \<le> length f"
  by (auto simp: read_frame_def Let_def wal_consts split: if_splits)

text \<open>The records handed to the replay callback are returned in order.\<close>

function scan_loop :: "bytes \<Rightarrow> segment_scan \<Rightarrow> segment_scan \<times> wal_record list" where
  "scan_loop f result =
     (case read_frame f of
        SegmentEnd \<Rightarrow> (result, [])
      | BadTail \<Rightarrow> (result\<lparr>sc_clean := False\<rparr>, [])
      | Frame r n \<Rightarrow>
          (let (result', rs) = scan_loop (drop n f) (scan_add r n result) in (result', r # rs)))"
  by pat_completeness auto
termination
  by (relation "measure (\<lambda>(f, _). length f)") (auto dest: read_frame_length)

declare scan_loop.simps [simp del]

definition scan_segment :: "bytes \<Rightarrow> segment_scan \<times> wal_record list" where
  "scan_segment f =
     (let header = take kHeaderSize f in
      if length header \<noteq> kHeaderSize \<or> take 4 header \<noteq> kMagic \<or> header ! 4 \<noteq> kVersion
      then (\<lparr>sc_records = 0, sc_max_seqno = 0, sc_good_bytes = 0, sc_clean = False\<rparr>, [])
      else scan_loop (drop kHeaderSize f)
             \<lparr>sc_records = 0, sc_max_seqno = 0, sc_good_bytes = kHeaderSize, sc_clean = True\<rparr>)"

section \<open>Records that fit the reader's cap\<close>

definition wal_record_ok :: "wal_record \<Rightarrow> bool" where
  "wal_record_ok r \<longleftrightarrow>
     (rec_type r = kTypePut \<or> rec_type r = kTypeDel) \<and>
     (rec_type r = kTypeDel \<longrightarrow> rec_value r = []) \<and>
     kMinPayload + length (rec_key r) + length (rec_value r) \<le> kMaxPayload"

lemma length_record_payload [codec_simps]:
  "length (record_payload r) = kMinPayload + length (rec_key r) + length (rec_value r)"
  by (simp add: record_payload_def kMinPayload_def)

lemma encode_record_small:
  assumes "kMinPayload + length (rec_key r) + length (rec_value r) < 2 ^ 32"
  shows "encode_record r = put_u32 (of_nat (length (record_payload r))) @ record_payload r
           @ put_u32 (crc32 (record_payload r))"
proof -
  have len: "payload_length (rec_key r) (rec_value r) = of_nat (length (record_payload r))"
    by (simp add: payload_length_def length_record_payload)
  have "unat (of_nat (length (record_payload r)) :: u32) = length (record_payload r)"
    using assms by (intro unat_of_nat_u32) (simp only: length_record_payload)
  then show ?thesis
    by (simp only: encode_record_def Let_def len) simp
qed

lemma wal_record_ok_small:
  "wal_record_ok r \<Longrightarrow> kMinPayload + length (rec_key r) + length (rec_value r) < 2 ^ 32"
  by (auto simp: wal_record_ok_def kMaxPayload_def)

lemma encode_record_ok:
  "wal_record_ok r \<Longrightarrow>
     encode_record r = put_u32 (of_nat (length (record_payload r))) @ record_payload r
           @ put_u32 (crc32 (record_payload r))"
  by (rule encode_record_small) (rule wal_record_ok_small)

lemma length_encode_record [codec_simps]:
  "wal_record_ok r \<Longrightarrow>
     length (encode_record r) = kFrameOverhead + kMinPayload + length (rec_key r) + length (rec_value r)"
  by (simp add: encode_record_ok length_record_payload kFrameOverhead_def)

text \<open>The fields of a payload, at the offsets the reader uses.\<close>

lemma record_payload_fields:
  assumes "length (rec_key r) < 2 ^ 32" "length (rec_value r) < 2 ^ 32"
  shows "record_payload r @ w \<noteq> []" and "(record_payload r @ w) ! 0 = rec_type r"
    and "get_u64 (drop 1 (record_payload r @ w)) = rec_seqno r"
    and "unat (get_u32 (drop 9 (record_payload r @ w))) = length (rec_key r)"
    and "unat (get_u32 (drop 13 (record_payload r @ w))) = length (rec_value r)"
    and "bytes_at kMinPayload (length (rec_key r)) (record_payload r @ w) = rec_key r"
    and "bytes_at (kMinPayload + length (rec_key r)) (length (rec_value r)) (record_payload r @ w)
           = rec_value r"
proof -
  let ?h = "[rec_type r] @ put_u64 (rec_seqno r) @ put_u32 (of_nat (length (rec_key r)))
      @ put_u32 (of_nat (length (rec_value r)))"
  have "bytes_at (length (?h @ rec_key r)) (length (rec_value r)) ((?h @ rec_key r) @ rec_value r @ w)
      = rec_value r"
    by (rule bytes_at_inside) simp_all
  then show "bytes_at (kMinPayload + length (rec_key r)) (length (rec_value r)) (record_payload r @ w)
           = rec_value r"
    by (simp add: record_payload_def kMinPayload_def)
qed (use assms in \<open>simp_all add: record_payload_def unat_of_nat_u32 bytes_at_def kMinPayload_def\<close>)

lemma read_frame_encode:
  assumes ok: "wal_record_ok r"
  shows "read_frame (encode_record r @ rest) = Frame r (length (encode_record r))"
proof -
  let ?p = "record_payload r" and ?n = "length (record_payload r)"
  have n: "?n = kMinPayload + length (rec_key r) + length (rec_value r)"
    by (rule length_record_payload)
  have small: "?n < 2 ^ 32" using wal_record_ok_small [OF ok] n by simp
  have lens: "length (rec_key r) < 2 ^ 32" "length (rec_value r) < 2 ^ 32" using small n by auto
  have len: "unat (of_nat ?n :: u32) = ?n" by (rule unat_of_nat_u32 [OF small])
  have buf: "bytes_at 4 (?n + 4) (encode_record r @ rest) = ?p @ put_u32 (crc32 ?p)"
    by (simp add: encode_record_ok [OF ok] bytes_at_def)
  have head: "take 4 (encode_record r @ rest) = put_u32 (of_nat ?n)"
    by (simp add: encode_record_ok [OF ok])
  have bounds: "\<not> ?n < kMinPayload" "\<not> ?n > kMaxPayload"
    using ok n by (auto simp: wal_record_ok_def)
  have del: "rec_type r = kTypeDel \<Longrightarrow> length (rec_value r) = 0"
    and kind: "rec_type r = kTypePut \<or> rec_type r = kTypeDel"
    using ok by (auto simp: wal_record_ok_def)
  define B where "B = ?p @ put_u32 (crc32 ?p)"
  note fields = record_payload_fields [OF lens, of "put_u32 (crc32 ?p)", folded B_def]
  have parts: "length B = ?n + 4" "take ?n B = ?p" "drop ?n B = put_u32 (crc32 ?p)"
    by (simp_all add: B_def)
  have dec: "read_frame (encode_record r @ rest) =
      Frame \<lparr>rec_type = rec_type r, rec_seqno = rec_seqno r, rec_key = rec_key r, rec_value = rec_value r\<rparr>
        (kFrameOverhead + ?n)"
    unfolding read_frame_def head Let_def get_u32_put len buf [folded B_def]
    using bounds del kind by (simp add: parts [unfolded n] fields n del: One_nat_def)
  then show ?thesis
    by (simp add: length_encode_record [OF ok] n)
qed

text \<open>What the reader accepts is canonical: the bytes of the frame are the encoding of its record.\<close>

lemma payload_split:
  assumes "17 + k + v \<le> length B"
  shows "take (17 + k + v) B = [B ! 0] @ put_u64 (get_u64 (drop 1 B)) @ put_u32 (get_u32 (drop 9 B))
      @ put_u32 (get_u32 (drop 13 B)) @ bytes_at 17 k B @ bytes_at (17 + k) v B"
proof -
  have "take (17 + k + v) B = take 1 B @ take 8 (drop 1 B) @ take 4 (drop 9 B) @ take 4 (drop 13 B)
      @ take k (drop 17 B) @ take v (drop (17 + k) B)"
    by (simp add: take_add [symmetric] flip: append_assoc add: add.commute)
  also have "take 1 B = [B ! 0]" using assms by (cases B) auto
  also have "take 8 (drop 1 B) = put_u64 (get_u64 (drop 1 B))"
    by (rule put_get_u64 [symmetric]) (use assms in simp)
  also have "take 4 (drop 9 B) = put_u32 (get_u32 (drop 9 B))"
    by (rule put_get_u32 [symmetric]) (use assms in simp)
  also have "take 4 (drop 13 B) = put_u32 (get_u32 (drop 13 B))"
    by (rule put_get_u32 [symmetric]) (use assms in simp)
  finally show ?thesis by (simp add: bytes_at_def)
qed

lemma read_frame_FrameE:
  assumes "read_frame f = Frame r n"
  obtains L B k v where "4 \<le> length f" and "L = unat (get_u32 (take 4 f))" and "L \<le> kMaxPayload"
    and "B = bytes_at 4 (L + 4) f" and "length B = L + 4"
    and "crc32 (take L B) = get_u32 (drop L B)"
    and "B ! 0 = kTypePut \<or> B ! 0 = kTypeDel"
    and "k = unat (get_u32 (drop 9 B))" and "v = unat (get_u32 (drop 13 B))"
    and "L = kMinPayload + k + v" and "B ! 0 = kTypeDel \<longrightarrow> v = 0"
    and "n = kFrameOverhead + L"
    and "r = \<lparr>rec_type = B ! 0, rec_seqno = get_u64 (drop 1 B),
              rec_key = bytes_at kMinPayload k B, rec_value = bytes_at (kMinPayload + k) v B\<rparr>"
proof -
  define L where "L = unat (get_u32 (take 4 f))"
  define B where "B = bytes_at 4 (L + 4) f"
  define k where "k = unat (get_u32 (drop 9 B))"
  define v where "v = unat (get_u32 (drop 13 B))"
  define res where "res = \<lparr>rec_type = B ! 0, rec_seqno = get_u64 (drop 1 B),
      rec_key = bytes_at kMinPayload k B, rec_value = bytes_at (kMinPayload + k) v B\<rparr>"
  have rf: "read_frame f =
     (if length (take 4 f) = 0 then SegmentEnd
      else if length (take 4 f) < 4 then BadTail
      else if L < kMinPayload \<or> L > kMaxPayload then BadTail
      else if length B \<noteq> L + 4 then BadTail
      else if crc32 (take L B) \<noteq> get_u32 (drop L B) then BadTail
      else if (B ! 0 \<noteq> kTypePut \<and> B ! 0 \<noteq> kTypeDel) \<or> kMinPayload + k + v \<noteq> L
              \<or> (B ! 0 = kTypeDel \<and> v \<noteq> 0) then BadTail
      else Frame res (kFrameOverhead + L))"
    unfolding read_frame_def Let_def res_def L_def B_def k_def v_def by (rule refl)
  have "4 \<le> length f" "L \<le> kMaxPayload" "length B = L + 4"
    "crc32 (take L B) = get_u32 (drop L B)" "B ! 0 = kTypePut \<or> B ! 0 = kTypeDel"
    "L = kMinPayload + k + v" "B ! 0 = kTypeDel \<longrightarrow> v = 0" "n = kFrameOverhead + L" "r = res"
    using assms unfolding rf by (simp_all split: if_split_asm)
  then show ?thesis
    using that L_def B_def k_def v_def res_def by blast
qed

lemma read_frame_canonical:
  assumes "read_frame f = Frame r n"
  shows "wal_record_ok r" and "encode_record r = take n f" and "n = length (encode_record r)"
    and "n \<le> length f"
proof -
  from assms obtain L B k v where f4: "4 \<le> length f" and L: "L = unat (get_u32 (take 4 f))"
    and Lmax: "L \<le> kMaxPayload" and B: "B = bytes_at 4 (L + 4) f" and lenB: "length B = L + 4"
    and crc: "crc32 (take L B) = get_u32 (drop L B)"
    and kind: "B ! 0 = kTypePut \<or> B ! 0 = kTypeDel"
    and k: "k = unat (get_u32 (drop 9 B))" and v: "v = unat (get_u32 (drop 13 B))"
    and sum: "L = kMinPayload + k + v" and del: "B ! 0 = kTypeDel \<longrightarrow> v = 0"
    and n: "n = kFrameOverhead + L"
    and r: "r = \<lparr>rec_type = B ! 0, rec_seqno = get_u64 (drop 1 B),
              rec_key = bytes_at kMinPayload k B, rec_value = bytes_at (kMinPayload + k) v B\<rparr>"
    by (rule read_frame_FrameE)
  have fL: "L + 8 \<le> length f" using lenB f4 by (simp add: B)
  have keylen: "length (rec_key r) = k" and vallen: "length (rec_value r) = v"
    using lenB sum by (simp_all add: r)
  show ok: "wal_record_ok r"
    using kind del Lmax sum keylen vallen by (auto simp: wal_record_ok_def r)
  have L17: "L = 17 + k + v" using sum by (simp add: kMinPayload_def)
  have kw: "of_nat k = get_u32 (drop 9 B)" and vw: "of_nat v = get_u32 (drop 13 B)"
    by (simp_all add: k v)
  have fields: "rec_type r = B ! 0" "rec_seqno r = get_u64 (drop 1 B)"
    "rec_key r = bytes_at 17 k B" "rec_value r = bytes_at (17 + k) v B"
    by (simp_all add: r kMinPayload_def)
  have fits: "17 + k + v \<le> length B" using lenB L17 by simp
  have payload: "record_payload r = take L B"
    unfolding record_payload_def keylen vallen kw vw
    by (simp only: fields L17 payload_split [OF fits])
  have plen: "length (record_payload r) = L" using payload lenB by simp
  have "encode_record r = put_u32 (of_nat L) @ take L B @ put_u32 (crc32 (take L B))"
    by (simp only: encode_record_ok [OF ok] plen) (simp only: payload)
  also have "put_u32 (of_nat L) = take 4 f"
    using f4 put_get_u32 [of "take 4 f"] by (simp add: L)
  also have "put_u32 (crc32 (take L B)) = take 4 (drop L B)"
    using lenB by (simp add: crc put_get_u32)
  also have "take L B @ take 4 (drop L B) = B"
    using lenB take_add [of L 4 B] by simp
  also have "take 4 f @ B = take n f"
    using take_add [of 4 "L + 4" f] by (simp add: n B bytes_at_def kFrameOverhead_def add.commute)
  finally show enc: "encode_record r = take n f" .
  show "n \<le> length f" using fL n by (simp add: kFrameOverhead_def)
  then show "n = length (encode_record r)" by (simp add: enc)
qed

lemma read_frame_encode_frame:
  "read_frame f = Frame r n \<Longrightarrow> read_frame (take n f @ rest) = Frame r n"
  using read_frame_encode [of r rest] read_frame_canonical [of f r n] by simp

lemma read_frame_SegmentEnd [simp]: "read_frame f = SegmentEnd \<longleftrightarrow> f = []"
  by (auto simp: read_frame_def Let_def)

lemma read_frame_Nil [simp]: "read_frame [] = SegmentEnd"
  by simp

lemma encode_record_nonempty: "wal_record_ok r \<Longrightarrow> encode_record r \<noteq> []"
  using length_encode_record [of r] by (auto simp: wal_consts)

text \<open>A proper, nonempty prefix of a record is never taken for a record.\<close>

lemma read_frame_torn:
  assumes "wal_record_ok r" "0 < n" "n < length (encode_record r)"
  shows "read_frame (take n (encode_record r)) = BadTail"
proof (cases "read_frame (take n (encode_record r))")
  case SegmentEnd
  then show ?thesis using assms by simp
next
  case (Frame r' m)
  then have m: "m \<le> n" using read_frame_canonical(4) assms(3) by fastforce
  have "read_frame (encode_record r) = Frame r' m"
    using read_frame_encode_frame [OF Frame, of "drop m (encode_record r)"] m by (simp add: min_absorb1)
  then have "m = length (encode_record r)"
    using read_frame_encode [OF assms(1), of "[]"] by simp
  then show ?thesis using m assms(3) by simp
qed

text \<open>A burst of at most four garbled bytes behind the length field is never taken for a record.\<close>

lemma read_frame_garbled:
  assumes ok: "wal_record_ok r"
    and enc: "encode_record r = put_u32 len @ xs @ us @ ys"
    and burst: "length us = length vs" "length us \<le> 4" "us \<noteq> vs"
  shows "read_frame (put_u32 len @ xs @ vs @ ys @ rest) = BadTail"
proof (cases "read_frame (put_u32 len @ xs @ vs @ ys @ rest)")
  case SegmentEnd
  then show ?thesis by (simp add: put_u32_def)
next
  case (Frame r' m)
  let ?g = "put_u32 len @ xs @ vs @ ys"
  have parts: "put_u32 len = put_u32 (of_nat (length (record_payload r)))"
    "xs @ us @ ys = record_payload r @ put_u32 (crc32 (record_payload r))"
    using enc encode_record_ok [OF ok] by (auto simp: append_eq_append_conv)
  have ok': "wal_record_ok r'" and enc': "encode_record r' = take m (?g @ rest)"
    using read_frame_canonical [OF Frame] by simp_all
  have "put_u32 (of_nat (length (record_payload r'))) = take 4 (encode_record r')"
    by (simp add: encode_record_ok [OF ok'])
  also have "\<dots> = put_u32 len"
    using read_frame_length [OF Frame] by (simp add: enc')
  finally have "(of_nat (length (record_payload r')) :: u32) = of_nat (length (record_payload r))"
    by (metis get_u32_put parts(1))
  moreover have "length (record_payload r) < 2 ^ 32" "length (record_payload r') < 2 ^ 32"
    using wal_record_ok_small [OF ok] wal_record_ok_small [OF ok'] by (simp_all add: length_record_payload)
  ultimately have same: "length (record_payload r') = length (record_payload r)"
    by (metis unat_of_nat_u32)
  have "length (xs @ us @ ys) = length (record_payload r) + 4" by (simp add: parts)
  then have "length ?g = length (encode_record r')"
    using burst(1) by (simp add: encode_record_ok [OF ok'] same)
  then have "encode_record r' = ?g"
    using enc' by (metis append_eq_append_conv append_take_drop_id)
  then have "xs @ vs @ ys = record_payload r' @ put_u32 (crc32 (record_payload r'))"
    by (simp add: encode_record_ok [OF ok'] append_eq_append_conv)
  then have "us = vs"
    using crc_frame_burst [of "record_payload r" "put_u32 (crc32 (record_payload r))"
        "record_payload r'" "put_u32 (crc32 (record_payload r'))" xs us ys vs] parts(2) burst(1,2)
    by simp
  then show ?thesis using burst(3) by simp
qed

section \<open>Scanning a log\<close>

definition encode_log :: "wal_record list \<Rightarrow> bytes" where
  "encode_log rs = concat (map encode_record rs)"

definition max_rec_seqno :: "wal_record list \<Rightarrow> u64" where
  "max_rec_seqno rs = fold (\<lambda>r m. max m (rec_seqno r)) rs 0"

definition scan_report :: "wal_record list \<Rightarrow> bool \<Rightarrow> segment_scan" where
  "scan_report rs clean = \<lparr>sc_records = length rs, sc_max_seqno = max_rec_seqno rs,
     sc_good_bytes = kHeaderSize + length (encode_log rs), sc_clean = clean\<rparr>"

definition not_a_frame :: "bytes \<Rightarrow> bool" where
  "not_a_frame f \<longleftrightarrow> (\<forall>r n. read_frame f \<noteq> Frame r n)"

lemma encode_log_simps [simp]:
  "encode_log [] = []" "encode_log (r # rs) = encode_record r @ encode_log rs"
  "encode_log (rs @ rs') = encode_log rs @ encode_log rs'"
  by (simp_all add: encode_log_def)

lemma not_a_frame_Nil [simp]: "not_a_frame []"
  by (simp add: not_a_frame_def read_frame_def)

lemma not_a_frame_BadTail: "read_frame f = BadTail \<Longrightarrow> not_a_frame f"
  by (simp add: not_a_frame_def)

lemma max_rec_seqno_snoc [simp]:
  "max_rec_seqno (rs @ [r]) = max (max_rec_seqno rs) (rec_seqno r)"
  by (simp add: max_rec_seqno_def)

lemma max_rec_seqno_append:
  "max_rec_seqno (rs @ rs') = max (max_rec_seqno rs) (max_rec_seqno rs')"
proof (induction rs' rule: rev_induct)
  case Nil
  then show ?case by (simp add: max_rec_seqno_def)
next
  case (snoc r rs')
  then show ?case
    using max_rec_seqno_snoc [of "rs @ rs'" r] by (simp add: max.assoc)
qed

lemma scan_report_snoc:
  "scan_report (rs @ [r]) c = scan_add r (length (encode_record r)) (scan_report rs c)"
  by (simp add: scan_report_def scan_add_def)

lemma scan_loop_encode:
  assumes "\<forall>r \<in> set rs. wal_record_ok r" "not_a_frame tail"
  shows "scan_loop (encode_log rs @ tail) (scan_report done True) =
    (scan_report (done @ rs) (tail = []), rs)"
  using assms
proof (induction rs arbitrary: \<open>done\<close>)
  case Nil
  then show ?case
    by (subst scan_loop.simps)
      (auto simp: not_a_frame_def scan_report_def split: frame.split)
next
  case (Cons r rs)
  have "read_frame (encode_log (r # rs) @ tail) = Frame r (length (encode_record r))"
    using Cons.prems read_frame_encode [of r "encode_log rs @ tail"] by simp
  then show ?case
    using Cons by (subst scan_loop.simps) (simp add: scan_report_snoc [symmetric])
qed

lemma split_frames:
  "\<exists>rs tail. f = encode_log rs @ tail \<and> (\<forall>r \<in> set rs. wal_record_ok r) \<and> not_a_frame tail"
proof (induction f rule: measure_induct_rule [of length])
  case (less f)
  show ?case
  proof (cases "not_a_frame f")
    case True
    then show ?thesis by (intro exI [of _ "[]"] exI [of _ f]) simp
  next
    case False
    then obtain r n where fr: "read_frame f = Frame r n" by (auto simp: not_a_frame_def)
    note can = read_frame_canonical [OF fr]
    have "length (drop n f) < length f" using read_frame_length [OF fr] by auto
    then obtain rs tail where "drop n f = encode_log rs @ tail"
      "\<forall>r \<in> set rs. wal_record_ok r" "not_a_frame tail"
      using less.IH by blast
    then show ?thesis
      using can(1,2) append_take_drop_id [of n f]
      by (intro exI [of _ "r # rs"] exI [of _ tail]) auto
  qed
qed

definition header_ok :: "bytes \<Rightarrow> bool" where
  "header_ok f \<longleftrightarrow> kHeaderSize \<le> length f \<and> take 4 f = kMagic \<and> f ! 4 = kVersion"

lemma header_ok_segment_header [simp]: "header_ok (segment_header @ f)"
  by (simp add: header_ok_def segment_header_def kMagic_def kHeaderSize_def)

lemma length_segment_header [simp]: "length segment_header = kHeaderSize"
  by (simp add: segment_header_def kMagic_def kHeaderSize_def)

lemma header_ok_append: "kHeaderSize \<le> length h \<Longrightarrow> header_ok (h @ f) \<longleftrightarrow> header_ok h"
  by (auto simp: header_ok_def kHeaderSize_def nth_append)

lemma scan_segment_header_ok:
  "header_ok f \<Longrightarrow> scan_segment f = scan_loop (drop kHeaderSize f) (scan_report [] True)"
  by (simp add: scan_segment_def header_ok_def Let_def scan_report_def max_rec_seqno_def
      kHeaderSize_def min_def)

lemma scan_segment_header_bad:
  "\<not> header_ok f \<Longrightarrow> scan_segment f =
     (\<lparr>sc_records = 0, sc_max_seqno = 0, sc_good_bytes = 0, sc_clean = False\<rparr>, [])"
  by (auto simp: scan_segment_def header_ok_def Let_def kHeaderSize_def min_def)

lemma scan_segment_encode:
  assumes "header_ok h" "length h = kHeaderSize"
    and "\<forall>r \<in> set rs. wal_record_ok r" "not_a_frame tail"
  shows "scan_segment (h @ encode_log rs @ tail) = (scan_report rs (tail = []), rs)"
  using assms scan_loop_encode [of rs tail "[]"]
  by (simp add: scan_segment_header_ok header_ok_append)

lemma scan_segment_cases:
  obtains (bad) "\<not> header_ok f" "scan_segment f =
      (\<lparr>sc_records = 0, sc_max_seqno = 0, sc_good_bytes = 0, sc_clean = False\<rparr>, [])"
  | (good) h rs tail where "header_ok h" "length h = kHeaderSize" "f = h @ encode_log rs @ tail"
      "\<forall>r \<in> set rs. wal_record_ok r" "not_a_frame tail"
      "scan_segment f = (scan_report rs (tail = []), rs)"
proof (cases "header_ok f")
  case True
  obtain rs tail where f: "drop kHeaderSize f = encode_log rs @ tail"
    "\<forall>r \<in> set rs. wal_record_ok r" "not_a_frame tail"
    using split_frames by blast
  have eq: "f = take kHeaderSize f @ encode_log rs @ tail"
    using f(1) by (metis append_take_drop_id)
  have len: "length (take kHeaderSize f) = kHeaderSize" using True by (simp add: header_ok_def)
  have "header_ok (take kHeaderSize f)"
    using True len header_ok_append [of "take kHeaderSize f" "drop kHeaderSize f"] by simp
  then show ?thesis using good [OF _ len eq f(2,3)] scan_segment_encode [OF _ len f(2,3)] eq by simp
next
  case False
  then show ?thesis using bad scan_segment_header_bad by blast
qed

text \<open>A segment cut at the offset its scan reports.\<close>

lemma scan_segment_truncate:
  assumes "scan_segment f = (s, rs)" and "sc_good_bytes s \<noteq> 0"
  shows "scan_segment (take (sc_good_bytes s) f) = (s\<lparr>sc_clean := True\<rparr>, rs)"
    and "sc_good_bytes s \<le> length f"
proof -
  have "scan_segment (take (sc_good_bytes s) f) = (s\<lparr>sc_clean := True\<rparr>, rs)
    \<and> sc_good_bytes s \<le> length f"
  proof (cases f rule: scan_segment_cases)
    case bad
    then show ?thesis using assms by simp
  next
    case (good h rs' tail)
    have eq: "(scan_report rs' (tail = []), rs') = (s, rs)"
      by (rule trans [OF good(6) [symmetric] assms(1)])
    then have rs: "rs' = rs" by simp
    have s: "s = scan_report rs (tail = [])" using eq unfolding rs by simp
    have "take (sc_good_bytes s) f = h @ encode_log rs @ []"
      using good by (simp add: s rs scan_report_def)
    then show ?thesis
      using scan_segment_encode [OF good(1,2,4) not_a_frame_Nil] good
      by (simp add: s rs scan_report_def)
  qed
  then show "scan_segment (take (sc_good_bytes s) f) = (s\<lparr>sc_clean := True\<rparr>, rs)"
    and "sc_good_bytes s \<le> length f" by simp_all
qed

lemma scan_segment_max: "sc_max_seqno (fst (scan_segment f)) = max_rec_seqno (snd (scan_segment f))"
  by (cases f rule: scan_segment_cases) (simp_all add: scan_report_def max_rec_seqno_def)

lemma scan_segment_count: "sc_records (fst (scan_segment f)) = length (snd (scan_segment f))"
  by (cases f rule: scan_segment_cases) (simp_all add: scan_report_def)

text \<open>A log cut anywhere is whole records and a tail that is none.\<close>

lemma take_encode_log:
  assumes "\<forall>r \<in> set rs. wal_record_ok r"
  shows "\<exists>m t. m \<le> length rs \<and> take n (encode_log rs) = encode_log (take m rs) @ t \<and> not_a_frame t \<and>
    (length (encode_log rs) \<le> n \<longrightarrow> m = length rs \<and> t = [])"
  using assms
proof (induction rs arbitrary: n)
  case Nil
  then show ?case by simp
next
  case (Cons r rs)
  have r: "wal_record_ok r" using Cons.prems by simp
  show ?case
  proof (cases "length (encode_record r) \<le> n")
    case True
    obtain m t where "m \<le> length rs" "take (n - length (encode_record r)) (encode_log rs) =
        encode_log (take m rs) @ t" "not_a_frame t"
      "length (encode_log rs) \<le> n - length (encode_record r) \<longrightarrow> m = length rs \<and> t = []"
      using Cons.IH [of "n - length (encode_record r)"] Cons.prems by auto
    then show ?thesis using True by (intro exI [of _ "Suc m"] exI [of _ t]) auto
  next
    case False
    have "not_a_frame (take n (encode_record r))"
    proof (cases "n = 0")
      case True
      then show ?thesis by simp
    next
      case False
      then show ?thesis
        using \<open>\<not> length (encode_record r) \<le> n\<close> r by (intro not_a_frame_BadTail read_frame_torn) auto
    qed
    then show ?thesis using False by (intro exI [of _ 0] exI [of _ "take n (encode_record r)"]) auto
  qed
qed

section \<open>Properties\<close>

text \<open>Round trip: scanning a segment made of the header and any records within the
  reader's cap, in order, replays exactly these records, reports it clean, counts them,
  takes the maximum of their sequence numbers and ends at the end of the file.\<close>
theorem wal_scan_roundtrip:
  assumes "\<forall>r \<in> set rs. wal_record_ok r"
  shows "scan_segment (segment_header @ encode_log rs) =
    (\<lparr>sc_records = length rs, sc_max_seqno = max_rec_seqno rs,
       sc_good_bytes = length (segment_header @ encode_log rs), sc_clean = True\<rparr>, rs)"
proof -
  have "header_ok segment_header" using header_ok_segment_header [of "[]"] by simp
  then show ?thesis
    using scan_segment_encode [OF _ _ assms not_a_frame_Nil, of segment_header]
    by (simp add: scan_report_def)
qed

definition sample_put :: wal_record where
  "sample_put = \<lparr>rec_type = kTypePut, rec_seqno = 1, rec_key = [107], rec_value = [118]\<rparr>"

definition sample_del :: wal_record where
  "sample_del = \<lparr>rec_type = kTypeDel, rec_seqno = 2, rec_key = [107], rec_value = []\<rparr>"

lemma sample_ok [simp]: "wal_record_ok sample_put" "wal_record_ok sample_del"
  by (simp_all add: wal_record_ok_def sample_put_def sample_del_def wal_consts)

theorem wal_scan_roundtrip_witness:
  "snd (scan_segment (segment_header @ encode_log [sample_put, sample_del])) =
     [sample_put, sample_del]"
  using wal_scan_roundtrip [of "[sample_put, sample_del]"] by simp

text \<open>For every file, whatever its bytes: cutting it at the offset the scan reports leaves
  a segment whose scan is clean, ends at that offset and replays the same records, so
  recovery after recovery changes nothing; and the offset lies within the file.\<close>
theorem wal_truncate_idempotent:
  assumes "scan_segment f = (s, rs)" and "sc_good_bytes s \<noteq> 0"
  shows "scan_segment (take (sc_good_bytes s) f) = (s\<lparr>sc_clean := True\<rparr>, rs)
    \<and> sc_good_bytes s \<le> length f"
  using scan_segment_truncate [OF assms] by simp

theorem wal_truncate_idempotent_witness:
  "snd (scan_segment (take (sc_good_bytes (fst (scan_segment (segment_header @ [7]))))
     (segment_header @ [7]))) = snd (scan_segment (segment_header @ [7]))"
proof -
  have "read_frame [7] = BadTail" by (simp add: read_frame_def)
  then have sc: "scan_segment (segment_header @ [7]) = (scan_report [] False, [])"
    using scan_segment_encode [of segment_header "[]" "[7]"] header_ok_segment_header [of "[]"]
    by (simp add: not_a_frame_def)
  then show ?thesis
    using wal_truncate_idempotent [OF sc] by (simp add: scan_report_def kHeaderSize_def)
qed

text \<open>C13. Torn tail: when the log ends inside a record, the scan replays the whole records
  before it, all of them and nothing else, and reports the offset where they end.\<close>
theorem wal_torn_tail_recovered:
  assumes "\<forall>r \<in> set rs. wal_record_ok r" and "wal_record_ok r"
    and "0 < n" and "n < length (encode_record r)"
  shows "scan_segment (segment_header @ encode_log rs @ take n (encode_record r)) =
    (\<lparr>sc_records = length rs, sc_max_seqno = max_rec_seqno rs,
       sc_good_bytes = length (segment_header @ encode_log rs), sc_clean = False\<rparr>, rs)"
proof -
  have "not_a_frame (take n (encode_record r))"
    using assms by (intro not_a_frame_BadTail read_frame_torn)
  then show ?thesis
    using scan_segment_encode [OF _ _ assms(1), of segment_header "take n (encode_record r)"]
      header_ok_segment_header [of "[]"] assms(3,4)
    by (auto simp: scan_report_def)
qed

theorem wal_torn_tail_recovered_witness:
  "snd (scan_segment (segment_header @ encode_log [sample_put] @ take 9 (encode_record sample_del)))
     = [sample_put]"
proof -
  have "9 < length (encode_record sample_del)"
    by (simp add: length_encode_record wal_consts)
  then show ?thesis
    using wal_torn_tail_recovered [of "[sample_put]" sample_del 9] by simp
qed

text \<open>C14. Garbled record: when up to four consecutive bytes of a record behind its length field
  are not what was written (payload, checksum, or across the two), the scan stops right
  before that record, whatever follows it; the records before it are all replayed.\<close>
theorem wal_garbled_record_detected:
  assumes "\<forall>r \<in> set rs. wal_record_ok r" and "wal_record_ok r"
    and "encode_record r = put_u32 len @ xs @ us @ ys"
    and "length us = length vs" and "length us \<le> 4" and "us \<noteq> vs"
  shows "scan_segment (segment_header @ encode_log rs @ put_u32 len @ xs @ vs @ ys @ rest) =
    (\<lparr>sc_records = length rs, sc_max_seqno = max_rec_seqno rs,
       sc_good_bytes = length (segment_header @ encode_log rs), sc_clean = False\<rparr>, rs)"
proof -
  have "not_a_frame (put_u32 len @ xs @ vs @ ys @ rest)"
    using assms by (intro not_a_frame_BadTail read_frame_garbled)
  moreover have "put_u32 len @ xs @ vs @ ys @ rest \<noteq> []" by (simp add: put_u32_def)
  ultimately show ?thesis
    using scan_segment_encode [OF _ _ assms(1), of segment_header] header_ok_segment_header [of "[]"]
    by (auto simp: scan_report_def)
qed

theorem wal_garbled_record_detected_witness:
  "snd (scan_segment (segment_header @ encode_log [sample_put] @
     put_u32 (of_nat (length (record_payload sample_del))) @ [] @ [1] @
     tl (record_payload sample_del) @ put_u32 (crc32 (record_payload sample_del)) @
     encode_log [sample_put])) = [sample_put]"
proof -
  have "encode_record sample_del = put_u32 (of_nat (length (record_payload sample_del))) @ [] @ [2] @
      tl (record_payload sample_del) @ put_u32 (crc32 (record_payload sample_del))"
    by (simp add: encode_record_ok) (simp add: record_payload_def sample_del_def kTypeDel_def)
  from wal_garbled_record_detected [OF _ _ this, of "[sample_put]" "[1]" "encode_log [sample_put]"]
  show ?thesis by simp
qed

end
