(* ===== verification/Std_Map.thy ===== *)
theory Std_Map
  imports Prelude
begin

text \<open>
  \<open>std::map\<close> as the components use it: an association list in strictly ascending key
  order, which is its iteration order, with lookup and assignment.  The laws clients rely
  on are the locale \<open>kv_store\<close>; the list is its first interpretation, the memtable its
  second.
\<close>

section \<open>The container\<close>

type_synonym ('k, 'v) std_map = "('k \<times> 'v) list"

fun map_find :: "('k::linorder, 'v) std_map \<Rightarrow> 'k \<Rightarrow> 'v option" where
  "map_find [] k = None"
| "map_find ((a, v) # m) k = (if k = a then Some v else map_find m k)"

fun map_assign :: "'k::linorder \<Rightarrow> 'v \<Rightarrow> ('k, 'v) std_map \<Rightarrow> ('k, 'v) std_map" where
  "map_assign k v [] = [(k, v)]"
| "map_assign k v ((a, w) # m) =
     (if k < a then (k, v) # (a, w) # m
      else if k = a then (a, v) # m
      else (a, w) # map_assign k v m)"

fun map_erase :: "'k::linorder \<Rightarrow> ('k, 'v) std_map \<Rightarrow> ('k, 'v) std_map" where
  "map_erase k [] = []"
| "map_erase k ((a, w) # m) = (if k = a then m else (a, w) # map_erase k m)"

definition keys_ascending :: "('k::linorder, 'v) std_map \<Rightarrow> bool" where
  "keys_ascending m \<longleftrightarrow> sorted_wrt (<) (map fst m)"

lemma keys_ascending_Nil [simp]: "keys_ascending []"
  by (simp add: keys_ascending_def)

lemma keys_ascending_Cons:
  "keys_ascending ((a, v) # m) \<longleftrightarrow> (\<forall>k \<in> fst ` set m. a < k) \<and> keys_ascending m"
  by (auto simp: keys_ascending_def)

lemma keys_ascending_distinct: "keys_ascending m \<Longrightarrow> distinct (map fst m)"
  by (simp add: keys_ascending_def strict_sorted_iff)

lemma map_find_eq_map_of: "map_find m = map_of m"
proof
  show "map_find m k = map_of m k" for k by (induction m) auto
qed

lemma map_find_in_set: "map_find m k = Some v \<Longrightarrow> (k, v) \<in> set m"
  by (simp add: map_find_eq_map_of map_of_SomeD)

lemma map_find_iff: "keys_ascending m \<Longrightarrow> map_find m k = Some v \<longleftrightarrow> (k, v) \<in> set m"
  by (simp add: map_find_eq_map_of keys_ascending_distinct)

lemma map_find_None_iff: "map_find m k = None \<longleftrightarrow> k \<notin> fst ` set m"
  by (simp add: map_find_eq_map_of map_of_eq_None_iff)

lemma map_find_assign: "map_find (map_assign k v m) = (map_find m)(k \<mapsto> v)"
proof
  show "map_find (map_assign k v m) x = ((map_find m)(k \<mapsto> v)) x" for x
    by (induction m) auto
qed

lemma keys_map_assign: "fst ` set (map_assign k v m) = insert k (fst ` set m)"
proof (induction m)
  case Nil
  then show ?case by simp
next
  case (Cons x m)
  then show ?case by (cases x) (simp add: insert_commute)
qed

lemma keys_ascending_assign [inv_intros]: "keys_ascending m \<Longrightarrow> keys_ascending (map_assign k v m)"
proof (induction m)
  case Nil
  then show ?case by (simp add: keys_ascending_def)
next
  case (Cons x m)
  obtain a w where x: "x = (a, w)" by (cases x)
  from Cons show ?case
    by (auto simp: x keys_ascending_Cons keys_map_assign)
qed

lemma length_map_assign_new:
  "map_find m k = None \<Longrightarrow> length (map_assign k v m) = Suc (length m)"
  by (induction m) (auto split: if_splits)

lemma length_map_assign_old:
  "keys_ascending m \<Longrightarrow> map_find m k = Some w \<Longrightarrow> length (map_assign k v m) = length m"
proof (induction m)
  case Nil
  then show ?case by simp
next
  case (Cons p m)
  obtain a x where p: "p = (a, x)" by (cases p)
  have "\<not> k < a" if "k \<noteq> a"
  proof
    assume "k < a"
    then have "k \<notin> fst ` set m" using Cons.prems(1) by (auto simp: p keys_ascending_Cons)
    with Cons.prems(2) that show False by (simp add: p flip: map_find_None_iff)
  qed
  with Cons show ?case by (auto simp: p keys_ascending_Cons)
qed

lemma set_map_erase_subset: "set (map_erase k m) \<subseteq> set m"
  by (induction m) (auto split: if_splits)

lemma keys_ascending_erase [inv_intros]: "keys_ascending m \<Longrightarrow> keys_ascending (map_erase k m)"
proof (induction m)
  case Nil
  then show ?case by simp
next
  case (Cons x m)
  obtain a w where x: "x = (a, w)" by (cases x)
  from Cons show ?case
    using set_map_erase_subset [of k m] by (auto simp: x keys_ascending_Cons)
qed

lemma map_find_erase: "keys_ascending m \<Longrightarrow> map_find (map_erase k m) = (map_find m)(k := None)"
proof
  show "map_find (map_erase k m) x = ((map_find m)(k := None)) x" if "keys_ascending m" for x
    using that
  proof (induction m)
    case Nil
    then show ?case by simp
  next
    case (Cons p m)
    obtain a w where p: "p = (a, w)" by (cases p)
    have "map_find m a = None"
      using Cons.prems by (auto simp: p keys_ascending_Cons map_find_None_iff)
    with Cons show ?case by (auto simp: p keys_ascending_Cons)
  qed
qed

text \<open>Appending and changing at the end, where the largest key is.\<close>

lemma keys_ascending_append:
  "keys_ascending (m @ n) \<longleftrightarrow> keys_ascending m \<and> keys_ascending n \<and>
     (\<forall>a \<in> fst ` set m. \<forall>b \<in> fst ` set n. a < b)"
  by (auto simp: keys_ascending_def sorted_wrt_append)

lemma keys_ascending_single [simp]: "keys_ascending [p]"
  by (simp add: keys_ascending_def)

lemma map_assign_beyond:
  "\<forall>a \<in> fst ` set m. a < k \<Longrightarrow> map_assign k v m = m @ [(k, v)]"
  by (induction m) auto

lemma map_assign_behind:
  "\<forall>a \<in> fst ` set m. a < k \<Longrightarrow> map_assign k w (m @ [(k, v)]) = m @ [(k, w)]"
  by (induction m) auto

lemma map_assign_last:
  "keys_ascending (m @ [(k, v)]) \<Longrightarrow> map_assign k w (m @ [(k, v)]) = m @ [(k, w)]"
  by (rule map_assign_behind) (simp add: keys_ascending_append)

lemma map_find_last:
  "keys_ascending (m @ [(k, v)]) \<Longrightarrow> map_find (m @ [(k, v)]) k = Some v"
  by (simp add: map_find_iff)

lemma map_find_append:
  "map_find (m @ n) k = (case map_find m k of Some v \<Rightarrow> Some v | None \<Rightarrow> map_find n k)"
  by (induction m) auto

lemma sorted_hd_last: "sorted xs \<Longrightarrow> x \<in> set xs \<Longrightarrow> hd xs \<le> x \<and> x \<le> last xs"
proof (induction xs)
  case Nil
  then show ?case by simp
next
  case (Cons a xs)
  then show ?case by (cases "xs = []") (auto dest: last_in_set)
qed

lemma keys_ascending_hd_last:
  assumes "keys_ascending m" "(k, v) \<in> set m"
  shows "fst (hd m) \<le> k" and "k \<le> fst (last m)"
proof -
  have "sorted (map fst m)" using assms(1) by (simp add: keys_ascending_def strict_sorted_iff)
  moreover have "k \<in> set (map fst m)" using assms(2) by force
  moreover have "m \<noteq> []" using assms(2) by auto
  ultimately show "fst (hd m) \<le> k" "k \<le> fst (last m)"
    using sorted_hd_last [of "map fst m" k] by (simp_all add: hd_map last_map)
qed

lemma map_erase_filter:
  "keys_ascending m \<Longrightarrow> map_erase k m = filter (\<lambda>p. fst p \<noteq> k) m"
proof (induction m)
  case Nil
  then show ?case by simp
next
  case (Cons p m)
  obtain a w where p: "p = (a, w)" by (cases p)
  have "filter (\<lambda>p. fst p \<noteq> a) m = m"
    using Cons.prems by (auto simp: p keys_ascending_Cons filter_id_conv)
  with Cons show ?case by (auto simp: p keys_ascending_Cons)
qed

lemma keys_ascending_filter: "keys_ascending m \<Longrightarrow> keys_ascending (filter P m)"
  by (auto simp: keys_ascending_def sorted_wrt_map intro: sorted_wrt_filter)

section \<open>What a client of a key-value store relies on\<close>

locale kv_store =
  fixes lookup :: "'s \<Rightarrow> 'k \<Rightarrow> 'v option"
    and store :: "'k \<Rightarrow> 'v \<Rightarrow> 's \<Rightarrow> 's"
    and invar :: "'s \<Rightarrow> bool"
  assumes lookup_store: "invar s \<Longrightarrow> lookup (store k v s) = (lookup s)(k \<mapsto> v)"
    and invar_store: "invar s \<Longrightarrow> invar (store k v s)"
begin

text \<open>Replaying a log of assignments: the last one for a key wins.\<close>

lemma invar_replay: "invar s \<Longrightarrow> invar (fold (\<lambda>(k, v). store k v) kvs s)"
  by (induction kvs arbitrary: s) (auto simp: invar_store)

lemma lookup_replay:
  "invar s \<Longrightarrow> lookup (fold (\<lambda>(k, v). store k v) kvs s) = lookup s ++ map_of (rev kvs)"
proof (induction kvs arbitrary: s)
  case Nil
  then show ?case by simp
next
  case (Cons kv kvs)
  obtain k v where kv: "kv = (k, v)" by (cases kv)
  have "lookup (fold (\<lambda>(k, v). store k v) kvs (store k v s)) = lookup (store k v s) ++ map_of (rev kvs)"
    using Cons.prems by (intro Cons.IH) (rule invar_store)
  also have "lookup (store k v s) = (lookup s)(k \<mapsto> v)"
    using Cons.prems by (rule lookup_store)
  also have "(lookup s)(k \<mapsto> v) ++ map_of (rev kvs) = lookup s ++ map_of (rev (kv # kvs))"
    by (simp add: kv map_add_def fun_eq_iff split: option.splits)
  finally show ?case by (simp add: kv)
qed

lemma lookup_replay_other:
  "invar s \<Longrightarrow> k \<notin> fst ` set kvs \<Longrightarrow> lookup (fold (\<lambda>(k, v). store k v) kvs s) k = lookup s k"
  by (simp add: lookup_replay map_add_def map_of_eq_None_iff [THEN iffD2] split: option.splits)

lemma lookup_replay_last:
  "invar s \<Longrightarrow> lookup (fold (\<lambda>(k, v). store k v) (kvs @ [(k, v)]) s) k = Some v"
  by (simp add: lookup_store invar_replay)

end

interpretation std_map_store: kv_store map_find map_assign keys_ascending
  by unfold_locales (auto simp: map_find_assign intro: inv_intros)

end
