(* ===== verification/Wal.thy ===== *)
theory Wal
  imports Wal_Record Std_Map
begin

text \<open>
  The class \<open>Wal\<close> of \<open>include/lsm/wal.hpp\<close> and \<open>src/wal.cpp\<close>: a directory of numbered
  segments, one of them open for appending.  The directory is a map from segment ids to
  files, in ascending sid order as \<open>list_segments\<close> returns them.  A file is what an fsync
  has made durable and what was written since.  The operating system's answers (an open, a
  write, an fsync, a delete may fail) are the argument \<open>wal_io\<close>; a failed call throws
  \<open>IOFailure\<close> and leaves the object as the code leaves it.  The internal mutex makes every
  public operation one step.
\<close>

section \<open>State\<close>

record seg_file =
  sf_synced :: bytes
  sf_pending :: bytes

definition sf_content :: "seg_file \<Rightarrow> bytes" where
  "sf_content f = sf_synced f @ sf_pending f"

definition empty_file :: seg_file where
  "empty_file = \<lparr>sf_synced = [], sf_pending = []\<rparr>"

type_synonym wal_dir = "(nat, seg_file) std_map"

record wal =
  w_dir :: wal_dir
  w_fsync_every_n :: u32
  w_roll_bytes :: u64
  w_open :: bool
  w_segment_max_seqno :: "(nat, u64) std_map"
  w_active_id :: nat
  w_active_bytes :: nat
  w_total_segments :: nat
  w_last_seqno :: u64
  w_appends_since_sync :: nat

record wal_recovery_report =
  rr_segments :: nat
  rr_records :: nat
  rr_truncated :: nat
  rr_last_seqno :: u64
  rr_truncated_segment :: "nat option"
  rr_truncated_to :: nat

text \<open>What the operating system answers to the calls of one operation.  A write is complete
  (\<open>None\<close>) or stops short after some bytes.\<close>

record wal_io =
  io_mkdir :: bool
  io_truncate :: "nat \<Rightarrow> bool"
  io_roll_sync :: bool
  io_open :: bool
  io_header :: "nat option"
  io_header_sync :: bool
  io_write :: "nat option"
  io_sync :: bool
  io_remove :: "nat \<Rightarrow> bool"

definition io_good :: wal_io where
  "io_good = \<lparr>io_mkdir = True, io_truncate = (\<lambda>_. True), io_roll_sync = True, io_open = True,
     io_header = None, io_header_sync = True, io_write = None, io_sync = True,
     io_remove = (\<lambda>_. True)\<rparr>"

definition written :: "nat option \<Rightarrow> bytes \<Rightarrow> bytes" where
  "written r bs = (case r of None \<Rightarrow> bs | Some n \<Rightarrow> take n bs)"

definition wal_new :: "wal_dir \<Rightarrow> u32 \<Rightarrow> u64 \<Rightarrow> wal" where
  "wal_new dir fsync_every_n roll_bytes =
     \<lparr>w_dir = dir, w_fsync_every_n = (if fsync_every_n = 0 then 1 else fsync_every_n),
      w_roll_bytes = roll_bytes, w_open = False, w_segment_max_seqno = [], w_active_id = 0,
      w_active_bytes = 0, w_total_segments = 0, w_last_seqno = 0, w_appends_since_sync = 0\<rparr>"

section \<open>File access\<close>

definition file_of :: "nat \<Rightarrow> wal_dir \<Rightarrow> seg_file" where
  "file_of sid dir = (case map_find dir sid of Some f \<Rightarrow> f | None \<Rightarrow> empty_file)"

text \<open>\<open>fopen(path, "ab")\<close> creates a missing file and leaves an existing one alone.\<close>

definition create_file :: "nat \<Rightarrow> wal_dir \<Rightarrow> wal_dir" where
  "create_file sid dir = map_assign sid (file_of sid dir) dir"

definition append_file :: "nat \<Rightarrow> bytes \<Rightarrow> wal_dir \<Rightarrow> wal_dir" where
  "append_file sid bs dir =
     map_assign sid (let f = file_of sid dir in f\<lparr>sf_pending := sf_pending f @ bs\<rparr>) dir"

definition sync_file :: "nat \<Rightarrow> wal_dir \<Rightarrow> wal_dir" where
  "sync_file sid dir =
     map_assign sid \<lparr>sf_synced = sf_content (file_of sid dir), sf_pending = []\<rparr> dir"

section \<open>Recovery\<close>

definition empty_report :: wal_recovery_report where
  "empty_report = \<lparr>rr_segments = 0, rr_records = 0, rr_truncated = 0, rr_last_seqno = 0,
     rr_truncated_segment = None, rr_truncated_to = 0\<rparr>"

definition report_segment :: "nat \<Rightarrow> segment_scan \<Rightarrow> wal_recovery_report \<Rightarrow> wal_recovery_report" where
  "report_segment sid scan rep =
     (let rep1 = rep\<lparr>rr_segments := rr_segments rep + 1,
                     rr_records := rr_records rep + sc_records scan,
                     rr_last_seqno := max (rr_last_seqno rep) (sc_max_seqno scan)\<rparr>
      in if sc_clean scan then rep1
         else rep1\<lparr>rr_truncated := rr_truncated rep1 + 1, rr_truncated_segment := Some sid,
                   rr_truncated_to := sc_good_bytes scan\<rparr>)"

text \<open>
  The loop of \<open>scan_all\<close> over the segments still to be visited, with the report, the
  files and the \<open>seg_max\<close> map so far.  The records handed to the replay callback come back
  in order, with their segment.  A failed truncation throws after its segment was replayed.
\<close>

record scan_state =
  ss_report :: wal_recovery_report
  ss_dir :: wal_dir
  ss_seg_max :: "(nat, u64) std_map"
  ss_replayed :: "(nat \<times> wal_record) list"

definition scan_step :: "bool \<Rightarrow> nat \<Rightarrow> seg_file \<Rightarrow> scan_state \<Rightarrow> scan_state" where
  "scan_step trunc sid f st =
     (let (scan, rs) = scan_segment (sf_content f) in
      \<lparr>ss_report = report_segment sid scan (ss_report st),
       ss_dir = (if trunc \<and> \<not> sc_clean scan
                 then map_assign sid \<lparr>sf_synced = take (sc_good_bytes scan) (sf_content f),
                                     sf_pending = []\<rparr> (ss_dir st)
                 else ss_dir st),
       ss_seg_max = map_assign sid (sc_max_seqno scan) (ss_seg_max st),
       ss_replayed = ss_replayed st @ map (Pair sid) rs\<rparr>)"

fun scan_all :: "wal_io \<Rightarrow> bool \<Rightarrow> (nat \<times> seg_file) list \<Rightarrow> scan_state \<Rightarrow> unit result \<times> scan_state" where
  "scan_all io trunc [] st = (Inr (), st)"
| "scan_all io trunc ((sid, f) # rest) st =
     (if trunc \<and> \<not> sc_clean (fst (scan_segment (sf_content f))) \<and> \<not> io_truncate io sid
      then (Inl (Thrown IOFailure), (scan_step trunc sid f st)\<lparr>ss_dir := ss_dir st\<rparr>)
      else scan_all io trunc rest (scan_step trunc sid f st))"

definition open_active_segment :: "wal_io \<Rightarrow> nat \<Rightarrow> bool \<Rightarrow> wal \<Rightarrow> unit result \<times> wal" where
  "open_active_segment io sid fresh w =
     (if \<not> io_open io then (Inl (Thrown IOFailure), w)
      else
        let w1 = w\<lparr>w_dir := create_file sid (w_dir w), w_open := True, w_active_id := sid\<rparr> in
        if fresh then
          let w2 = w1\<lparr>w_dir := append_file sid (written (io_header io) segment_header) (w_dir w1)\<rparr> in
          if io_header io \<noteq> None then (Inl (Thrown IOFailure), w2)
          else if \<not> io_header_sync io then (Inl (Thrown IOFailure), w2)
          else
            let w3 = w2\<lparr>w_dir := sync_file sid (w_dir w2)\<rparr> in
            (Inr (), w3\<lparr>w_active_bytes := length (sf_content (file_of sid (w_dir w3)))\<rparr>)
        else (Inr (), w1\<lparr>w_active_bytes := length (sf_content (file_of sid (w_dir w1)))\<rparr>))"

definition wal_open :: "wal_io \<Rightarrow> wal \<Rightarrow> (wal_recovery_report \<times> (nat \<times> wal_record) list) result \<times> wal" where
  "wal_open io w =
     (if \<not> io_mkdir io then (Inl (Thrown IOFailure), w)
      else
        case scan_all io True (w_dir w)
               \<lparr>ss_report = empty_report, ss_dir = w_dir w, ss_seg_max = w_segment_max_seqno w,
                ss_replayed = []\<rparr> of
          (Inl e, st) \<Rightarrow> (Inl e, w\<lparr>w_dir := ss_dir st, w_segment_max_seqno := ss_seg_max st\<rparr>)
        | (Inr _, st) \<Rightarrow>
            let w1 = w\<lparr>w_dir := ss_dir st, w_segment_max_seqno := ss_seg_max st,
                       w_last_seqno := rr_last_seqno (ss_report st),
                       w_total_segments := rr_segments (ss_report st)\<rparr>
            in if w_dir w1 = [] then
                 bind_st (open_active_segment io 1 True w1)
                   (\<lambda>_ w2. (Inr (ss_report st, ss_replayed st), w2\<lparr>w_total_segments := 1\<rparr>))
               else
                 let (sid, f) = last (w_dir w1) in
                 bind_st (open_active_segment io sid (length (sf_content f) < kHeaderSize) w1)
                   (\<lambda>_ w2. (Inr (ss_report st, ss_replayed st), w2)))"

text \<open>\<open>Wal::verify\<close>: the same scan, read-only.\<close>

definition wal_verify :: "wal_dir \<Rightarrow> wal_recovery_report" where
  "wal_verify dir =
     ss_report (snd (scan_all io_good False dir
       \<lparr>ss_report = empty_report, ss_dir = dir, ss_seg_max = [], ss_replayed = []\<rparr>))"

section \<open>Appending\<close>

definition roll_segment :: "wal_io \<Rightarrow> wal \<Rightarrow> unit result \<times> wal" where
  "roll_segment io w =
     (if \<not> io_roll_sync io then (Inl (Thrown IOFailure), w)
      else
        let w1 = w\<lparr>w_dir := sync_file (w_active_id w) (w_dir w), w_open := False\<rparr> in
        bind_st (open_active_segment io (w_active_id w1 + 1) True w1)
          (\<lambda>_ w2. (Inr (), w2\<lparr>w_total_segments := w_total_segments w2 + 1, w_appends_since_sync := 0\<rparr>)))"

definition append_bytes :: "wal_io \<Rightarrow> bytes \<Rightarrow> u64 \<Rightarrow> wal \<Rightarrow> u64 result \<times> wal" where
  "append_bytes io rec seqno w =
     (let w1 = w\<lparr>w_dir := append_file (w_active_id w) (written (io_write io) rec) (w_dir w)\<rparr> in
      if io_write io \<noteq> None then (Inl (Thrown IOFailure), w1)
      else
        let w2 = w1\<lparr>w_active_bytes := w_active_bytes w1 + length rec,
                    w_appends_since_sync := w_appends_since_sync w1 + 1\<rparr>;
            due = unat (w_fsync_every_n w2) \<le> w_appends_since_sync w2
        in if due \<and> \<not> io_sync io then (Inl (Thrown IOFailure), w2)
           else
             let w3 = (if due then w2\<lparr>w_dir := sync_file (w_active_id w2) (w_dir w2),
                                      w_appends_since_sync := 0\<rparr>
                       else w2)
             in (Inr seqno, w3\<lparr>w_last_seqno := seqno,
                   w_segment_max_seqno := map_assign (w_active_id w3) seqno (w_segment_max_seqno w3)\<rparr>))"

definition wal_append :: "wal_io \<Rightarrow> byte \<Rightarrow> bytes \<Rightarrow> bytes \<Rightarrow> wal \<Rightarrow> u64 result \<times> wal" where
  "wal_append io type key value w =
     (if \<not> w_open w then (Inl (Thrown StoreClosed), w)
      else if key = [] then (Inl (Thrown InvalidArgument), w)
      else if kMaxPayload < length key \<or> kMaxPayload < length value
      then (Inl (Thrown InvalidArgument), w)
      else
        let seqno = w_last_seqno w + 1;
            rec = encode_record \<lparr>rec_type = type, rec_seqno = seqno, rec_key = key, rec_value = value\<rparr>
        in if kHeaderSize < w_active_bytes w
              \<and> unat (w_roll_bytes w) < w_active_bytes w + length rec
           then bind_st (roll_segment io w) (\<lambda>_ w1. append_bytes io rec seqno w1)
           else append_bytes io rec seqno w)"

definition append_put :: "wal_io \<Rightarrow> bytes \<Rightarrow> bytes \<Rightarrow> wal \<Rightarrow> u64 result \<times> wal" where
  "append_put io key value = wal_append io kTypePut key value"

definition append_del :: "wal_io \<Rightarrow> bytes \<Rightarrow> wal \<Rightarrow> u64 result \<times> wal" where
  "append_del io key = wal_append io kTypeDel key []"

definition wal_roll :: "wal_io \<Rightarrow> wal \<Rightarrow> nat result \<times> wal" where
  "wal_roll io w =
     (if \<not> w_open w then (Inl (Thrown StoreClosed), w)
      else bind_st (roll_segment io w) (\<lambda>_ w1. (Inr (w_active_id w1), w1)))"

section \<open>Cleanup, sync, close\<close>

fun remove_loop :: "wal_io \<Rightarrow> u64 \<Rightarrow> (nat \<times> seg_file) list \<Rightarrow> wal \<Rightarrow> nat list \<Rightarrow> nat list result \<times> wal" where
  "remove_loop io watermark [] w deleted = (Inr deleted, w)"
| "remove_loop io watermark ((sid, f) # rest) w deleted =
     (if sid = w_active_id w then remove_loop io watermark rest w deleted
      else
        case map_find (w_segment_max_seqno w) sid of
          None \<Rightarrow> remove_loop io watermark rest w deleted
        | Some m \<Rightarrow>
            if m > watermark then remove_loop io watermark rest w deleted
            else if \<not> io_remove io sid then (Inl (Thrown IOFailure), w)
            else remove_loop io watermark rest
                   (w\<lparr>w_dir := map_erase sid (w_dir w),
                      w_segment_max_seqno := map_erase sid (w_segment_max_seqno w)\<rparr>)
                   (deleted @ [sid]))"

definition remove_segments_covered :: "wal_io \<Rightarrow> u64 \<Rightarrow> wal \<Rightarrow> nat list result \<times> wal" where
  "remove_segments_covered io watermark w = remove_loop io watermark (w_dir w) w []"

definition bump_seqno :: "u64 \<Rightarrow> wal \<Rightarrow> wal" where
  "bump_seqno low w = w\<lparr>w_last_seqno := max (w_last_seqno w) low\<rparr>"

definition wal_sync :: "wal_io \<Rightarrow> wal \<Rightarrow> unit result \<times> wal" where
  "wal_sync io w =
     (if w_open w then
        if \<not> io_sync io then (Inl (Thrown IOFailure), w)
        else (Inr (), w\<lparr>w_dir := sync_file (w_active_id w) (w_dir w), w_appends_since_sync := 0\<rparr>)
      else (Inr (), w))"

definition wal_close :: "wal_io \<Rightarrow> wal \<Rightarrow> unit result \<times> wal" where
  "wal_close io w =
     (if \<not> w_open w then (Inr (), w)
      else if \<not> io_sync io then (Inl (Thrown IOFailure), w)
      else (Inr (), w\<lparr>w_dir := sync_file (w_active_id w) (w_dir w), w_appends_since_sync := 0,
                      w_open := False\<rparr>))"

section \<open>The log a directory holds, and well-formedness\<close>

definition seg_records :: "seg_file \<Rightarrow> wal_record list" where
  "seg_records f = snd (scan_segment (sf_content f))"

definition dir_log :: "wal_dir \<Rightarrow> wal_record list" where
  "dir_log dir = concat (map (\<lambda>(sid, f). seg_records f) dir)"

definition wal_log :: "wal \<Rightarrow> wal_record list" where
  "wal_log w = dir_log (w_dir w)"

text \<open>\<open>seg_holds f rs0 rs1\<close>: the segment is its header, the durable records \<open>rs0\<close> and the
  records \<open>rs1\<close> no fsync has covered yet.\<close>

definition seg_holds :: "seg_file \<Rightarrow> wal_record list \<Rightarrow> wal_record list \<Rightarrow> bool" where
  "seg_holds f rs0 rs1 \<longleftrightarrow>
     (\<exists>h. header_ok h \<and> length h = kHeaderSize \<and> sf_synced f = h @ encode_log rs0 \<and>
        sf_pending f = encode_log rs1 \<and> (\<forall>r \<in> set (rs0 @ rs1). wal_record_ok r))"

definition seg_closed :: "seg_file \<Rightarrow> bool" where
  "seg_closed f \<longleftrightarrow> (\<exists>rs. seg_holds f rs [])"

definition log_ascending :: "wal_record list \<Rightarrow> bool" where
  "log_ascending rs \<longleftrightarrow> sorted_wrt (<) (map rec_seqno rs)"

text \<open>What \<open>segment_max_seqno_\<close> knows of a segment.\<close>

definition seg_max_ok :: "(nat, u64) std_map \<Rightarrow> nat \<times> seg_file \<Rightarrow> bool" where
  "seg_max_ok sm p = (case map_find sm (fst p) of
       None \<Rightarrow> seg_records (snd p) = []
     | Some m \<Rightarrow> m = max_rec_seqno (seg_records (snd p)))"

definition wal_ok :: "wal \<Rightarrow> bool" where
  "wal_ok w \<longleftrightarrow>
     w_open w \<and> keys_ascending (w_dir w) \<and> keys_ascending (w_segment_max_seqno w) \<and>
     fst ` set (w_segment_max_seqno w) \<subseteq> fst ` set (w_dir w) \<and>
     0 < w_fsync_every_n w \<and> w_appends_since_sync w < unat (w_fsync_every_n w) \<and>
     (\<forall>p \<in> set (w_dir w). seg_max_ok (w_segment_max_seqno w) p) \<and>
     log_ascending (wal_log w) \<and> (\<forall>r \<in> set (wal_log w). rec_seqno r \<le> w_last_seqno w) \<and>
     (\<exists>older f rs0 rs1. w_dir w = older @ [(w_active_id w, f)] \<and>
        (\<forall>p \<in> set older. seg_closed (snd p)) \<and> seg_holds f rs0 rs1 \<and>
        length rs1 = w_appends_since_sync w \<and> w_active_bytes w = length (sf_content f))"

lemma scan_seg_holds:
  assumes "seg_holds f rs0 rs1"
  shows "scan_segment (sf_content f) = (scan_report (rs0 @ rs1) True, rs0 @ rs1)"
proof -
  obtain h where h: "header_ok h" "length h = kHeaderSize" "sf_content f = h @ encode_log (rs0 @ rs1)"
    "\<forall>r \<in> set (rs0 @ rs1). wal_record_ok r"
    using assms by (auto simp: seg_holds_def sf_content_def)
  then show ?thesis
    using scan_segment_encode [OF h(1,2,4) not_a_frame_Nil] by simp
qed

lemma seg_records_holds: "seg_holds f rs0 rs1 \<Longrightarrow> seg_records f = rs0 @ rs1"
  by (simp add: seg_records_def scan_seg_holds)

lemma seg_holds_sync:
  "seg_holds f rs0 rs1 \<Longrightarrow> seg_holds \<lparr>sf_synced = sf_content f, sf_pending = []\<rparr> (rs0 @ rs1) []"
  by (auto simp: seg_holds_def sf_content_def)

lemma seg_holds_append:
  "seg_holds f rs0 rs1 \<Longrightarrow> wal_record_ok r \<Longrightarrow>
     seg_holds (f\<lparr>sf_pending := sf_pending f @ encode_record r\<rparr>) rs0 (rs1 @ [r])"
  by (auto simp: seg_holds_def)

lemma seg_holds_header:
  "seg_holds \<lparr>sf_synced = segment_header, sf_pending = []\<rparr> [] []"
  using header_ok_segment_header [of "[]"] by (auto simp: seg_holds_def)

lemma dir_log_simps [simp]:
  "dir_log [] = []" "dir_log (p # d) = seg_records (snd p) @ dir_log d"
  "dir_log (d @ d') = dir_log d @ dir_log d'"
  by (auto simp: dir_log_def split: prod.splits)

lemma max_rec_seqno_le: "(\<forall>r \<in> set rs. rec_seqno r \<le> m) \<Longrightarrow> max_rec_seqno rs \<le> m"
  by (induction rs rule: rev_induct) (auto simp: max_rec_seqno_def)

lemma max_rec_seqno_ge: "r \<in> set rs \<Longrightarrow> rec_seqno r \<le> max_rec_seqno rs"
  by (induction rs rule: rev_induct) (auto simp: le_max_iff_disj)

lemma max_rec_seqno_ascending:
  "log_ascending (rs @ [r]) \<Longrightarrow> max_rec_seqno (rs @ [r]) = rec_seqno r"
  using max_rec_seqno_le [of rs "rec_seqno r"]
  by (auto simp: log_ascending_def sorted_wrt_append max_absorb2 less_imp_le)

lemma log_ascending_append:
  "log_ascending (rs @ rs') \<longleftrightarrow> log_ascending rs \<and> log_ascending rs' \<and>
     (\<forall>r \<in> set rs. \<forall>r' \<in> set rs'. rec_seqno r < rec_seqno r')"
  by (auto simp: log_ascending_def sorted_wrt_append)

lemma wal_okE:
  assumes "wal_ok w"
  obtains older f rs0 rs1 where "w_dir w = older @ [(w_active_id w, f)]"
    and "\<forall>p \<in> set older. seg_closed (snd p)" and "seg_holds f rs0 rs1"
    and "length rs1 = w_appends_since_sync w" and "w_active_bytes w = length (sf_content f)"
    and "wal_log w = dir_log older @ rs0 @ rs1"
    and "keys_ascending (older @ [(w_active_id w, f)])"
proof -
  from assms obtain older f rs0 rs1 where d: "w_dir w = older @ [(w_active_id w, f)]"
    "\<forall>p \<in> set older. seg_closed (snd p)" "seg_holds f rs0 rs1"
    "length rs1 = w_appends_since_sync w" "w_active_bytes w = length (sf_content f)"
    unfolding wal_ok_def by blast
  moreover have "wal_log w = dir_log older @ rs0 @ rs1"
    using d(1,3) by (simp add: wal_log_def seg_records_holds)
  moreover have "keys_ascending (older @ [(w_active_id w, f)])"
    using assms d(1) by (simp add: wal_ok_def)
  ultimately show ?thesis using that by blast
qed

lemma wal_okD [inv_dests]:
  assumes "wal_ok w"
  shows "w_open w" and "keys_ascending (w_dir w)" and "keys_ascending (w_segment_max_seqno w)"
    and "fst ` set (w_segment_max_seqno w) \<subseteq> fst ` set (w_dir w)"
    and "0 < w_fsync_every_n w" and "w_appends_since_sync w < unat (w_fsync_every_n w)"
    and "\<forall>p \<in> set (w_dir w). seg_max_ok (w_segment_max_seqno w) p"
    and "log_ascending (wal_log w)" and "\<forall>r \<in> set (wal_log w). rec_seqno r \<le> w_last_seqno w"
  using assms by (auto simp: wal_ok_def)

lemma file_of_last: "keys_ascending (d @ [(a, f)]) \<Longrightarrow> file_of a (d @ [(a, f)]) = f"
  by (simp add: file_of_def map_find_last)

lemma append_file_last:
  "keys_ascending (d @ [(a, f)]) \<Longrightarrow>
     append_file a bs (d @ [(a, f)]) = d @ [(a, f\<lparr>sf_pending := sf_pending f @ bs\<rparr>)]"
  by (simp add: append_file_def file_of_last map_assign_last Let_def)

lemma sync_file_last:
  "keys_ascending (d @ [(a, f)]) \<Longrightarrow>
     sync_file a (d @ [(a, f)]) = d @ [(a, \<lparr>sf_synced = sf_content f, sf_pending = []\<rparr>)]"
  by (simp add: sync_file_def file_of_last map_assign_last)

lemma create_file_last:
  "keys_ascending (d @ [(a, f)]) \<Longrightarrow> create_file a (d @ [(a, f)]) = d @ [(a, f)]"
  by (simp add: create_file_def file_of_last map_assign_last)

lemma create_file_beyond:
  "\<forall>b \<in> fst ` set d. b < a \<Longrightarrow> create_file a d = d @ [(a, empty_file)]"
proof -
  assume less: "\<forall>b \<in> fst ` set d. b < a"
  then have "map_find d a = None" by (auto simp: map_find_None_iff)
  then show ?thesis using less by (simp add: create_file_def file_of_def map_assign_beyond)
qed

lemma keys_ascending_last_change:
  "keys_ascending (d @ [(a, f)]) \<longleftrightarrow> keys_ascending (d @ [(a, g)])"
  by (simp add: keys_ascending_append)

lemma keys_ascending_last_next:
  "keys_ascending (d @ [(a, f)]) \<Longrightarrow> keys_ascending ((d @ [(a, g)]) @ [(a + 1 :: nat, h)])"
  by (auto simp: keys_ascending_append keys_ascending_Cons less_Suc_eq)

text \<open>Opening a fresh segment behind all others.\<close>

lemma open_fresh_beyond:
  assumes less: "\<forall>b \<in> fst ` set (w_dir w). b < a"
    and ok: "open_active_segment io a True w = (Inr u, w')"
  shows "w' = w\<lparr>w_dir := w_dir w @ [(a, \<lparr>sf_synced = segment_header, sf_pending = []\<rparr>)],
    w_open := True, w_active_id := a, w_active_bytes := kHeaderSize\<rparr>"
proof -
  have asc: "map_find (w_dir w) a = None" using less by (auto simp: map_find_None_iff)
  have find: "map_find (w_dir w @ [(a, f)]) a = Some f" for f
    using asc by (simp add: map_find_append)
  have assign: "map_assign a g (w_dir w @ [(a, f)]) = w_dir w @ [(a, g)]" for f g
    using less by (rule map_assign_behind)
  show ?thesis
    using ok create_file_beyond [OF less]
    by (auto simp: open_active_segment_def Let_def append_file_def sync_file_def file_of_def find
        empty_file_def written_def sf_content_def assign split: if_splits)
qed

text \<open>The segment map follows a segment of the same records, and a record at its end.\<close>

lemma seg_max_ok_same: "seg_records f = seg_records g \<Longrightarrow> seg_max_ok sm (a, f) = seg_max_ok sm (a, g)"
  by (simp add: seg_max_ok_def split: option.splits)

lemma seg_max_ok_other:
  "keys_ascending sm \<Longrightarrow> b \<noteq> a \<Longrightarrow> seg_max_ok (map_assign a m sm) (b, g) = seg_max_ok sm (b, g)"
  by (simp add: seg_max_ok_def map_find_assign)

lemma roll_segment_correct:
  assumes ok: "wal_ok w" and run: "roll_segment io w = (Inr u, w')"
  shows "wal_ok w' \<and> wal_log w' = wal_log w \<and> w_last_seqno w' = w_last_seqno w \<and>
    w_fsync_every_n w' = w_fsync_every_n w \<and> w_active_id w' = w_active_id w + 1"
proof -
  obtain older f rs0 rs1 where d: "w_dir w = older @ [(w_active_id w, f)]"
    and older: "\<forall>p \<in> set older. seg_closed (snd p)" and f: "seg_holds f rs0 rs1"
    and log: "wal_log w = dir_log older @ rs0 @ rs1"
    and asc: "keys_ascending (older @ [(w_active_id w, f)])"
    using ok by (rule wal_okE)
  let ?a = "w_active_id w" and ?f' = "\<lparr>sf_synced = sf_content f, sf_pending = []\<rparr>"
  let ?h = "\<lparr>sf_synced = segment_header, sf_pending = []\<rparr>"
  let ?d = "(older @ [(?a, ?f')]) @ [(?a + 1, ?h)]"
  define w1 where "w1 = w\<lparr>w_dir := older @ [(?a, ?f')], w_open := False\<rparr>"
  have w1: "w_dir w1 = older @ [(?a, ?f')]" "w_active_id w1 = ?a" by (simp_all add: w1_def)
  obtain u2 w2 where w2: "open_active_segment io (?a + 1) True w1 = (Inr u2, w2)"
    and w': "w' = w2\<lparr>w_total_segments := w_total_segments w2 + 1, w_appends_since_sync := 0\<rparr>"
    using run sync_file_last [OF asc]
    by (auto simp: roll_segment_def d Let_def bind_st_Inr_iff w1_def split: if_splits)
  have less: "\<forall>b \<in> fst ` set (w_dir w1). b < ?a + 1"
    using asc by (auto simp: w1 keys_ascending_append less_Suc_eq)
  have dir: "w_dir w' = ?d"
    using open_fresh_beyond [OF less w2] w1 by (simp add: w')
  have rest: "w_segment_max_seqno w' = w_segment_max_seqno w" "w_last_seqno w' = w_last_seqno w"
    "w_fsync_every_n w' = w_fsync_every_n w" "w_active_id w' = ?a + 1" "w_open w'"
    "w_appends_since_sync w' = 0" "w_active_bytes w' = kHeaderSize"
    using open_fresh_beyond [OF less w2] by (simp_all add: w' w1_def)
  have f': "seg_holds ?f' (rs0 @ rs1) []" using f by (rule seg_holds_sync)
  have recs: "seg_records ?f' = seg_records f" "seg_records ?h = []"
    using seg_records_holds [OF f'] seg_records_holds [OF f] seg_records_holds [OF seg_holds_header]
    by simp_all
  have log': "wal_log w' = wal_log w"
    by (simp add: wal_log_def dir d recs)
  have "?a + 1 \<notin> fst ` set (w_dir w)"
    using asc by (auto simp: d keys_ascending_append)
  then have fresh: "map_find (w_segment_max_seqno w) (?a + 1) = None"
    using wal_okD(4) [OF ok] unfolding map_find_None_iff by blast
  have "seg_max_ok (w_segment_max_seqno w) p" if p: "p \<in> set ?d" for p
  proof -
    consider "p \<in> set older" | "p = (?a, ?f')" | "p = (?a + 1, ?h)" using p by auto
    then show ?thesis
    proof cases
      case 1
      then show ?thesis using wal_okD(7) [OF ok] by (simp add: d)
    next
      case 2
      then show ?thesis
        using wal_okD(7) [OF ok] seg_max_ok_same [OF recs(1)] by (simp add: d)
    next
      case 3
      then show ?thesis using fresh recs(2) by (simp add: seg_max_ok_def)
    qed
  qed
  moreover have "\<forall>p \<in> set (older @ [(?a, ?f')]). seg_closed (snd p)"
    using older f' by (auto simp: seg_closed_def)
  ultimately have "wal_ok w'"
    unfolding wal_ok_def rest log' dir
    using wal_okD [OF ok] rest(5) keys_ascending_last_next [OF asc, of ?f' ?h] seg_holds_header
    by (auto simp: d sf_content_def)
  then show ?thesis using log' rest by simp
qed

lemma append_bytes_correct:
  assumes ok: "wal_ok w" and rec: "wal_record_ok r" "rec_seqno r = w_last_seqno w + 1"
    and room: "w_last_seqno w \<noteq> - 1"
    and run: "append_bytes io (encode_record r) (rec_seqno r) w = (Inr s, w')"
  shows "wal_ok w' \<and> wal_log w' = wal_log w @ [r] \<and> s = rec_seqno r \<and> w_last_seqno w' = s \<and>
    w_active_id w' = w_active_id w"
proof -
  obtain older f rs0 rs1 where d: "w_dir w = older @ [(w_active_id w, f)]"
    and older: "\<forall>p \<in> set older. seg_closed (snd p)" and f: "seg_holds f rs0 rs1"
    and n: "length rs1 = w_appends_since_sync w" and bytes: "w_active_bytes w = length (sf_content f)"
    and log: "wal_log w = dir_log older @ rs0 @ rs1"
    and asc: "keys_ascending (older @ [(w_active_id w, f)])"
    using ok by (rule wal_okE)
  let ?a = "w_active_id w" and ?n = "w_appends_since_sync w + 1"
  let ?due = "unat (w_fsync_every_n w) \<le> ?n"
  define g where "g = f\<lparr>sf_pending := sf_pending f @ encode_record r\<rparr>"
  define f' where "f' = (if ?due then \<lparr>sf_synced = sf_content g, sf_pending = []\<rparr> else g)"
  define rs0' where "rs0' = (if ?due then rs0 @ rs1 @ [r] else rs0)"
  define rs1' where "rs1' = (if ?due then [] else rs1 @ [r])"
  have g: "seg_holds g rs0 (rs1 @ [r])"
    unfolding g_def using f rec(1) by (rule seg_holds_append)
  have f': "seg_holds f' rs0' rs1'"
    using g seg_holds_sync [OF g] by (auto simp: f'_def rs0'_def rs1'_def)
  have ascg: "keys_ascending (older @ [(?a, g)])" by (rule keys_ascending_last_change [THEN iffD1, OF asc])
  have wr: "io_write io = None"
    using run by (simp add: append_bytes_def Let_def split: if_splits)
  have ap: "append_file ?a (encode_record r) (w_dir w) = older @ [(?a, g)]"
    by (simp add: d append_file_last [OF asc] g_def)
  have sy: "sync_file ?a (older @ [(?a, g)]) = older @ [(?a, \<lparr>sf_synced = sf_content g, sf_pending = []\<rparr>)]"
    by (rule sync_file_last [OF ascg])
  have "s = rec_seqno r \<and> w' = w\<lparr>w_dir := older @ [(?a, f')],
      w_active_bytes := w_active_bytes w + length (encode_record r),
      w_appends_since_sync := length rs1', w_last_seqno := rec_seqno r,
      w_segment_max_seqno := map_assign ?a (rec_seqno r) (w_segment_max_seqno w)\<rparr>"
  proof (cases ?due)
    case True
    then have "io_sync io"
      using run by (simp add: append_bytes_def Let_def wr split: if_split_asm)
    then show ?thesis
      using run True
      by (auto simp: append_bytes_def Let_def wr written_def ap sy f'_def rs1'_def intro!: wal.equality)
  next
    case False
    then show ?thesis
      using run
      by (auto simp: append_bytes_def Let_def wr written_def ap f'_def rs1'_def n intro!: wal.equality)
  qed
  then have s: "s = rec_seqno r" and w': "w' = w\<lparr>w_dir := older @ [(?a, f')],
      w_active_bytes := w_active_bytes w + length (encode_record r),
      w_appends_since_sync := length rs1', w_last_seqno := rec_seqno r,
      w_segment_max_seqno := map_assign ?a (rec_seqno r) (w_segment_max_seqno w)\<rparr>"
    by simp_all
  have recs: "seg_records f = rs0 @ rs1" "seg_records f' = (rs0 @ rs1) @ [r]"
    using seg_records_holds [OF f] seg_records_holds [OF f'] by (auto simp: rs0'_def rs1'_def)
  have log': "wal_log w' = wal_log w @ [r]"
    by (simp add: wal_log_def w' d recs)
  have "w_last_seqno w < rec_seqno r"
    using room by (simp add: rec(2) word_less_succ)
  then have order: "\<forall>x \<in> set (wal_log w). rec_seqno x < rec_seqno r"
    using wal_okD(9) [OF ok] by (auto intro: le_less_trans)
  then have asc': "log_ascending (wal_log w')"
    using wal_okD(8) [OF ok] by (simp add: log' log_ascending_append) (simp add: log_ascending_def)
  have maxf: "max_rec_seqno (seg_records f') = rec_seqno r"
  proof -
    have "log_ascending (dir_log older @ ((rs0 @ rs1) @ [r]))" using asc' by (simp add: log' log)
    then have "log_ascending ((rs0 @ rs1) @ [r])" unfolding log_ascending_append by blast
    then show ?thesis unfolding recs(2) by (rule max_rec_seqno_ascending)
  qed
  have "seg_max_ok (map_assign ?a (rec_seqno r) (w_segment_max_seqno w)) p"
    if p: "p \<in> set (older @ [(?a, f')])" for p
  proof (cases "p = (?a, f')")
    case True
    then show ?thesis by (simp add: seg_max_ok_def map_find_assign maxf)
  next
    case False
    then have "p \<in> set older" using p by simp
    then have "fst p \<noteq> ?a" "seg_max_ok (w_segment_max_seqno w) p"
      using asc wal_okD(7) [OF ok] by (auto simp: keys_ascending_append d)
    then show ?thesis using seg_max_ok_other [OF wal_okD(3) [OF ok]] by (cases p) simp
  qed
  moreover have "w_active_bytes w + length (encode_record r) = length (sf_content f')"
    by (simp add: bytes f'_def g_def sf_content_def)
  moreover have "\<forall>x \<in> set (wal_log w'). rec_seqno x \<le> rec_seqno r"
    using order by (auto simp: log')
  moreover have "length rs1' < unat (w_fsync_every_n w)"
    using wal_okD(5) [OF ok] n by (auto simp: rs1'_def unat_gt_0)
  ultimately have "wal_ok w'"
    unfolding wal_ok_def
    using wal_okD [OF ok] asc' f' older keys_ascending_last_change [THEN iffD1, OF asc, of f']
    by (auto simp: w' d keys_map_assign intro: inv_intros)
  then show ?thesis using s log' by (simp add: w')
qed


lemma roll_segment_open: "roll_segment io w = (Inr u, w') \<Longrightarrow> w_open w'"
  by (auto simp: roll_segment_def open_active_segment_def Let_def bind_st_Inr_iff split: if_splits)

lemma wal_append_ok:
  assumes ok: "wal_ok w" and rec: "wal_record_ok r" "rec_seqno r = w_last_seqno w + 1"
    and room: "w_last_seqno w \<noteq> - 1"
    and run: "wal_append io (rec_type r) (rec_key r) (rec_value r) w = (Inr s, w')"
  shows "wal_ok w' \<and> wal_log w' = wal_log w @ [r] \<and> s = rec_seqno r \<and> w_last_seqno w' = s \<and>
    w_fsync_every_n w' = w_fsync_every_n w"
proof -
  have r: "\<lparr>rec_type = rec_type r, rec_seqno = w_last_seqno w + 1, rec_key = rec_key r,
      rec_value = rec_value r\<rparr> = r"
    by (simp flip: rec(2))
  have fs: "w_fsync_every_n w'' = w_fsync_every_n w1"
    if "append_bytes io bs n w1 = (Inr s, w'')" for bs n w1 w''
    using that by (auto simp: append_bytes_def Let_def split: if_splits)
  let ?rolls = "kHeaderSize < w_active_bytes w \<and>
    unat (w_roll_bytes w) < w_active_bytes w + length (encode_record r)"
  show ?thesis
  proof (cases ?rolls)
    case True
    then obtain u w1 where roll: "roll_segment io w = (Inr u, w1)"
      and app: "append_bytes io (encode_record r) (rec_seqno r) w1 = (Inr s, w')"
      using run rec(2) wal_okD(1) [OF ok]
      by (auto simp: wal_append_def Let_def bind_st_Inr_iff r split: if_splits)
    have w1: "wal_ok w1 \<and> wal_log w1 = wal_log w \<and> w_last_seqno w1 = w_last_seqno w \<and>
        w_fsync_every_n w1 = w_fsync_every_n w \<and> w_active_id w1 = w_active_id w + 1"
      by (rule roll_segment_correct [OF ok roll])
    then have "wal_ok w' \<and> wal_log w' = wal_log w1 @ [r] \<and> s = rec_seqno r \<and> w_last_seqno w' = s \<and>
        w_active_id w' = w_active_id w1"
      using rec room app by (intro append_bytes_correct) auto
    then show ?thesis using w1 fs [OF app] by simp
  next
    case False
    then have app: "append_bytes io (encode_record r) (rec_seqno r) w = (Inr s, w')"
      using run rec(2) wal_okD(1) [OF ok]
      by (auto simp: wal_append_def Let_def r split: if_splits)
    then show ?thesis
      using append_bytes_correct [OF ok rec room] fs [OF app] by blast
  qed
qed

text \<open>When every call of the operating system succeeds, so do these operations.\<close>

lemma open_active_segment_good: "\<exists>w'. open_active_segment io_good sid fresh w = (Inr (), w')"
  by (simp add: open_active_segment_def io_good_def Let_def)

lemma roll_segment_good: "\<exists>w'. roll_segment io_good w = (Inr (), w')"
proof -
  have "io_roll_sync io_good" by (simp add: io_good_def)
  then show ?thesis
    using open_active_segment_good
    by (auto simp: roll_segment_def Let_def bind_st_Inr_iff)
qed

lemma append_bytes_good: "\<exists>w'. append_bytes io_good rec seqno w = (Inr seqno, w')"
  by (simp add: append_bytes_def io_good_def Let_def)

lemma wal_append_good:
  assumes "w_open w" "key \<noteq> []" "length key \<le> kMaxPayload" "length value \<le> kMaxPayload"
  shows "\<exists>w'. wal_append io_good type key value w = (Inr (w_last_seqno w + 1), w')"
proof -
  obtain w1 where "roll_segment io_good w = (Inr (), w1)" using roll_segment_good by blast
  then show ?thesis
    using assms append_bytes_good by (auto simp: wal_append_def Let_def)
qed

text \<open>A failed append throws \<open>StoreClosed\<close> or \<open>InvalidArgument\<close> before it touches anything,
  or \<open>IOFailure\<close>.\<close>

lemma open_active_segment_fails:
  "open_active_segment io sid fresh w = (Inl e, w') \<Longrightarrow> e = Thrown IOFailure"
  by (auto simp: open_active_segment_def Let_def split: if_splits)

lemma roll_segment_fails: "roll_segment io w = (Inl e, w') \<Longrightarrow> e = Thrown IOFailure"
  by (auto simp: roll_segment_def Let_def bind_st_Inl_iff dest: open_active_segment_fails
      split: if_splits)

lemma append_bytes_fails: "append_bytes io rec seqno w = (Inl e, w') \<Longrightarrow> e = Thrown IOFailure"
  by (auto simp: append_bytes_def Let_def split: if_splits)

section \<open>Properties\<close>

definition sample_wal :: wal where
  "sample_wal = snd (wal_open io_good (wal_new [] 1 100))"

lemma sample_wal_eq:
  "sample_wal = \<lparr>w_dir = [(1, \<lparr>sf_synced = segment_header, sf_pending = []\<rparr>)], w_fsync_every_n = 1,
     w_roll_bytes = 100, w_open = True, w_segment_max_seqno = [], w_active_id = 1,
     w_active_bytes = kHeaderSize, w_total_segments = 1, w_last_seqno = 0,
     w_appends_since_sync = 0\<rparr>"
  by (simp add: sample_wal_def wal_open_def wal_new_def io_good_def open_active_segment_def Let_def
      create_file_def append_file_def sync_file_def file_of_def empty_file_def sf_content_def
      empty_report_def written_def)

lemma wal_ok_sample: "wal_ok sample_wal"
proof -
  have "seg_records \<lparr>sf_synced = segment_header, sf_pending = []\<rparr> = []"
    using seg_records_holds [OF seg_holds_header] by simp
  then show ?thesis
    using seg_holds_header
    by (auto simp: wal_ok_def sample_wal_eq wal_log_def seg_max_ok_def log_ascending_def sf_content_def)
qed

text \<open>C28. An acknowledged append adds exactly its record at the end of the log, under the next
  sequence number, which it returns; whether or not it rolled to a new segment or reached the
  fsync threshold, the log object stays well formed.  The payload must be one that recovery
  accepts: 17 bytes, key and value together at most 1 GiB.\<close>
theorem wal_append_correct:
  assumes "wal_ok w"
    and "wal_record_ok \<lparr>rec_type = type, rec_seqno = w_last_seqno w + 1, rec_key = key, rec_value = value\<rparr>"
    and "w_last_seqno w \<noteq> - 1"
    and "wal_append io type key value w = (Inr s, w')"
  shows "wal_ok w' \<and> s = w_last_seqno w + 1 \<and> w_last_seqno w' = s \<and>
    wal_log w' = wal_log w @ [\<lparr>rec_type = type, rec_seqno = s, rec_key = key, rec_value = value\<rparr>]"
  using wal_append_ok [OF assms(1,2) _ assms(3), of io s w'] assms(4) by auto

theorem wal_append_correct_witness:
  "\<exists>w'. wal_append io_good kTypePut [107] [118] sample_wal = (Inr 1, w') \<and>
     wal_log w' = [\<lparr>rec_type = kTypePut, rec_seqno = 1, rec_key = [107], rec_value = [118]\<rparr>]"
proof -
  have s: "w_open sample_wal" "w_last_seqno sample_wal = 0" "wal_log sample_wal = []"
    using seg_records_holds [OF seg_holds_header] by (simp_all add: sample_wal_eq wal_log_def)
  obtain w' where run: "wal_append io_good kTypePut [107] [118] sample_wal = (Inr 1, w')"
    using wal_append_good [of sample_wal "[107]" "[118]" kTypePut] by (auto simp: s kMaxPayload_def)
  have "wal_record_ok \<lparr>rec_type = kTypePut, rec_seqno = w_last_seqno sample_wal + 1,
      rec_key = [107], rec_value = [118]\<rparr>"
    by (simp add: wal_record_ok_def wal_consts)
  from wal_append_correct [OF wal_ok_sample this _ run] show ?thesis
    using run s by simp
qed

text \<open>What an append refuses: it throws \<open>StoreClosed\<close> exactly when the log is not open,
  \<open>InvalidArgument\<close> exactly when it is open and the key is empty or the key or the value is
  longer than 1 GiB; both leave the log as it was, and whatever the operating system does the
  only other exception is \<open>IOFailure\<close>.  With no I/O failure every other append succeeds.\<close>
theorem wal_append_rejects:
  "(fst (wal_append io type key value w) = Inl (Thrown StoreClosed) \<longleftrightarrow> \<not> w_open w) \<and>
   (fst (wal_append io type key value w) = Inl (Thrown InvalidArgument) \<longleftrightarrow>
      w_open w \<and> (key = [] \<or> kMaxPayload < length key \<or> kMaxPayload < length value)) \<and>
   (fst (wal_append io type key value w)
      \<in> {Inl (Thrown StoreClosed), Inl (Thrown InvalidArgument), Inl (Thrown IOFailure)} \<union> range Inr) \<and>
   (wal_append io type key value w = (Inl (Thrown StoreClosed), w') \<or>
    wal_append io type key value w = (Inl (Thrown InvalidArgument), w') \<longrightarrow> w' = w) \<and>
   (fst (wal_append io_good type key value w) = Inr (w_last_seqno w + 1) \<longleftrightarrow>
      w_open w \<and> key \<noteq> [] \<and> length key \<le> kMaxPayload \<and> length value \<le> kMaxPayload)"
proof -
  let ?bad = "key = [] \<or> kMaxPayload < length key \<or> kMaxPayload < length value"
  have closed: "wal_append io type key value w = (Inl (Thrown StoreClosed), w)" if "\<not> w_open w" for io
    using that by (simp add: wal_append_def)
  have bad: "wal_append io type key value w = (Inl (Thrown InvalidArgument), w)"
    if "w_open w" ?bad for io
    using that by (auto simp: wal_append_def)
  have io: "r \<in> {Inl (Thrown IOFailure)} \<union> range Inr"
    if "w_open w" "\<not> ?bad" "wal_append io type key value w = (r, v)" for r v
    using that
    by (cases r) (auto simp: wal_append_def Let_def bind_st_Inl_iff split: if_splits
        dest: roll_segment_fails append_bytes_fails)
  have good: "fst (wal_append io_good type key value w) = Inr (w_last_seqno w + 1)"
    if "w_open w" "\<not> ?bad"
    using that wal_append_good [of w key "value" "type"] by auto
  show ?thesis
    using closed bad good io
    by (cases "wal_append io type key value w"; cases "w_open w"; cases ?bad) auto
qed

theorem wal_append_rejects_witness:
  "wal_append io_good kTypePut [] [7] sample_wal = (Inl (Thrown InvalidArgument), sample_wal)"
proof -
  have "w_open sample_wal" by (simp add: sample_wal_eq)
  then show ?thesis
    using wal_append_rejects [of io_good kTypePut "[]" "[7]" sample_wal]
    by (cases "wal_append io_good kTypePut [] [7] sample_wal") auto
qed

end
