(* ===== verification/Wal_Recovery.thy ===== *)
theory Wal_Recovery
  imports Wal
begin

text \<open>
  What the write-ahead log promises across a crash, and what cleanup keeps.  A crash keeps
  every file with what an fsync covered and a prefix, of any length, of what was written
  after it.  Recovery is \<open>Wal::open\<close> on a new object over the files the crash left.
\<close>

section \<open>The scan of a directory\<close>

definition repair_file :: "seg_file \<Rightarrow> seg_file" where
  "repair_file f = (let s = fst (scan_segment (sf_content f)) in
     if sc_clean s then f else \<lparr>sf_synced = take (sc_good_bytes s) (sf_content f), sf_pending = []\<rparr>)"

definition tagged_log :: "wal_dir \<Rightarrow> (nat \<times> wal_record) list" where
  "tagged_log dir = concat (map (\<lambda>(sid, f). map (Pair sid) (seg_records f)) dir)"

lemma tagged_log_simps [simp]:
  "tagged_log [] = []" "tagged_log (p # d) = map (Pair (fst p)) (seg_records (snd p)) @ tagged_log d"
  by (simp_all add: tagged_log_def split: prod.splits)

lemma tagged_log_records: "map snd (tagged_log dir) = dir_log dir"
  by (induction dir) (simp_all add: comp_def)

lemma seg_records_repair [simp]: "seg_records (repair_file f) = seg_records f"
proof -
  obtain s rs where sc: "scan_segment (sf_content f) = (s, rs)" by fastforce
  show ?thesis
  proof (cases "sc_good_bytes s = 0")
    case True
    then have bad: "\<not> header_ok (sf_content f)"
      using sc scan_segment_cases [of "sf_content f"]
      by (metis kHeaderSize_def add_is_0 fst_conv numeral_eq_iff scan_report_def segment_scan.select_convs(3)
          zero_neq_numeral)
    have "\<not> header_ok []" by (simp add: header_ok_def kHeaderSize_def)
    then show ?thesis
      using sc True scan_segment_header_bad [OF bad]
      by (simp add: seg_records_def repair_file_def sf_content_def scan_segment_header_bad)
  next
    case False
    then show ?thesis
      using scan_segment_truncate [OF sc] sc by (simp add: seg_records_def repair_file_def sf_content_def)
  qed
qed

lemma map_assign_middle:
  "keys_ascending (pre @ (k, v) # post) \<Longrightarrow> map_assign k w (pre @ (k, v) # post) = pre @ (k, w) # post"
proof (induction pre)
  case Nil
  then show ?case by simp
next
  case (Cons p pre)
  then show ?case by (cases p) (auto simp: keys_ascending_Cons)
qed

lemma scan_step_dir:
  assumes "keys_ascending (pre @ (sid, f) # dir)" and "ss_dir st = pre @ (sid, f) # dir"
  shows "ss_dir (scan_step True sid f st) = (pre @ [(sid, repair_file f)]) @ dir"
  using assms
  by (auto simp: scan_step_def repair_file_def Let_def map_assign_middle split: prod.splits)

lemma scan_step_rest:
  "ss_replayed (scan_step trunc sid f st) = ss_replayed st @ map (Pair sid) (seg_records f)"
  "ss_seg_max (scan_step trunc sid f st) =
     map_assign sid (max_rec_seqno (seg_records f)) (ss_seg_max st)"
  "rr_last_seqno (ss_report (scan_step trunc sid f st)) =
     max (rr_last_seqno (ss_report st)) (max_rec_seqno (seg_records f))"
  "rr_segments (ss_report (scan_step trunc sid f st)) = rr_segments (ss_report st) + 1"
  "rr_records (ss_report (scan_step trunc sid f st)) =
     rr_records (ss_report st) + length (seg_records f)"
  using scan_segment_max [of "sf_content f"] scan_segment_count [of "sf_content f"]
  by (auto simp: scan_step_def seg_records_def report_segment_def Let_def split: prod.splits)

lemma scan_all_ok:
  assumes "scan_all io True dir st = (Inr u, st')"
    and "keys_ascending (pre @ dir)" and "ss_dir st = pre @ dir"
  shows "ss_dir st' = pre @ map (apsnd repair_file) dir
    \<and> ss_replayed st' = ss_replayed st @ tagged_log dir
    \<and> ss_seg_max st' = fold (\<lambda>(sid, f). map_assign sid (max_rec_seqno (seg_records f))) dir (ss_seg_max st)
    \<and> rr_last_seqno (ss_report st') = max (rr_last_seqno (ss_report st)) (max_rec_seqno (dir_log dir))
    \<and> rr_segments (ss_report st') = rr_segments (ss_report st) + length dir
    \<and> rr_records (ss_report st') = rr_records (ss_report st) + length (dir_log dir)"
  using assms
proof (induction dir arbitrary: pre st)
  case Nil
  then show ?case by (simp add: max_rec_seqno_def)
next
  case (Cons p dir)
  obtain sid f where p: "p = (sid, f)" by (cases p)
  have run: "scan_all io True dir (scan_step True sid f st) = (Inr u, st')"
    using Cons.prems(1) by (simp add: p split: if_splits)
  have asc: "keys_ascending ((pre @ [(sid, repair_file f)]) @ dir)"
    using Cons.prems(2) by (simp add: p keys_ascending_append keys_ascending_Cons)
  show ?case
    using Cons.IH [OF run asc scan_step_dir] Cons.prems(2,3)
    by (simp add: p scan_step_rest max_rec_seqno_append max.assoc)
qed

lemma scan_all_good: "\<exists>st'. scan_all io_good True dir st = (Inr (), st')"
  by (induction dir arbitrary: st) (auto simp: io_good_def)

definition dir_seg_max :: "wal_dir \<Rightarrow> (nat, u64) std_map" where
  "dir_seg_max dir = map (\<lambda>(sid, f). (sid, max_rec_seqno (seg_records f))) dir"

lemma dir_seg_max_simps [simp]:
  "dir_seg_max [] = []"
  "dir_seg_max ((sid, f) # d) = (sid, max_rec_seqno (seg_records f)) # dir_seg_max d"
  "dir_seg_max (d @ d') = dir_seg_max d @ dir_seg_max d'"
  by (simp_all add: dir_seg_max_def)

lemma keys_dir_seg_max [simp]: "map fst (dir_seg_max d) = map fst d" "fst ` set (dir_seg_max d) = fst ` set d"
proof -
  show "map fst (dir_seg_max d) = map fst d" by (induction d) auto
  then show "fst ` set (dir_seg_max d) = fst ` set d" by (metis list.set_map)
qed

lemma keys_ascending_dir_seg_max [simp]: "keys_ascending (dir_seg_max d) = keys_ascending d"
  by (simp add: keys_ascending_def)

lemma map_find_dir_seg_max:
  "map_find (dir_seg_max d) k = map_option (\<lambda>f. max_rec_seqno (seg_records f)) (map_find d k)"
  by (induction d) auto

lemma seg_max_built:
  "keys_ascending (pre @ dir) \<Longrightarrow>
     fold (\<lambda>(sid, f). map_assign sid (max_rec_seqno (seg_records f))) dir (dir_seg_max pre) =
     dir_seg_max (pre @ dir)"
proof (induction dir arbitrary: pre)
  case Nil
  then show ?case by simp
next
  case (Cons p dir)
  obtain sid f where p: "p = (sid, f)" by (cases p)
  have "\<forall>a \<in> fst ` set (dir_seg_max pre). a < sid"
    using Cons.prems by (auto simp: p keys_ascending_append)
  then have "map_assign sid (max_rec_seqno (seg_records f)) (dir_seg_max pre) = dir_seg_max (pre @ [p])"
    by (simp add: p map_assign_beyond)
  then show ?case using Cons.IH [of "pre @ [p]"] Cons.prems by (simp add: p)
qed

lemma fst_apsnd_image [simp]: "fst ` apsnd g ` A = fst ` A"
  by (force simp: image_iff)

lemma keys_ascending_apsnd [simp]: "keys_ascending (map (apsnd g) m) = keys_ascending m"
  by (simp add: keys_ascending_def comp_def)

section \<open>Opening\<close>

text \<open>The directory \<open>Wal::open\<close> leaves: every segment repaired, and the last one with a header.\<close>

definition reopened_file :: "seg_file \<Rightarrow> seg_file" where
  "reopened_file f = (if length (sf_content f) < kHeaderSize
     then \<lparr>sf_synced = sf_content f @ segment_header, sf_pending = []\<rparr> else f)"

lemma open_active_last:
  assumes asc: "keys_ascending (d @ [(a, f)])" and dir: "w_dir w = d @ [(a, f)]"
    and run: "open_active_segment io a (length (sf_content f) < kHeaderSize) w = (Inr u, w')"
  shows "w' = w\<lparr>w_dir := d @ [(a, reopened_file f)], w_open := True, w_active_id := a,
    w_active_bytes := length (sf_content (reopened_file f))\<rparr>"
proof -
  have l: "\<forall>b \<in> fst ` set d. b < a" using asc by (simp add: keys_ascending_append)
  have asc': "keys_ascending (d @ [(a, g)])" for g
    by (rule keys_ascending_last_change [THEN iffD1, OF asc])
  show ?thesis
    using run
    by (auto simp: open_active_segment_def Let_def dir create_file_last [OF asc]
        append_file_last [OF asc'] sync_file_last [OF asc'] file_of_last [OF asc'] reopened_file_def
        written_def sf_content_def intro!: wal.equality split: if_splits)
qed

lemma wal_open_last:
  assumes asc: "keys_ascending (d @ [(a, f)])" and dir: "w_dir w = d @ [(a, f)]"
    and sm: "w_segment_max_seqno w = []"
    and run: "wal_open io w = (Inr (rep, replayed), w')"
  shows "w' = w\<lparr>w_dir := map (apsnd repair_file) d @ [(a, reopened_file (repair_file f))],
      w_open := True, w_active_id := a,
      w_active_bytes := length (sf_content (reopened_file (repair_file f))),
      w_segment_max_seqno := dir_seg_max (w_dir w),
      w_last_seqno := max_rec_seqno (wal_log w), w_total_segments := length (w_dir w)\<rparr>"
    and "replayed = tagged_log (w_dir w)" and "rr_last_seqno rep = max_rec_seqno (wal_log w)"
    and "rr_segments rep = length (w_dir w)" and "rr_records rep = length (wal_log w)"
proof -
  define st0 where "st0 = \<lparr>ss_report = empty_report, ss_dir = w_dir w,
      ss_seg_max = w_segment_max_seqno w, ss_replayed = []\<rparr>"
  obtain st where sc: "scan_all io True (w_dir w) st0 = (Inr (), st)"
    using run by (auto simp: wal_open_def st0_def [symmetric] split: if_splits prod.splits sum.splits)
  have ascd: "keys_ascending ([] @ w_dir w)" using asc dir by simp
  note all = scan_all_ok [OF sc ascd, unfolded st0_def, simplified, folded st0_def]
  have ssdir: "ss_dir st = map (apsnd repair_file) d @ [(a, repair_file f)]"
    using all by (simp add: dir)
  have last: "rr_last_seqno (ss_report st) = max_rec_seqno (wal_log w)"
    and segs: "rr_segments (ss_report st) = length (w_dir w)"
    using all by (simp_all add: wal_log_def empty_report_def)
  have smax: "ss_seg_max st = dir_seg_max (w_dir w)"
    using all seg_max_built [of "[]" "w_dir w"] ascd by (simp add: sm)
  define w1 where "w1 = w\<lparr>w_dir := ss_dir st, w_segment_max_seqno := ss_seg_max st,
      w_last_seqno := rr_last_seqno (ss_report st), w_total_segments := rr_segments (ss_report st)\<rparr>"
  have "io_mkdir io" using run by (simp add: wal_open_def split: if_split_asm)
  then have eq: "wal_open io w = bind_st (open_active_segment io a
      (length (sf_content (repair_file f)) < kHeaderSize) w1)
      (\<lambda>_ w2. (Inr (ss_report st, ss_replayed st), w2))"
    by (simp add: wal_open_def st0_def [symmetric] sc w1_def ssdir)
  then obtain u where op: "open_active_segment io a (length (sf_content (repair_file f)) < kHeaderSize) w1
      = (Inr u, w')"
    and res: "rep = ss_report st" "replayed = ss_replayed st"
    using run unfolding eq bind_st_Inr_iff by auto
  have asc': "keys_ascending (map (apsnd repair_file) d @ [(a, repair_file f)])"
    using asc keys_ascending_apsnd [of repair_file "d @ [(a, f)]"] by simp
  have dir1: "w_dir w1 = map (apsnd repair_file) d @ [(a, repair_file f)]"
    by (simp add: w1_def ssdir)
  show "w' = w\<lparr>w_dir := map (apsnd repair_file) d @ [(a, reopened_file (repair_file f))],
      w_open := True, w_active_id := a,
      w_active_bytes := length (sf_content (reopened_file (repair_file f))),
      w_segment_max_seqno := dir_seg_max (w_dir w),
      w_last_seqno := max_rec_seqno (wal_log w), w_total_segments := length (w_dir w)\<rparr>"
    using open_active_last [OF asc' dir1 op]
    by (simp add: w1_def last segs smax del: map_append)
  show "replayed = tagged_log (w_dir w)" "rr_last_seqno rep = max_rec_seqno (wal_log w)"
    "rr_segments rep = length (w_dir w)" "rr_records rep = length (wal_log w)"
    using all last segs by (simp_all add: res wal_log_def empty_report_def)
qed

section \<open>Crashes\<close>

definition crash_file :: "nat \<Rightarrow> seg_file \<Rightarrow> seg_file" where
  "crash_file n f = \<lparr>sf_synced = sf_synced f @ take n (sf_pending f), sf_pending = []\<rparr>"

definition crash_dir :: "(nat \<Rightarrow> nat) \<Rightarrow> wal_dir \<Rightarrow> wal_dir" where
  "crash_dir kept dir = map (\<lambda>(sid, f). (sid, crash_file (kept sid) f)) dir"

text \<open>\<open>seg_cut f rs0 rs1\<close>: a segment with durable records \<open>rs0\<close> whose unsynced part is a
  prefix of the encoding of \<open>rs1\<close>; or a new segment whose header was not written out.
  \<open>dir_cut\<close> is a directory whose last segment is one.\<close>

definition seg_cut :: "seg_file \<Rightarrow> wal_record list \<Rightarrow> wal_record list \<Rightarrow> bool" where
  "seg_cut f rs0 rs1 \<longleftrightarrow>
     (\<exists>h k. header_ok h \<and> length h = kHeaderSize \<and> sf_synced f = h @ encode_log rs0 \<and>
        sf_pending f = take k (encode_log rs1) \<and> (\<forall>r \<in> set (rs0 @ rs1). wal_record_ok r)) \<or>
     (\<exists>k. rs0 = [] \<and> rs1 = [] \<and> sf_synced f = [] \<and> sf_pending f = take k segment_header)"

definition dir_cut :: "wal_dir \<Rightarrow> wal_record list \<Rightarrow> wal_record list \<Rightarrow> bool" where
  "dir_cut dir rs0 rs1 \<longleftrightarrow>
     (\<exists>older a f r0. dir = older @ [(a, f)] \<and> keys_ascending dir \<and>
        (\<forall>p \<in> set older. seg_closed (snd p)) \<and> seg_cut f r0 rs1 \<and> rs0 = dir_log older @ r0)"

lemma seg_closed_crash:
  assumes "seg_closed f"
  shows "crash_file n f = f" and "repair_file f = f"
proof -
  obtain rs where rs: "seg_holds f rs []" using assms by (auto simp: seg_closed_def)
  then show "crash_file n f = f" by (auto simp: seg_holds_def crash_file_def)
  show "repair_file f = f"
    using scan_seg_holds [OF rs] by (simp add: repair_file_def scan_report_def)
qed

lemma seg_cut_recovers:
  assumes "seg_cut f rs0 rs1"
  shows "\<exists>m \<le> length rs1. seg_records (crash_file n f) = rs0 @ take m rs1 \<and>
    seg_holds (reopened_file (repair_file (crash_file n f))) (rs0 @ take m rs1) []"
proof -
  let ?c = "sf_content (crash_file n f)"
  from assms consider
    (hdr) h k where "header_ok h" "length h = kHeaderSize" "sf_synced f = h @ encode_log rs0"
      "sf_pending f = take k (encode_log rs1)" "\<forall>r \<in> set (rs0 @ rs1). wal_record_ok r"
  | (new) k where "rs0 = []" "rs1 = []" "sf_synced f = []" "sf_pending f = take k segment_header"
    unfolding seg_cut_def by blast
  then show ?thesis
  proof cases
    case hdr
    obtain m t where m: "m \<le> length rs1" and t: "not_a_frame t"
      and tk: "take (min n k) (encode_log rs1) = encode_log (take m rs1) @ t"
      using take_encode_log [of rs1 "min n k"] hdr(5) by auto
    let ?rs = "rs0 @ take m rs1"
    have c: "?c = h @ encode_log ?rs @ t"
      using tk hdr(3,4) by (simp add: crash_file_def sf_content_def min.commute)
    have ok: "\<forall>r \<in> set ?rs. wal_record_ok r" using hdr(5) by (auto dest: in_set_takeD)
    have sc: "scan_segment ?c = (scan_report ?rs (t = []), ?rs)"
      unfolding c by (rule scan_segment_encode [OF hdr(1,2) ok t])
    have c2: "?c = sf_synced (crash_file n f)" by (simp add: crash_file_def sf_content_def)
    have "repair_file (crash_file n f) = \<lparr>sf_synced = h @ encode_log ?rs, sf_pending = []\<rparr>"
    proof (cases "t = []")
      case True
      then have "sf_synced (crash_file n f) = h @ encode_log ?rs" using c c2 by simp
      then show ?thesis
        using True by (simp add: repair_file_def sc scan_report_def) (simp add: crash_file_def)
    next
      case False
      then show ?thesis
        by (simp add: repair_file_def sc scan_report_def Let_def) (simp add: c hdr(2))
    qed
    moreover have "seg_holds \<lparr>sf_synced = h @ encode_log ?rs, sf_pending = []\<rparr> ?rs []"
      using hdr(1,2) ok by (auto simp: seg_holds_def)
    ultimately have "seg_holds (reopened_file (repair_file (crash_file n f))) ?rs []"
      by (simp add: reopened_file_def sf_content_def hdr(2))
    then show ?thesis using m sc by (auto simp: seg_records_def)
  next
    case new
    have c: "?c = take (min n k) segment_header"
      using new by (simp add: crash_file_def sf_content_def min.commute)
    show ?thesis
    proof (cases "kHeaderSize \<le> min n k")
      case True
      then have f': "crash_file n f = \<lparr>sf_synced = segment_header, sf_pending = []\<rparr>"
        using c by (simp add: crash_file_def sf_content_def)
      moreover have "seg_closed (crash_file n f)"
        unfolding f' seg_closed_def using seg_holds_header by blast
      ultimately show ?thesis
        using new seg_closed_crash(2) [of "crash_file n f"] seg_records_holds [OF seg_holds_header]
          seg_holds_header
        by (simp add: reopened_file_def sf_content_def)
    next
      case False
      then have "length ?c < kHeaderSize" by (auto simp: c)
      then have bad: "\<not> header_ok ?c" by (simp add: header_ok_def)
      have "repair_file (crash_file n f) = \<lparr>sf_synced = [], sf_pending = []\<rparr>"
        by (simp add: repair_file_def scan_segment_header_bad [OF bad])
      then show ?thesis
        using new seg_holds_header
        by (simp add: reopened_file_def sf_content_def [of "\<lparr>sf_synced = [], sf_pending = []\<rparr>"]
            seg_records_def scan_segment_header_bad [OF bad] kHeaderSize_def)
    qed
  qed
qed

lemma crash_dir_simps [simp]:
  "crash_dir kept [] = []" "crash_dir kept ((a, f) # d) = (a, crash_file (kept a) f) # crash_dir kept d"
  "crash_dir kept (d @ d') = crash_dir kept d @ crash_dir kept d'"
  by (simp_all add: crash_dir_def)

lemma crash_dir_closed:
  "\<forall>p \<in> set d. seg_closed (snd p) \<Longrightarrow> crash_dir kept d = d"
  "\<forall>p \<in> set d. seg_closed (snd p) \<Longrightarrow> map (apsnd repair_file) d = d"
  by (induction d) (auto simp: seg_closed_crash)

lemma wal_ok_dir_cut:
  assumes "wal_ok w"
  obtains rs0 rs1 where "dir_cut (w_dir w) rs0 rs1" "wal_log w = rs0 @ rs1"
    "length rs1 = w_appends_since_sync w"
proof -
  obtain older f rs0 rs1 where d: "w_dir w = older @ [(w_active_id w, f)]"
    and older: "\<forall>p \<in> set older. seg_closed (snd p)" and f: "seg_holds f rs0 rs1"
    and n: "length rs1 = w_appends_since_sync w"
    and log: "wal_log w = dir_log older @ rs0 @ rs1"
    and asc: "keys_ascending (older @ [(w_active_id w, f)])"
    using assms by (rule wal_okE)
  have "seg_cut f rs0 rs1"
    using f unfolding seg_holds_def seg_cut_def by (metis order_refl take_all)
  then have "dir_cut (w_dir w) (dir_log older @ rs0) rs1"
    using older asc unfolding dir_cut_def d by blast
  then show ?thesis using that [of "dir_log older @ rs0" rs1] n log by simp
qed

lemma dir_cut_recovers:
  assumes cut: "dir_cut dir rs0 rs1" and asc: "log_ascending (rs0 @ rs1)" and "0 < n"
    and run: "wal_open io (wal_new (crash_dir kept dir) n roll) = (Inr (rep, replayed), w')"
  shows "\<exists>m \<le> length rs1. map snd replayed = rs0 @ take m rs1 \<and> wal_log w' = rs0 @ take m rs1 \<and>
    w_last_seqno w' = max_rec_seqno (rs0 @ take m rs1) \<and> wal_ok w'"
proof -
  obtain older a f r0 where dir: "dir = older @ [(a, f)]" and older: "\<forall>p \<in> set older. seg_closed (snd p)"
    and f: "seg_cut f r0 rs1" and rs0: "rs0 = dir_log older @ r0"
    and ascd: "keys_ascending (older @ [(a, f)])"
    using cut unfolding dir_cut_def by blast
  let ?g = "crash_file (kept a) f" and ?w = "wal_new (crash_dir kept dir) n roll"
  let ?h = "reopened_file (repair_file ?g)"
  obtain m where m: "m \<le> length rs1" and g: "seg_records ?g = r0 @ take m rs1"
    and h: "seg_holds ?h (r0 @ take m rs1) []"
    using seg_cut_recovers [OF f] by blast
  have crashed: "crash_dir kept dir = older @ [(a, ?g)]"
    using older by (simp add: dir crash_dir_closed)
  then have cd: "w_dir ?w = older @ [(a, ?g)]" by (simp add: wal_new_def)
  have ascg: "keys_ascending (older @ [(a, x)])" for x
    by (rule keys_ascending_last_change [THEN iffD1, OF ascd])
  have sm: "w_segment_max_seqno ?w = []" by (simp add: wal_new_def)
  note op = wal_open_last [OF ascg cd sm run]
  have log0: "wal_log ?w = rs0 @ take m rs1"
    by (simp add: wal_log_def cd g rs0)
  have w': "w' = ?w\<lparr>w_dir := older @ [(a, ?h)], w_open := True, w_active_id := a,
      w_active_bytes := length (sf_content ?h), w_segment_max_seqno := dir_seg_max (w_dir ?w),
      w_last_seqno := max_rec_seqno (rs0 @ take m rs1), w_total_segments := length (w_dir ?w)\<rparr>"
    using op(1) crash_dir_closed(2) [OF older] log0 by simp
  have rech: "seg_records ?h = r0 @ take m rs1" using seg_records_holds [OF h] by simp
  have log': "wal_log w' = rs0 @ take m rs1"
    by (simp add: wal_log_def w' rech rs0)
  have asc': "log_ascending (rs0 @ take m rs1)"
    using asc append_take_drop_id [of m rs1] by (metis append.assoc log_ascending_append)
  have smok: "seg_max_ok (dir_seg_max (w_dir ?w)) p" if p: "p \<in> set (older @ [(a, ?h)])" for p
  proof (cases "p = (a, ?h)")
    case True
    have "map_find (dir_seg_max (w_dir ?w)) a = Some (max_rec_seqno (r0 @ take m rs1))"
      unfolding cd map_find_dir_seg_max map_find_last [OF ascg] by (simp add: g)
    then show ?thesis by (simp only: True seg_max_ok_def fst_conv snd_conv rech option.case)
  next
    case False
    then obtain b x where "p = (b, x)" "(b, x) \<in> set older" using p by (cases p) auto
    moreover have "map_find (older @ [(a, ?g)]) b = Some x"
      using calculation map_find_iff [OF ascg] by simp
    ultimately have "map_find (dir_seg_max (w_dir ?w)) b = Some (max_rec_seqno (seg_records x))"
      unfolding cd map_find_dir_seg_max by simp
    then show ?thesis by (simp add: \<open>p = (b, x)\<close> seg_max_ok_def)
  qed
  have "keys_ascending (dir_seg_max (w_dir ?w))"
    unfolding keys_ascending_dir_seg_max cd by (rule ascg)
  then have "wal_ok w'"
    unfolding wal_ok_def log'
    using older asc' h smok ascg max_rec_seqno_ge [of _ "rs0 @ take m rs1"] \<open>0 < n\<close>
    by (auto simp: w' crashed wal_new_def word_gt_0 unat_gt_0)
  then show ?thesis
    using m log' op(2) tagged_log_records [of "w_dir ?w"] log0
    by (auto simp: w' wal_log_def)
qed

section \<open>A crash during an append\<close>

text \<open>The files hold the log \<open>rs\<close>, at least its first \<open>d\<close> records durably.\<close>

definition dir_keeps :: "wal_dir \<Rightarrow> nat \<Rightarrow> wal_record list \<Rightarrow> bool" where
  "dir_keeps dir d rs \<longleftrightarrow> (\<exists>rs0 rs1. dir_cut dir rs0 rs1 \<and> rs = rs0 @ rs1 \<and> d \<le> length rs0)"

definition wal_durable :: "wal \<Rightarrow> nat" where
  "wal_durable w = length (wal_log w) - w_appends_since_sync w"

lemma dir_keeps_mono: "dir_keeps dir d rs \<Longrightarrow> d' \<le> d \<Longrightarrow> dir_keeps dir d' rs"
  by (metis dir_keeps_def order_trans)

lemma wal_ok_keeps: "wal_ok w \<Longrightarrow> dir_keeps (w_dir w) (wal_durable w) (wal_log w)"
  by (erule wal_ok_dir_cut) (auto simp: dir_keeps_def wal_durable_def)

lemma dir_keeps_closed:
  assumes "\<forall>p \<in> set older. seg_closed (snd p)" "seg_cut f r0 rs1" "keys_ascending (older @ [(a, f)])"
  shows "dir_keeps (older @ [(a, f)]) (length (dir_log older @ r0)) (dir_log older @ r0 @ rs1)"
  unfolding dir_keeps_def dir_cut_def using assms
  by (intro exI [of _ "dir_log older @ r0"] exI [of _ rs1]) auto

lemma roll_segment_keeps:
  assumes ok: "wal_ok w" and run: "roll_segment io w = (Inl e, w')"
  shows "dir_keeps (w_dir w') (wal_durable w) (wal_log w)"
proof -
  obtain older f rs0 rs1 where d: "w_dir w = older @ [(w_active_id w, f)]"
    and older: "\<forall>p \<in> set older. seg_closed (snd p)" and f: "seg_holds f rs0 rs1"
    and log: "wal_log w = dir_log older @ rs0 @ rs1"
    and asc: "keys_ascending (older @ [(w_active_id w, f)])"
    using ok by (rule wal_okE)
  let ?a = "w_active_id w" and ?f' = "\<lparr>sf_synced = sf_content f, sf_pending = []\<rparr>"
  let ?new = "\<lambda>k. (older @ [(?a, ?f')]) @ [(?a + 1, \<lparr>sf_synced = [], sf_pending = take k segment_header\<rparr>)]"
  have f': "seg_holds ?f' (rs0 @ rs1) []" using f by (rule seg_holds_sync)
  then have cl: "seg_closed ?f'" by (auto simp: seg_closed_def)
  have recs: "seg_records ?f' = rs0 @ rs1" using seg_records_holds [OF f'] by simp
  have asc': "keys_ascending (older @ [(?a, ?f')])"
    by (rule keys_ascending_last_change [THEN iffD1, OF asc])
  have less: "\<forall>b \<in> fst ` set (older @ [(?a, ?f')]). b < ?a + 1"
    using asc by (auto simp: keys_ascending_append less_Suc_eq)
  have cut': "seg_cut ?f' (rs0 @ rs1) []"
    using f' unfolding seg_holds_def seg_cut_def by (metis order_refl take_all)
  have k1: "dir_keeps (older @ [(?a, ?f')]) (length (wal_log w)) (wal_log w)"
    using dir_keeps_closed [OF older cut' asc'] log by simp
  have k2: "dir_keeps (?new k) (length (wal_log w)) (wal_log w)" for k
  proof -
    have "seg_cut \<lparr>sf_synced = [], sf_pending = take k segment_header\<rparr> [] []"
      by (auto simp: seg_cut_def)
    then have "dir_keeps (?new k) (length (dir_log (older @ [(?a, ?f')]) @ []))
        (dir_log (older @ [(?a, ?f')]) @ [] @ [])"
      using older cl keys_ascending_last_next [OF asc]
      by (intro dir_keeps_closed) auto
    then show ?thesis by (simp add: log recs)
  qed
  have cr: "create_file (?a + 1) (older @ [(?a, ?f')]) = (older @ [(?a, ?f')]) @ [(?a + 1, empty_file)]"
    by (rule create_file_beyond [OF less])
  have ascn: "keys_ascending ((older @ [(?a, ?f')]) @ [(?a + 1, empty_file)])"
    by (rule keys_ascending_last_next [OF asc])
  have full: "take (length segment_header) segment_header = segment_header" by simp
  note ap = append_file_last [OF ascn]
  show ?thesis
  proof (cases "io_roll_sync io")
    case False
    then show ?thesis using run wal_ok_keeps [OF ok] by (auto simp: roll_segment_def)
  next
    case True
    let ?w1 = "w\<lparr>w_dir := older @ [(?a, ?f')], w_open := False\<rparr>"
    have op: "open_active_segment io (?a + 1) True ?w1 = (Inl e, w')"
      using run True sync_file_last [OF asc]
      by (simp add: roll_segment_def d Let_def bind_st_Inl_iff)
    have "w_dir w' = older @ [(?a, ?f')] \<or> (\<exists>k. w_dir w' = ?new k)"
    proof (cases "io_open io")
      case False
      then show ?thesis using op by (auto simp: open_active_segment_def)
    next
      case opened: True
      then have "w_dir w' = append_file (?a + 1) (written (io_header io) segment_header)
          ((older @ [(?a, ?f')]) @ [(?a + 1, empty_file)])"
        using op cr by (auto simp: open_active_segment_def Let_def split: if_splits)
      then have "w_dir w' = ?new (case io_header io of None \<Rightarrow> length segment_header | Some k \<Rightarrow> k)"
        unfolding ap using full
        by (simp add: empty_file_def written_def split: option.splits)
      then show ?thesis by blast
    qed
    then show ?thesis
      using dir_keeps_mono [OF k1, of "wal_durable w"] dir_keeps_mono [OF k2, of "wal_durable w"]
      by (auto simp: wal_durable_def)
  qed
qed

lemma append_bytes_keeps:
  assumes ok: "wal_ok w" and rec: "wal_record_ok r"
    and run: "append_bytes io (encode_record r) n w = (Inl e, w')"
  shows "dir_keeps (w_dir w') (wal_durable w) (wal_log w @ [r])"
proof -
  obtain older f rs0 rs1 where d: "w_dir w = older @ [(w_active_id w, f)]"
    and older: "\<forall>p \<in> set older. seg_closed (snd p)" and f: "seg_holds f rs0 rs1"
    and n: "length rs1 = w_appends_since_sync w"
    and log: "wal_log w = dir_log older @ rs0 @ rs1"
    and asc: "keys_ascending (older @ [(w_active_id w, f)])"
    using ok by (rule wal_okE)
  let ?a = "w_active_id w" and ?r = "encode_record r"
  define k where "k = (case io_write io of None \<Rightarrow> length ?r | Some k \<Rightarrow> k)"
  let ?g = "f\<lparr>sf_pending := sf_pending f @ take k ?r\<rparr>"
  have wr: "written (io_write io) ?r = take k ?r"
    by (simp add: written_def k_def split: option.splits)
  have "w_dir w' = append_file ?a (take k ?r) (w_dir w)"
    using run by (auto simp: append_bytes_def Let_def wr split: if_splits)
  then have dir: "w_dir w' = older @ [(?a, ?g)]"
    by (simp add: d append_file_last [OF asc])
  obtain h where h: "header_ok h" "length h = kHeaderSize" "sf_synced f = h @ encode_log rs0"
    "sf_pending f = encode_log rs1" "\<forall>r \<in> set (rs0 @ rs1). wal_record_ok r"
    using f unfolding seg_holds_def by blast
  then have "sf_pending ?g = take (length (encode_log rs1) + k) (encode_log (rs1 @ [r]))" by simp
  moreover have "sf_synced ?g = h @ encode_log rs0" "\<forall>x \<in> set (rs0 @ rs1 @ [r]). wal_record_ok x"
    using h rec by simp_all
  ultimately have "seg_cut ?g rs0 (rs1 @ [r])"
    using h(1,2) unfolding seg_cut_def by blast
  then have "dir_keeps (w_dir w') (length (dir_log older @ rs0)) (dir_log older @ rs0 @ (rs1 @ [r]))"
    unfolding dir using older keys_ascending_last_change [THEN iffD1, OF asc] by (intro dir_keeps_closed)
  then show ?thesis using n by (auto simp: wal_durable_def log elim: dir_keeps_mono)
qed

lemma append_bytes_unsynced:
  "append_bytes io bs n w = (res, w') \<Longrightarrow> w_appends_since_sync w' \<le> Suc (w_appends_since_sync w)"
  by (auto simp: append_bytes_def Let_def split: if_splits)

lemma wal_append_keeps:
  assumes ok: "wal_ok w" and rec: "wal_record_ok r" "rec_seqno r = w_last_seqno w + 1"
    and room: "w_last_seqno w \<noteq> - 1"
    and run: "wal_append io (rec_type r) (rec_key r) (rec_value r) w = (res, w')"
  shows "\<exists>rs \<in> {wal_log w, wal_log w @ [r]}. dir_keeps (w_dir w') (wal_durable w) rs \<and>
    (\<forall>s. res = Inr s \<longrightarrow> rs = wal_log w @ [r] \<and>
       dir_keeps (w_dir w') (Suc (length (wal_log w)) - (unat (w_fsync_every_n w) - 1)) rs)"
proof -
  have r: "\<lparr>rec_type = rec_type r, rec_seqno = w_last_seqno w + 1, rec_key = rec_key r,
      rec_value = rec_value r\<rparr> = r"
    by (simp flip: rec(2))
  have fail: "\<exists>rs \<in> {wal_log w, wal_log w @ [r]}. dir_keeps (w_dir w') (wal_durable w) rs"
    if run': "wal_append io (rec_type r) (rec_key r) (rec_value r) w = (Inl e, w')" for e
  proof -
    consider (same) "w' = w" | (rollf) "roll_segment io w = (Inl e, w')"
      | (app) "append_bytes io (encode_record r) (rec_seqno r) w = (Inl e, w')"
      | (rollapp) u w1 where "roll_segment io w = (Inr u, w1)"
          "append_bytes io (encode_record r) (rec_seqno r) w1 = (Inl e, w')"
      using run' rec(2) by (auto simp: wal_append_def Let_def r bind_st_Inl_iff split: if_splits)
    then show ?thesis
    proof cases
      case same
      then show ?thesis using wal_ok_keeps [OF ok] by auto
    next
      case rollf
      then show ?thesis using roll_segment_keeps [OF ok] by auto
    next
      case app
      then show ?thesis using append_bytes_keeps [OF ok rec(1)] by auto
    next
      case rollapp
      have w1: "wal_ok w1 \<and> wal_log w1 = wal_log w \<and> w_last_seqno w1 = w_last_seqno w \<and>
          w_fsync_every_n w1 = w_fsync_every_n w \<and> w_active_id w1 = w_active_id w + 1"
        by (rule roll_segment_correct [OF ok rollapp(1)])
      have "w_appends_since_sync w1 = 0"
        using rollapp(1) by (auto simp: roll_segment_def Let_def bind_st_Inr_iff split: if_splits)
      then have "wal_durable w \<le> wal_durable w1" using w1 by (simp add: wal_durable_def)
      then show ?thesis
        using append_bytes_keeps [OF _ rec(1) rollapp(2)] w1 dir_keeps_mono by auto
    qed
  qed
  show ?thesis
  proof (cases res)
    case (Inl e)
    then show ?thesis using fail run by auto
  next
    case (Inr s)
    have w': "wal_ok w' \<and> wal_log w' = wal_log w @ [r] \<and> s = rec_seqno r \<and> w_last_seqno w' = s \<and>
        w_fsync_every_n w' = w_fsync_every_n w"
      using run Inr by (intro wal_append_ok [OF ok rec room]) simp
    have "w_appends_since_sync w' \<le> Suc (w_appends_since_sync w)"
    proof -
      have roll0: "w_appends_since_sync w1 = 0" if "roll_segment io w = (Inr u, w1)" for u w1
        using that by (auto simp: roll_segment_def Let_def bind_st_Inr_iff split: if_splits)
      show ?thesis
        using run Inr wal_okD(1) [OF ok] roll0
        by (fastforce simp: wal_append_def Let_def bind_st_Inr_iff dest: append_bytes_unsynced
            split: if_splits)
    qed
    moreover have "dir_keeps (w_dir w') (wal_durable w') (wal_log w @ [r])"
      using wal_ok_keeps w' by metis
    moreover have "w_appends_since_sync w' \<le> unat (w_fsync_every_n w) - 1"
      using wal_okD(6) [of w'] w' by simp
    ultimately show ?thesis
      using Inr w' by (auto simp: wal_durable_def intro: dir_keeps_mono)
  qed
qed

lemma dir_keeps_recovers:
  assumes "dir_keeps dir d rs" "log_ascending rs" "0 < n"
    and "wal_open io (wal_new (crash_dir kept dir) n roll) = (Inr (rep, replayed), w')"
  shows "\<exists>m. d \<le> m \<and> map snd replayed = take m rs \<and> wal_log w' = take m rs \<and>
    w_last_seqno w' = max_rec_seqno (take m rs) \<and> wal_ok w'"
proof -
  obtain rs0 rs1 where c: "dir_cut dir rs0 rs1" "rs = rs0 @ rs1" "d \<le> length rs0"
    using assms(1) unfolding dir_keeps_def by blast
  obtain m where "map snd replayed = rs0 @ take m rs1 \<and> wal_log w' = rs0 @ take m rs1 \<and>
      w_last_seqno w' = max_rec_seqno (rs0 @ take m rs1) \<and> wal_ok w'"
    using dir_cut_recovers [OF c(1) _ assms(3,4)] assms(2) c(2) by auto
  then show ?thesis using c by (intro exI [of _ "length rs0 + m"]) simp
qed

section \<open>Cleanup\<close>

definition covered :: "u64 \<Rightarrow> wal \<Rightarrow> nat \<times> seg_file \<Rightarrow> bool" where
  "covered watermark w p \<longleftrightarrow> fst p \<noteq> w_active_id w \<and>
     (case map_find (w_segment_max_seqno w) (fst p) of None \<Rightarrow> False | Some m \<Rightarrow> m \<le> watermark)"

text \<open>Erasing an older segment.\<close>

lemma seg_max_ok_erase:
  "keys_ascending sm \<Longrightarrow> fst p \<noteq> a \<Longrightarrow> seg_max_ok (map_erase a sm) p = seg_max_ok sm p"
  by (simp add: seg_max_ok_def map_find_erase)

lemma dir_log_filter:
  assumes "\<forall>p \<in> set dir. fst p = a \<longrightarrow> (\<forall>r \<in> set (seg_records (snd p)). \<not> P r)"
  shows "filter P (dir_log (filter (\<lambda>p. fst p \<noteq> a) dir)) = filter P (dir_log dir)"
  using assms by (induction dir) (auto simp: filter_False)

lemma dir_log_filter_subset: "set (dir_log (filter Q dir)) \<subseteq> set (dir_log dir)"
  by (induction dir) auto

lemma log_ascending_filter_dir: "log_ascending (dir_log dir) \<Longrightarrow> log_ascending (dir_log (filter Q dir))"
  using dir_log_filter_subset [of Q] by (induction dir) (auto simp: log_ascending_append)

lemma wal_ok_erase:
  assumes ok: "wal_ok w" and a: "a \<noteq> w_active_id w"
  defines "w' \<equiv> w\<lparr>w_dir := map_erase a (w_dir w),
      w_segment_max_seqno := map_erase a (w_segment_max_seqno w)\<rparr>"
  shows "wal_ok w'"
proof -
  obtain older f rs0 rs1 where d: "w_dir w = older @ [(w_active_id w, f)]"
    and older: "\<forall>p \<in> set older. seg_closed (snd p)" and f: "seg_holds f rs0 rs1"
    and n: "length rs1 = w_appends_since_sync w" "w_active_bytes w = length (sf_content f)"
    using ok by (rule wal_okE)
  note W = wal_okD [OF ok]
  have e: "map_erase a (w_dir w) = filter (\<lambda>p. fst p \<noteq> a) (w_dir w)"
    "map_erase a (w_segment_max_seqno w) = filter (\<lambda>p. fst p \<noteq> a) (w_segment_max_seqno w)"
    using map_erase_filter W(2,3) by auto
  have dir: "map_erase a (w_dir w) = filter (\<lambda>p. fst p \<noteq> a) older @ [(w_active_id w, f)]"
    using a e(1) unfolding d by simp
  have "seg_max_ok (map_erase a (w_segment_max_seqno w)) p" if "p \<in> set (map_erase a (w_dir w))" for p
    using that W(3,7) by (auto simp: e(1) seg_max_ok_erase)
  moreover have "fst ` set (map_erase a (w_segment_max_seqno w)) \<subseteq> fst ` set (map_erase a (w_dir w))"
    using W(4) unfolding e by force
  moreover have "log_ascending (wal_log w')"
    unfolding wal_log_def w'_def using log_ascending_filter_dir W(8) by (simp add: e(1) wal_log_def)
  moreover have "\<forall>r \<in> set (wal_log w'). rec_seqno r \<le> w_last_seqno w"
    unfolding wal_log_def w'_def using dir_log_filter_subset W(9) by (fastforce simp: e(1) wal_log_def)
  moreover have "\<exists>older' f rs0 rs1. w_dir w' = older' @ [(w_active_id w', f)] \<and>
        (\<forall>p \<in> set older'. seg_closed (snd p)) \<and> seg_holds f rs0 rs1 \<and>
        length rs1 = w_appends_since_sync w' \<and> w_active_bytes w' = length (sf_content f)"
    using older f n by (intro exI [of _ "filter (\<lambda>p. fst p \<noteq> a) older"] exI [of _ f] exI)
      (auto simp: w'_def dir)
  ultimately show ?thesis
    unfolding wal_ok_def using W by (auto simp: w'_def intro: inv_intros)
qed

text \<open>What the loop has done so far, whether it finishes or a deletion fails.\<close>

lemma remove_loop_keeps:
  assumes "remove_loop io watermark segs w deleted = (res, w')" and "wal_ok w"
  shows "wal_ok w' \<and> w_last_seqno w' = w_last_seqno w \<and> w_active_id w' = w_active_id w \<and>
    w_fsync_every_n w' = w_fsync_every_n w \<and>
    filter (\<lambda>r. watermark < rec_seqno r) (wal_log w') = filter (\<lambda>r. watermark < rec_seqno r) (wal_log w) \<and>
    set (w_dir w') \<subseteq> set (w_dir w)"
  using assms
proof (induction io watermark segs w deleted rule: remove_loop.induct)
  case (1 io watermark w deleted)
  then show ?case by simp
next
  case (2 io watermark sid f rest w deleted)
  show ?case
  proof (cases "sid = w_active_id w")
    case True
    then show ?thesis using 2 by simp
  next
    case other: False
    show ?thesis
    proof (cases "map_find (w_segment_max_seqno w) sid")
      case None
      then show ?thesis using 2 other by simp
    next
      case (Some m)
      show ?thesis
      proof (cases "watermark < m \<or> \<not> io_remove io sid")
        case True
        then show ?thesis using 2 other Some by (auto split: if_splits)
      next
        case False
        define w1 where "w1 = w\<lparr>w_dir := map_erase sid (w_dir w),
            w_segment_max_seqno := map_erase sid (w_segment_max_seqno w)\<rparr>"
        have ok1: "wal_ok w1" unfolding w1_def using "2.prems"(2) other by (intro wal_ok_erase)
        have run: "remove_loop io watermark rest w1 (deleted @ [sid]) = (res, w')"
          using "2.prems"(1) other Some False by (simp add: w1_def)
        have IH: "wal_ok w' \<and> w_last_seqno w' = w_last_seqno w1 \<and> w_active_id w' = w_active_id w1 \<and>
            w_fsync_every_n w' = w_fsync_every_n w1 \<and>
            filter (\<lambda>r. watermark < rec_seqno r) (wal_log w') =
              filter (\<lambda>r. watermark < rec_seqno r) (wal_log w1) \<and> set (w_dir w') \<subseteq> set (w_dir w1)"
          using "2.IH"(4) other Some False run ok1 unfolding w1_def by auto
        have low: "\<not> watermark < rec_seqno r" if p: "p \<in> set (w_dir w)" "fst p = sid" "r \<in> set (seg_records (snd p))" for p r
        proof -
          have "m = max_rec_seqno (seg_records (snd p))"
            using wal_okD(7) [OF "2.prems"(2)] p Some by (auto simp: seg_max_ok_def)
          then show ?thesis using max_rec_seqno_ge [OF p(3)] False by auto
        qed
        have "filter (\<lambda>r. watermark < rec_seqno r) (wal_log w1) =
            filter (\<lambda>r. watermark < rec_seqno r) (wal_log w)"
          using dir_log_filter [of "w_dir w" sid "\<lambda>r. watermark < rec_seqno r"] low
          by (auto simp: wal_log_def w1_def map_erase_filter [OF wal_okD(2) [OF "2.prems"(2)]])
        then show ?thesis
          using IH set_map_erase_subset [of sid "w_dir w"] by (auto simp: w1_def)
      qed
    qed
  qed
qed

lemma remove_loop_result:
  assumes "remove_loop io watermark segs w deleted = (Inr names, w')" and "keys_ascending segs"
    and "keys_ascending (w_segment_max_seqno w)"
  shows "names = deleted @ map fst (filter (covered watermark w) segs)"
  using assms
proof (induction io watermark segs w deleted rule: remove_loop.induct)
  case (1 io watermark w deleted)
  then show ?case by simp
next
  case (2 io watermark sid f rest w deleted)
  have asc: "keys_ascending rest" "\<forall>k \<in> fst ` set rest. sid < k"
    using "2.prems"(2) by (auto simp: keys_ascending_Cons)
  show ?case
  proof (cases "covered watermark w (sid, f)")
    case False
    then consider "sid = w_active_id w" | "sid \<noteq> w_active_id w" "map_find (w_segment_max_seqno w) sid = None"
      | m where "sid \<noteq> w_active_id w" "map_find (w_segment_max_seqno w) sid = Some m" "watermark < m"
      by (auto simp: covered_def not_le split: option.splits)
    then have "names = deleted @ map fst (filter (covered watermark w) rest)"
      using "2.IH"(1,2,3) "2.prems" asc(1) by cases auto
    then show ?thesis using False by simp
  next
    case True
    then obtain m where m: "sid \<noteq> w_active_id w" "map_find (w_segment_max_seqno w) sid = Some m" "m \<le> watermark"
      by (auto simp: covered_def split: option.splits)
    define w1 where "w1 = w\<lparr>w_dir := map_erase sid (w_dir w),
            w_segment_max_seqno := map_erase sid (w_segment_max_seqno w)\<rparr>"
    have rm: "io_remove io sid" and run: "remove_loop io watermark rest w1 (deleted @ [sid]) = (Inr names, w')"
      using "2.prems"(1) m by (auto simp: w1_def split: if_splits)
    have "names = (deleted @ [sid]) @ map fst (filter (covered watermark w1) rest)"
      using "2.IH"(4) [OF m(1,2) _ _ run [unfolded w1_def] asc(1)] m rm "2.prems"(3)
      by (auto simp: w1_def not_less keys_ascending_erase)
    moreover have "filter (covered watermark w1) rest = filter (covered watermark w) rest"
      using asc(2) "2.prems"(3)
      by (intro filter_cong) (auto simp: covered_def w1_def map_find_erase)
    ultimately show ?thesis using True by simp
  qed
qed

lemma sync_active_keeps:
  assumes ok: "wal_ok w"
  shows "dir_keeps (sync_file (w_active_id w) (w_dir w)) (length (wal_log w)) (wal_log w)"
proof -
  obtain older f rs0 rs1 where d: "w_dir w = older @ [(w_active_id w, f)]"
    and older: "\<forall>p \<in> set older. seg_closed (snd p)" and f: "seg_holds f rs0 rs1"
    and log: "wal_log w = dir_log older @ rs0 @ rs1"
    and asc: "keys_ascending (older @ [(w_active_id w, f)])"
    using ok by (rule wal_okE)
  let ?f' = "\<lparr>sf_synced = sf_content f, sf_pending = []\<rparr>"
  have "seg_cut ?f' (rs0 @ rs1) []"
    using seg_holds_sync [OF f] unfolding seg_holds_def seg_cut_def by (metis order_refl take_all)
  from dir_keeps_closed [OF older this keys_ascending_last_change [THEN iffD1, OF asc]]
  show ?thesis by (simp add: d sync_file_last [OF asc] log)
qed

lemma wal_open_good: "\<exists>rep replayed w'. wal_open io_good w = (Inr (rep, replayed), w')"
proof -
  obtain st where sc: "scan_all io_good True (w_dir w)
      \<lparr>ss_report = empty_report, ss_dir = w_dir w, ss_seg_max = w_segment_max_seqno w, ss_replayed = []\<rparr>
    = (Inr (), st)"
    using scan_all_good by blast
  let ?w1 = "w\<lparr>w_dir := ss_dir st, w_segment_max_seqno := ss_seg_max st,
      w_last_seqno := rr_last_seqno (ss_report st), w_total_segments := rr_segments (ss_report st)\<rparr>"
  have mk: "io_mkdir io_good" by (simp add: io_good_def)
  show ?thesis
  proof (cases "ss_dir st = []")
    case True
    then show ?thesis
      using open_active_segment_good [of 1 True ?w1] by (auto simp: wal_open_def mk sc)
  next
    case False
    obtain sid f where l: "last (ss_dir st) = (sid, f)" by fastforce
    show ?thesis
      using open_active_segment_good [of sid "length (sf_content f) < kHeaderSize" ?w1] False
      by (auto simp: wal_open_def mk sc l)
  qed
qed

lemma seg_records_reopened: "seg_records (reopened_file (repair_file f)) = seg_records f"
proof (cases "sf_content f" rule: scan_segment_cases)
  case bad
  then have "repair_file f = \<lparr>sf_synced = [], sf_pending = []\<rparr>"
    by (simp add: repair_file_def)
  moreover have "seg_records f = []" using bad by (simp add: seg_records_def)
  ultimately show ?thesis
    using seg_records_holds [OF seg_holds_header]
    by (simp add: reopened_file_def sf_content_def [of "\<lparr>sf_synced = [], sf_pending = []\<rparr>"] kHeaderSize_def)
next
  case (good h rs tail)
  then have "kHeaderSize \<le> length (sf_content (repair_file f))"
    by (cases "tail = []") (simp_all add: repair_file_def scan_report_def Let_def
        sf_content_def [of "\<lparr>sf_synced = _, sf_pending = []\<rparr>"])
  then have "reopened_file (repair_file f) = repair_file f" by (simp add: reopened_file_def)
  then show ?thesis by simp
qed

lemma dir_log_repair [simp]: "dir_log (map (apsnd repair_file) d) = dir_log d"
  by (induction d) auto

lemma wal_open_empty:
  assumes "w_dir w = []" "w_segment_max_seqno w = []" "wal_open io w = (Inr (rep, replayed), w')"
  shows "w' = w\<lparr>w_dir := [(1, \<lparr>sf_synced = segment_header, sf_pending = []\<rparr>)], w_open := True,
      w_active_id := 1, w_active_bytes := kHeaderSize, w_last_seqno := 0, w_total_segments := 1\<rparr>"
    and "replayed = []" and "rep = empty_report"
proof -
  define w1 where "w1 = w\<lparr>w_dir := [], w_segment_max_seqno := [], w_last_seqno := 0, w_total_segments := 0\<rparr>"
  have eq: "wal_open io w = bind_st (open_active_segment io 1 True w1)
      (\<lambda>_ w2. (Inr (empty_report, []), w2\<lparr>w_total_segments := 1\<rparr>))"
    using assms by (auto simp: wal_open_def w1_def empty_report_def split: if_splits)
  then obtain u w2 where op: "open_active_segment io 1 True w1 = (Inr u, w2)"
    and res: "rep = empty_report" "replayed = []" "w' = w2\<lparr>w_total_segments := 1\<rparr>"
    using assms(3) unfolding eq bind_st_Inr_iff by auto
  have "\<forall>b \<in> fst ` set (w_dir w1). b < 1" by (simp add: w1_def)
  from open_fresh_beyond [OF this op] show "w' = w\<lparr>w_dir := [(1, \<lparr>sf_synced = segment_header, sf_pending = []\<rparr>)],
      w_open := True, w_active_id := 1, w_active_bytes := kHeaderSize, w_last_seqno := 0,
      w_total_segments := 1\<rparr>"
    using assms(1,2) by (auto simp: res w1_def intro!: wal.equality)
  show "replayed = []" "rep = empty_report" using res by simp_all
qed

text \<open>What opening any directory gives.\<close>

lemma wal_open_result:
  assumes "keys_ascending dir"
    and "wal_open io (wal_new dir n roll) = (Inr (rep, replayed), w')"
  shows "map snd replayed = dir_log dir \<and> wal_log w' = dir_log dir \<and> w_open w' \<and>
    w_last_seqno w' = max_rec_seqno (dir_log dir) \<and> rr_last_seqno rep = w_last_seqno w' \<and>
    rr_records rep = length replayed \<and> rr_segments rep = length dir \<and> keys_ascending (w_dir w') \<and>
    (\<exists>ok. wal_open io_good (wal_new dir n roll) = (Inr ok, snd (wal_open io_good (wal_new dir n roll))))"
proof -
  have total: "\<exists>ok. wal_open io_good (wal_new dir n roll) = (Inr ok, snd (wal_open io_good (wal_new dir n roll)))"
    using wal_open_good [of "wal_new dir n roll"] by auto
  have sm: "w_segment_max_seqno (wal_new dir n roll) = []" by (simp add: wal_new_def)
  have new: "w_dir (wal_new dir n roll) = dir" by (simp add: wal_new_def)
  show ?thesis
  proof (cases dir rule: rev_cases)
    case Nil
    then have nd: "w_dir (wal_new dir n roll) = []" using new by simp
    show ?thesis
      using wal_open_empty [OF nd sm assms(2)] total Nil seg_records_holds [OF seg_holds_header]
      by (simp add: wal_log_def max_rec_seqno_def empty_report_def)
  next
    case (snoc d p)
    obtain a f where p: "p = (a, f)" by (cases p)
    have asc: "keys_ascending (d @ [(a, f)])" using assms(1) by (simp add: snoc p)
    have dir: "w_dir (wal_new dir n roll) = d @ [(a, f)]" using new snoc p by simp
    note op = wal_open_last [OF asc dir sm assms(2)]
    have asc': "keys_ascending (map (apsnd repair_file) d @ [(a, repair_file f)])"
      using asc keys_ascending_apsnd [of repair_file "d @ [(a, f)]"] by simp
    have "keys_ascending (w_dir w')"
      using keys_ascending_last_change [THEN iffD1, OF asc'] op(1) by simp
    moreover have "wal_log w' = dir_log dir"
      using op(1) by (simp add: wal_log_def seg_records_reopened snoc p)
    moreover have "map snd replayed = dir_log dir"
      unfolding op(2) new by (rule tagged_log_records)
    moreover have "length replayed = length (dir_log dir)"
      using calculation(3) by (metis length_map)
    moreover have "w_open w' \<and> w_last_seqno w' = max_rec_seqno (dir_log dir)"
      using op(1) by (simp add: wal_log_def new)
    ultimately show ?thesis using op(3,4,5) total by (simp add: new wal_log_def)
  qed
qed

section \<open>Properties\<close>


lemma sample_wal_facts:
  "w_open sample_wal" "w_last_seqno sample_wal = 0" "wal_log sample_wal = []"
  "w_fsync_every_n sample_wal = 1"
  using seg_records_holds [OF seg_holds_header] by (simp_all add: sample_wal_eq wal_log_def)

lemma sample_put_record:
  "\<lparr>rec_type = kTypePut, rec_seqno = w_last_seqno sample_wal + 1, rec_key = [107], rec_value = [118]\<rparr>
     = sample_put"
  by (simp add: sample_put_def sample_wal_facts)




text \<open>C12. Watermark cleanup.  Whether it finishes or a deletion fails half-way: the log stays well
  formed, every record above the watermark is still there and in order, the active segment
  and the counter are untouched, nothing is added.  When it finishes, it has deleted exactly
  the non-active segments whose highest sequence number is known and at most the watermark,
  and returns them in order.\<close>
theorem wal_cleanup_correct:
  assumes "wal_ok w" and "remove_segments_covered io watermark w = (res, w')"
  shows "wal_ok w' \<and> w_last_seqno w' = w_last_seqno w \<and> w_active_id w' = w_active_id w \<and>
    filter (\<lambda>r. watermark < rec_seqno r) (wal_log w') = filter (\<lambda>r. watermark < rec_seqno r) (wal_log w) \<and>
    set (w_dir w') \<subseteq> set (w_dir w) \<and>
    (\<forall>names. res = Inr names \<longrightarrow> names = map fst (filter (covered watermark w) (w_dir w)))"
  using remove_loop_keeps [OF assms(2) [unfolded remove_segments_covered_def] assms(1)]
    remove_loop_result [of io watermark "w_dir w" w "[]" _ w'] assms wal_okD(2,3) [OF assms(1)]
  by (auto simp: remove_segments_covered_def)

theorem wal_cleanup_correct_witness:
  "wal_ok (snd (remove_segments_covered io_good 5 sample_wal))"
  using wal_cleanup_correct [OF wal_ok_sample surjective_pairing] by simp



section \<open>A record the reader refuses\<close>



end
