(* ===== verification/Names.thy ===== *)
theory Names
  imports Prelude "HOL-Library.Char_ord" "HOL-Library.Product_Lexorder"
begin

text \<open>
  File names of numbered files: \<open>segment_name\<close> and \<open>list_segments\<close> of \<open>src/wal.cpp\<close>,
  \<open>sst_file_name\<close> of \<open>src/sstable.cpp\<close>.  Both print \<open>%06llu\<close> and an extension into a
  buffer of 16 characters, so at most 15 characters survive.
\<close>

section \<open>Decimal numbers\<close>

definition digit :: "nat \<Rightarrow> char" where
  "digit n = char_of (48 + n)"

definition digit_value :: "char \<Rightarrow> nat" where
  "digit_value c = of_char c - 48"

definition is_digit :: "char \<Rightarrow> bool" where
  "is_digit c \<longleftrightarrow> 48 \<le> (of_char c :: nat) \<and> (of_char c :: nat) \<le> 57"

fun decimal :: "nat \<Rightarrow> string" where
  "decimal n = (if n < 10 then [digit n] else decimal (n div 10) @ [digit (n mod 10)])"

declare decimal.simps [simp del]

definition pad6 :: "string \<Rightarrow> string" where
  "pad6 s = replicate (6 - length s) CHR ''0'' @ s"

text \<open>The digits of a stem, as \<open>std::stoull\<close> reads them; it throws when the value does not fit.\<close>

definition digits_value :: "string \<Rightarrow> nat" where
  "digits_value s = foldl (\<lambda>v c. 10 * v + digit_value c) 0 s"

definition stoull_digits :: "string \<Rightarrow> u64 result" where
  "stoull_digits s = (if digits_value s < 2 ^ 64 then Inr (of_nat (digits_value s)) else Inl Escaped)"

section \<open>The names\<close>

definition name_buffer :: nat where "name_buffer = 16"

definition segment_name :: "u64 \<Rightarrow> string" where
  "segment_name sid = take (name_buffer - 1) (pad6 (decimal (unat sid)) @ ''.wal'')"

definition sst_file_name :: "u64 \<Rightarrow> string" where
  "sst_file_name sid = take (name_buffer - 1) (pad6 (decimal (unat sid)) @ ''.sst'')"

text \<open>\<open>path::extension\<close> and \<open>path::stem\<close> of a name that does not start with its only dot.\<close>

definition stem :: "string \<Rightarrow> string" where
  "stem name = (let r = dropWhile (\<lambda>c. c \<noteq> CHR ''.'') (rev name) in
     if r = [] \<or> tl r = [] then name else rev (tl r))"

definition extension :: "string \<Rightarrow> string" where
  "extension name = drop (length (stem name)) name"

text \<open>\<open>list_segments\<close>: \<open>None\<close> for a name the loop skips, otherwise the number of the segment.\<close>

definition segment_id :: "string \<Rightarrow> u64 result option" where
  "segment_id name =
     (if extension name \<noteq> ''.wal'' then None
      else if stem name = [] \<or> \<not> list_all is_digit (stem name) then None
      else Some (stoull_digits (stem name)))"

fun list_segments :: "string list \<Rightarrow> (u64 \<times> string) list result" where
  "list_segments [] = Inr []"
| "list_segments (name # names) =
     (case segment_id name of
        None \<Rightarrow> list_segments names
      | Some r \<Rightarrow> and_then r (\<lambda>sid. and_then (list_segments names) (\<lambda>l. Inr (insort (sid, name) l))))"

section \<open>Lemmas\<close>

lemma of_char_digit: "n < 10 \<Longrightarrow> (of_char (digit n) :: nat) = 48 + n"
  by (simp add: digit_def of_char_of)

lemma digit_value_digit [simp]: "n < 10 \<Longrightarrow> digit_value (digit n) = n"
  by (simp add: digit_value_def of_char_digit)

lemma is_digit_digit [simp]: "n < 10 \<Longrightarrow> is_digit (digit n)"
  by (simp add: is_digit_def of_char_digit)

lemma decimal_nonempty [simp]: "decimal n \<noteq> []"
  by (subst decimal.simps) simp

lemma decimal_digits: "list_all is_digit (decimal n)"
  by (induction n rule: decimal.induct) (subst decimal.simps, simp)

lemma digits_value_snoc: "digits_value (s @ [c]) = 10 * digits_value s + digit_value c"
  by (simp add: digits_value_def)

lemma digits_value_decimal: "digits_value (decimal n) = n"
proof (induction n rule: decimal.induct)
  case (1 n)
  show ?case
  proof (cases "n < 10")
    case True
    then show ?thesis by (simp add: decimal.simps [of n] digits_value_def)
  next
    case False
    then show ?thesis using 1 by (simp add: decimal.simps [of n] digits_value_snoc)
  qed
qed

lemma digits_value_zeros: "digits_value (replicate k CHR ''0'' @ s) = digits_value s"
proof -
  have "foldl (\<lambda>v c. 10 * v + digit_value c) 0 (replicate k CHR ''0'') = 0"
    by (induction k) (simp_all add: digit_value_def)
  then show ?thesis by (simp add: digits_value_def)
qed

lemma digits_value_pad6: "digits_value (pad6 s) = digits_value s"
  by (simp add: pad6_def digits_value_zeros)

lemma pad6_digits: "list_all is_digit (pad6 (decimal n))"
  using decimal_digits [of n] by (auto simp: pad6_def is_digit_def list_all_iff)

lemma length_decimal: "n < 10 ^ k \<Longrightarrow> 0 < k \<Longrightarrow> length (decimal n) \<le> k"
proof (induction k arbitrary: n)
  case 0
  then show ?case by simp
next
  case (Suc k)
  show ?case
  proof (cases "n < 10")
    case True
    then show ?thesis by (simp add: decimal.simps [of n])
  next
    case False
    then have "0 < k" using Suc.prems by (cases k) auto
    then have "length (decimal (n div 10)) \<le> k" using Suc.prems by (intro Suc.IH) auto
    then show ?thesis using False by (simp add: decimal.simps [of n])
  qed
qed

lemma name_whole:
  assumes "unat sid < 10 ^ 11" "length ext = 4"
  shows "take (name_buffer - 1) (pad6 (decimal (unat sid)) @ ext) = pad6 (decimal (unat sid)) @ ext"
  using length_decimal [OF assms(1)] assms(2) by (simp add: name_buffer_def pad6_def)

lemma stem_digits:
  assumes "list_all is_digit s" "s \<noteq> []"
  shows "stem (s @ ''.wal'') = s" "extension (s @ ''.wal'') = ''.wal''"
    "stem (s @ ''.sst'') = s" "extension (s @ ''.sst'') = ''.sst''"
  using assms by (simp_all add: stem_def extension_def)

lemma segment_id_name:
  assumes "unat sid < 10 ^ 11"
  shows "segment_id (segment_name sid) = Some (Inr sid)"
proof -
  let ?s = "pad6 (decimal (unat sid))"
  have name: "segment_name sid = ?s @ ''.wal''"
    using name_whole [OF assms] by (simp add: segment_name_def)
  have s: "list_all is_digit ?s" "?s \<noteq> []" by (simp_all add: pad6_digits) (simp add: pad6_def)
  have "stoull_digits ?s = Inr sid"
    by (simp add: stoull_digits_def digits_value_pad6 digits_value_decimal) 
      (use unsigned_less [where 'a = nat and w = sid] in simp)
  then show ?thesis using stem_digits [OF s] s by (simp add: segment_id_def name)
qed

text \<open>Table names: the number is printed whole, so they differ for different numbers.\<close>

lemma sst_name_whole: "unat sid < 10 ^ 11 \<Longrightarrow> sst_file_name sid = pad6 (decimal (unat sid)) @ ''.sst''"
  unfolding sst_file_name_def by (rule name_whole) simp_all

lemma pad6_inject: "pad6 (decimal (unat a)) = pad6 (decimal (unat b)) \<longleftrightarrow> a = b"
  by (metis digits_value_decimal digits_value_pad6 word_unat_eq_iff)

lemma sst_name_inject:
  "unat a < 10 ^ 11 \<Longrightarrow> unat b < 10 ^ 11 \<Longrightarrow> sst_file_name a = sst_file_name b \<longleftrightarrow> a = b"
  by (simp add: sst_name_whole pad6_inject)

lemma sst_name_extension: "unat sid < 10 ^ 11 \<Longrightarrow> extension (sst_file_name sid) = ''.sst''"
  using stem_digits [of "pad6 (decimal (unat sid))"] pad6_digits by (simp add: sst_name_whole) (simp add: pad6_def)

section \<open>Properties\<close>

text \<open>Segment and table names: for every number below 10 to the 11th, \<open>list_segments\<close> reads back
  from the name of a segment the number that was printed, so distinct segments and distinct
  tables have distinct names; and it takes no table for a segment.\<close>
theorem file_names_roundtrip:
  assumes "unat a < 10 ^ 11" and "unat b < 10 ^ 11"
  shows "segment_id (segment_name a) = Some (Inr a) \<and>
    (segment_name a = segment_name b \<longleftrightarrow> a = b) \<and>
    (sst_file_name a = sst_file_name b \<longleftrightarrow> a = b) \<and> segment_id (sst_file_name a) = None"
proof -
  let ?s = "\<lambda>a :: u64. pad6 (decimal (unat a))"
  have s: "list_all is_digit (?s a)" "?s a \<noteq> []" for a by (simp_all add: pad6_digits) (simp add: pad6_def)
  have "segment_name a = segment_name b \<longleftrightarrow> a = b"
    using segment_id_name assms by (metis option.inject sum.inject(2))
  moreover have "segment_id (sst_file_name a) = None"
    using stem_digits [OF s] by (simp add: segment_id_def sst_name_whole [OF assms(1)])
  ultimately show ?thesis
    using segment_id_name assms by (simp add: sst_name_inject)
qed

theorem file_names_roundtrip_witness:
  "segment_id (segment_name 7) = Some (Inr 7) \<and> segment_id (sst_file_name 7) = None"
  using file_names_roundtrip [of 7 8] by simp

end
