(* ===== verification/Config.thy ===== *)
theory Config
  imports Complex_Main Prelude
begin

text \<open>
  The struct \<open>Config\<close> of \<open>include/lsm/config.hpp\<close>: every tunable with its width and its
  built-in default.  The two floating-point tunables are kept as the exact rational their
  text denotes; what the code computes from them in \<open>double\<close> is a parameter where it is used.
\<close>

datatype compression = Off | Snappy | Lz4

datatype log_level = Debug | Info | Warn | Error

definition compression_to_string :: "compression \<Rightarrow> string" where
  "compression_to_string c = (case c of Off \<Rightarrow> ''off'' | Snappy \<Rightarrow> ''snappy'' | Lz4 \<Rightarrow> ''lz4'')"

definition log_level_to_string :: "log_level \<Rightarrow> string" where
  "log_level_to_string l =
     (case l of Debug \<Rightarrow> ''debug'' | Info \<Rightarrow> ''info'' | Warn \<Rightarrow> ''warn'' | Error \<Rightarrow> ''error'')"

definition parse_compression :: "string \<Rightarrow> compression result" where
  "parse_compression s =
     (if s = ''off'' then Inr Off
      else if s = ''snappy'' then Inr Snappy
      else if s = ''lz4'' then Inr Lz4
      else Inl (Thrown InvalidArgument))"

definition parse_bool :: "string \<Rightarrow> bool result" where
  "parse_bool s =
     (if s = ''true'' \<or> s = ''1'' then Inr True
      else if s = ''false'' \<or> s = ''0'' then Inr False
      else Inl (Thrown InvalidArgument))"

definition log_level_from_string :: "string \<Rightarrow> log_level result" where
  "log_level_from_string s =
     (if s = ''debug'' then Inr Debug
      else if s = ''info'' then Inr Info
      else if s = ''warn'' then Inr Warn
      else if s = ''error'' then Inr Error
      else Inl (Thrown InvalidArgument))"

record config =
  data_dir :: string
  memtable_max_bytes :: u64
  max_immutable_tables :: u32
  memtable_size_overhead_bytes_per_entry :: u32
  block_size :: u32
  bloom_false_positive :: rat
  sst_dir :: string
  restart_interval :: u32
  max_build_buffer_mb :: u32
  block_cache_mb :: u32
  cache_index_blocks :: bool
  max_open_files :: u32
  wal_fsync_every_n :: u32
  wal_segment_roll_bytes :: u64
  compression :: compression
  log_level :: log_level
  manifest_path :: string
  publish_log_level :: log_level
  size_tiered_fan_in :: u32
  size_tiered_size_ratio :: rat
  tombstone_grace_seconds :: u32
  compaction_max_concurrent :: u32
  compaction_io_mb_per_s :: u32
  l0_compaction_trigger :: u32
  l0_stop_writes :: u32
  bg_tick_ms :: u32
  shutdown_timeout_ms :: u32
  metrics_enabled :: bool
  http_listen_addr :: string
  stats_sampling_interval_ms :: u32
  doctor_bundle_max_mb :: u32

definition default_config :: config where
  "default_config = \<lparr>
     data_dir = ''./data'', memtable_max_bytes = 67108864, max_immutable_tables = 4,
     memtable_size_overhead_bytes_per_entry = 32, block_size = 8192,
     bloom_false_positive = 1 / 100, sst_dir = [], restart_interval = 16,
     max_build_buffer_mb = 32, block_cache_mb = 64, cache_index_blocks = True,
     max_open_files = 1024, wal_fsync_every_n = 1, wal_segment_roll_bytes = 134217728,
     compression = Off, log_level = Info, manifest_path = [], publish_log_level = Info,
     size_tiered_fan_in = 4, size_tiered_size_ratio = 2, tombstone_grace_seconds = 86400,
     compaction_max_concurrent = 1, compaction_io_mb_per_s = 0, l0_compaction_trigger = 8,
     l0_stop_writes = 20, bg_tick_ms = 500, shutdown_timeout_ms = 5000,
     metrics_enabled = True, http_listen_addr = ''127.0.0.1:9090'',
     stats_sampling_interval_ms = 1000, doctor_bundle_max_mb = 10\<rparr>"

text \<open>\<open>std::filesystem::path\<close>'s \<open>/\<close> with a relative right operand.\<close>

definition path_join :: "string \<Rightarrow> string \<Rightarrow> string" where
  "path_join a b = (if a = [] \<or> last a = CHR ''/'' then a @ b else a @ ''/'' @ b)"

definition resolved_sst_dir :: "config \<Rightarrow> string" where
  "resolved_sst_dir c = (if sst_dir c = [] then path_join (data_dir c) ''sst'' else sst_dir c)"

definition resolved_manifest_path :: "config \<Rightarrow> string" where
  "resolved_manifest_path c =
     (if manifest_path c = [] then path_join (data_dir c) ''manifest.json'' else manifest_path c)"

lemma parse_compression_round [simp]: "parse_compression (compression_to_string c) = Inr c"
  by (cases c) (simp_all add: parse_compression_def compression_to_string_def)

lemma log_level_round [simp]: "log_level_from_string (log_level_to_string l) = Inr l"
  by (cases l) (simp_all add: log_level_from_string_def log_level_to_string_def)

end
