(* ===== verification/Memtable.thy ===== *)
theory Memtable
  imports Std_Map
begin

text \<open>
  The memtable of \<open>include/lsm/memtable.hpp\<close> and \<open>src/memtable.cpp\<close>: an ordered map from
  keys to the latest version, tombstones included, with its byte accounting.  The shared
  mutex serialises whole operations, so each operation is one function on the table.
\<close>

section \<open>State and operations\<close>

record mem_entry =
  me_value :: bytes
  me_seqno :: u64
  me_tombstone :: bool

record memtable =
  mt_map :: "(bytes, mem_entry) std_map"
  mt_bytes :: u64
  mt_overhead :: u32

definition memtable_new :: "u32 \<Rightarrow> memtable" where
  "memtable_new overhead = \<lparr>mt_map = [], mt_bytes = 0, mt_overhead = overhead\<rparr>"

text \<open>\<open>key.size() + value.size() + overhead_\<close> in 64 bits.\<close>

definition entry_size :: "u32 \<Rightarrow> bytes \<Rightarrow> bytes \<Rightarrow> u64" where
  "entry_size overhead key value = of_nat (length key) + of_nat (length value) + ucast overhead"

definition memtable_apply :: "bytes \<Rightarrow> bytes \<Rightarrow> u64 \<Rightarrow> bool \<Rightarrow> memtable \<Rightarrow> memtable" where
  "memtable_apply key value seqno tombstone mt =
     (let e = \<lparr>me_value = value, me_seqno = seqno, me_tombstone = tombstone\<rparr>
      in case map_find (mt_map mt) key of
           Some old \<Rightarrow>
             mt\<lparr>mt_map := map_assign key e (mt_map mt),
                mt_bytes := mt_bytes mt - entry_size (mt_overhead mt) key (me_value old)
                              + entry_size (mt_overhead mt) key value\<rparr>
         | None \<Rightarrow>
             mt\<lparr>mt_map := map_assign key e (mt_map mt),
                mt_bytes := mt_bytes mt + entry_size (mt_overhead mt) key value\<rparr>)"

definition memtable_find :: "memtable \<Rightarrow> bytes \<Rightarrow> mem_entry option" where
  "memtable_find mt key = map_find (mt_map mt) key"

definition memtable_entries :: "memtable \<Rightarrow> u64" where
  "memtable_entries mt = of_nat (length (mt_map mt))"

definition sorted_entries :: "memtable \<Rightarrow> (bytes, mem_entry) std_map" where
  "sorted_entries mt = mt_map mt"

section \<open>Well-formedness\<close>

definition entries_size :: "u32 \<Rightarrow> (bytes \<times> mem_entry) list \<Rightarrow> u64" where
  "entries_size overhead kvs = sum_list (map (\<lambda>(k, e). entry_size overhead k (me_value e)) kvs)"

definition memtable_ok :: "memtable \<Rightarrow> bool" where
  "memtable_ok mt \<longleftrightarrow>
     keys_ascending (mt_map mt) \<and> mt_bytes mt = entries_size (mt_overhead mt) (mt_map mt)"

lemma entries_size_assign_new:
  "map_find m k = None \<Longrightarrow>
     entries_size h (map_assign k e m) = entries_size h m + entry_size h k (me_value e)"
  by (induction m) (auto simp: entries_size_def split: if_splits)

lemma entries_size_assign_old:
  "keys_ascending m \<Longrightarrow> map_find m k = Some old \<Longrightarrow>
     entries_size h (map_assign k e m) =
       entries_size h m - entry_size h k (me_value old) + entry_size h k (me_value e)"
proof (induction m)
  case Nil
  then show ?case by simp
next
  case (Cons p m)
  obtain a x where p: "p = (a, x)" by (cases p)
  have "\<not> k < a" if "k \<noteq> a"
    using Cons.prems that map_find_in_set [of m k old]
    by (auto simp: p keys_ascending_Cons)
  with Cons show ?case by (auto simp: p entries_size_def keys_ascending_Cons)
qed

lemma memtable_ok_new [inv_intros, simp]: "memtable_ok (memtable_new h)"
  by (simp add: memtable_ok_def memtable_new_def entries_size_def)

lemma memtable_ok_apply [inv_intros]:
  "memtable_ok mt \<Longrightarrow> memtable_ok (memtable_apply key value seqno tomb mt)"
  by (auto simp: memtable_ok_def memtable_apply_def Let_def entries_size_assign_new
      entries_size_assign_old intro: inv_intros split: option.splits)

lemma memtable_ok_sorted [inv_dests]: "memtable_ok mt \<Longrightarrow> keys_ascending (mt_map mt)"
  by (simp add: memtable_ok_def)

lemma memtable_overhead_apply [simp]:
  "mt_overhead (memtable_apply key value seqno tomb mt) = mt_overhead mt"
  by (simp add: memtable_apply_def Let_def split: option.splits)

lemma mt_map_apply:
  "mt_map (memtable_apply key value seqno tomb mt) =
     map_assign key \<lparr>me_value = value, me_seqno = seqno, me_tombstone = tomb\<rparr> (mt_map mt)"
  by (simp add: memtable_apply_def Let_def split: option.splits)

lemma memtable_find_apply:
  "memtable_find (memtable_apply key value seqno tomb mt) =
     (memtable_find mt)(key \<mapsto> \<lparr>me_value = value, me_seqno = seqno, me_tombstone = tomb\<rparr>)"
  by (simp add: memtable_find_def [abs_def] mt_map_apply map_find_assign)

lemma memtable_find_new [simp]: "memtable_find (memtable_new h) k = None"
  by (simp add: memtable_find_def memtable_new_def)

lemma memtable_find_iff:
  "memtable_ok mt \<Longrightarrow> memtable_find mt k = Some e \<longleftrightarrow> (k, e) \<in> set (sorted_entries mt)"
  by (simp add: memtable_find_def sorted_entries_def map_find_iff memtable_ok_def)

section \<open>The memtable is a key-value store\<close>

definition memtable_store :: "bytes \<Rightarrow> mem_entry \<Rightarrow> memtable \<Rightarrow> memtable" where
  "memtable_store key e = memtable_apply key (me_value e) (me_seqno e) (me_tombstone e)"

lemma mem_entry_eta [simp]:
  "\<lparr>me_value = me_value e, me_seqno = me_seqno e, me_tombstone = me_tombstone e\<rparr> = e"
  by (cases e) simp

lemma memtable_find_store: "memtable_find (memtable_store k e mt) = (memtable_find mt)(k \<mapsto> e)"
  by (simp add: memtable_store_def memtable_find_apply)

lemma memtable_ok_store [inv_intros]: "memtable_ok mt \<Longrightarrow> memtable_ok (memtable_store k e mt)"
  unfolding memtable_store_def by (rule memtable_ok_apply)

interpretation memtable_kv: kv_store memtable_find memtable_store memtable_ok
  by unfold_locales (auto simp: memtable_find_store intro: inv_intros)

text \<open>Applying a batch, in order, as replay and compaction do.\<close>

definition memtable_apply_all :: "(bytes \<times> mem_entry) list \<Rightarrow> memtable \<Rightarrow> memtable" where
  "memtable_apply_all kvs mt = fold (\<lambda>(k, e). memtable_store k e) kvs mt"

lemma memtable_apply_all_ok [inv_intros]:
  "memtable_ok mt \<Longrightarrow> memtable_ok (memtable_apply_all kvs mt)"
  unfolding memtable_apply_all_def by (rule memtable_kv.invar_replay)

lemma memtable_find_apply_all:
  "memtable_ok mt \<Longrightarrow> memtable_find (memtable_apply_all kvs mt) = memtable_find mt ++ map_of (rev kvs)"
  unfolding memtable_apply_all_def by (rule memtable_kv.lookup_replay)

lemma memtable_apply_all_Nil [simp]: "memtable_apply_all [] mt = mt"
  by (simp add: memtable_apply_all_def)

lemma memtable_apply_all_append [simp]:
  "memtable_apply_all (xs @ ys) mt = memtable_apply_all ys (memtable_apply_all xs mt)"
  by (simp add: memtable_apply_all_def)

lemma memtable_apply_all_Cons [simp]:
  "memtable_apply_all ((k, e) # ys) mt = memtable_apply_all ys (memtable_store k e mt)"
  by (simp add: memtable_apply_all_def)

text \<open>While the contents fit in 64 bits the counter is the true size.\<close>

definition true_size :: "memtable \<Rightarrow> nat" where
  "true_size mt = (\<Sum>(k, e)\<leftarrow>mt_map mt. length k + length (me_value e) + unat (mt_overhead mt))"

lemma entries_size_of_nat:
  "entries_size h m = of_nat (\<Sum>(k, e)\<leftarrow>m. length k + length (me_value e) + unat h)"
  by (induction m) (auto simp: entries_size_def entry_size_def)

lemma mt_bytes_true_size: "memtable_ok mt \<Longrightarrow> mt_bytes mt = of_nat (true_size mt)"
  by (simp add: memtable_ok_def true_size_def entries_size_of_nat)

lemma unat_mt_bytes: "memtable_ok mt \<Longrightarrow> true_size mt < 2 ^ 64 \<Longrightarrow> unat (mt_bytes mt) = true_size mt"
  by (simp add: mt_bytes_true_size unat_of_nat take_bit_nat_eq_self_iff)

section \<open>Properties\<close>

text \<open>C29. \<open>Memtable::apply\<close> overwrites exactly the entry of its key: afterwards the table holds
  the given value, sequence number and tombstone flag for the key, every other key is as it
  was, and the table is still well formed: keys strictly ascending, and \<open>bytes_\<close> equal to
  the sum over all entries of key length, value length and overhead, in 64-bit arithmetic.\<close>
theorem memtable_apply_correct:
  assumes "memtable_ok mt"
  shows "memtable_ok (memtable_apply key value seqno tomb mt)
    \<and> memtable_find (memtable_apply key value seqno tomb mt) key =
        Some \<lparr>me_value = value, me_seqno = seqno, me_tombstone = tomb\<rparr>
    \<and> (\<forall>k. k \<noteq> key \<longrightarrow>
         memtable_find (memtable_apply key value seqno tomb mt) k = memtable_find mt k)"
  using assms by (auto simp: memtable_find_apply intro: inv_intros)

theorem memtable_apply_correct_witness:
  "memtable_find (memtable_apply [2] [9] 7 False (memtable_new 32)) [2] =
     Some \<lparr>me_value = [9], me_seqno = 7, me_tombstone = False\<rparr>"
  using memtable_apply_correct [of "memtable_new 32" "[2]" "[9]" 7 False] by simp

end
