(* ===== verification/Bloom.thy ===== *)
theory Bloom
  imports Prelude
begin

text \<open>
  The Bloom filter: \<open>BloomBuilder\<close> of \<open>src/sstable.cpp\<close> and
  \<open>TableReader::bloom_may_contain\<close> of \<open>src/table_reader.cpp\<close>.  The builder's two numbers
  come from floating-point logarithms; the results of these expressions, after the casts to
  integers, are its arguments.
\<close>

section \<open>Hashing\<close>

definition fnv1a :: "bytes \<Rightarrow> u64 \<Rightarrow> u64" where
  "fnv1a s seed = foldl (\<lambda>h c. (h XOR ucast c) * 1099511628211) (14695981039346656037 XOR seed) s"

text \<open>The bits of a key, in the order both sides visit them.\<close>

definition bloom_probes :: "bytes \<Rightarrow> u64 \<Rightarrow> u32 \<Rightarrow> u64 list" where
  "bloom_probes key num_bits num_hashes =
     (let h1 = fnv1a key 0; h2 = fnv1a key 0x9E3779B97F4A7C15 OR 1
      in map (\<lambda>i. (h1 + of_nat i * h2) mod num_bits) [0..<unat num_hashes])"

section \<open>Building\<close>

record bloom =
  bl_bits :: bytes
  bl_num_bits :: u64
  bl_num_hashes :: u32

text \<open>\<open>hashes\<close> is \<open>lround(log 2 * bits_per_key)\<close> and \<open>wanted\<close> is
  \<open>ceil(max(num_keys, 1) * bits_per_key)\<close>, as integers.\<close>

definition bloom_new :: "u64 \<Rightarrow> u32 \<Rightarrow> bloom" where
  "bloom_new wanted hashes =
     (let num_bits = max 64 wanted
      in \<lparr>bl_bits = replicate (unat ((num_bits + 7) div 8)) 0, bl_num_bits = num_bits,
          bl_num_hashes = max 1 hashes\<rparr>)"

definition set_bit_at :: "u64 \<Rightarrow> bytes \<Rightarrow> bytes" where
  "set_bit_at b bits =
     bits[unat (b div 8) := bits ! unat (b div 8) OR push_bit (unat (b mod 8)) 1]"

definition bloom_add :: "bytes \<Rightarrow> bloom \<Rightarrow> bloom" where
  "bloom_add key bl =
     bl\<lparr>bl_bits := fold set_bit_at (bloom_probes key (bl_num_bits bl) (bl_num_hashes bl)) (bl_bits bl)\<rparr>"

section \<open>Asking\<close>

text \<open>The reader's numbers come from a file.  A probe outside the bit array, or a modulus of
  zero, is undefined behaviour.\<close>

fun test_bits :: "bytes \<Rightarrow> u64 list \<Rightarrow> bool result" where
  "test_bits bits [] = Inr True"
| "test_bits bits (b # bs) =
     (if length bits \<le> unat (b div 8) then Inl Undefined
      else if \<not> bit (bits ! unat (b div 8)) (unat (b mod 8)) then Inr False
      else test_bits bits bs)"

definition bloom_may_contain :: "bytes \<Rightarrow> u64 \<Rightarrow> u32 \<Rightarrow> bytes \<Rightarrow> bool result" where
  "bloom_may_contain bits num_bits num_hashes key =
     (if num_bits = 0 \<and> num_hashes \<noteq> 0 then Inl Undefined
      else test_bits bits (bloom_probes key num_bits num_hashes))"

section \<open>Well-formed filters\<close>

definition bloom_ok :: "bloom \<Rightarrow> bool" where
  "bloom_ok bl \<longleftrightarrow> 0 < bl_num_bits bl \<and> 0 < bl_num_hashes bl \<and>
     length (bl_bits bl) = unat ((bl_num_bits bl + 7) div 8) \<and>
     unat (bl_num_bits bl) \<le> 8 * length (bl_bits bl)"

lemma unat_div_8_less:
  assumes "b < (m :: u64)" "unat m \<le> 8 * n"
  shows "unat (b div 8) < n"
proof -
  have "unat b < 8 * n" using assms by (simp add: word_less_nat_alt)
  then show ?thesis by (simp add: unat_div)
qed

lemma bloom_probes_less:
  "0 < num_bits \<Longrightarrow> b \<in> set (bloom_probes key num_bits num_hashes) \<Longrightarrow> b < num_bits"
  by (auto simp: bloom_probes_def Let_def word_mod_less_divisor)

lemma bloom_ok_new [inv_intros]:
  assumes "wanted \<le> 2 ^ 64 - 8"
  shows "bloom_ok (bloom_new wanted hashes)"
proof -
  let ?n = "max 64 wanted :: u64"
  have le: "unat ?n \<le> 2 ^ 64 - 8"
    using assms by (auto simp: max_def word_le_nat_alt)
  then have "unat (?n + 7) = unat ?n + 7"
    by (subst unat_plus_if') simp
  then have "unat ((?n + 7) div 8) = (unat ?n + 7) div 8" by (simp add: unat_div)
  moreover have "0 < ?n" by (auto simp: max_def word_gt_0)
  ultimately show ?thesis
    by (auto simp: bloom_ok_def bloom_new_def Let_def max_def word_gt_0)
qed

lemma length_fold_set_bit [simp]: "length (fold set_bit_at bs bits) = length bits"
  by (induction bs arbitrary: bits) (auto simp: set_bit_at_def)

lemma bloom_ok_add [inv_intros]: "bloom_ok bl \<Longrightarrow> bloom_ok (bloom_add key bl)"
  by (simp add: bloom_ok_def bloom_add_def)

lemma bloom_add_shape [simp]:
  "bl_num_bits (bloom_add key bl) = bl_num_bits bl"
  "bl_num_hashes (bloom_add key bl) = bl_num_hashes bl"
  "length (bl_bits (bloom_add key bl)) = length (bl_bits bl)"
  by (simp_all add: bloom_add_def)

section \<open>No false negatives\<close>

definition holds_bit :: "bytes \<Rightarrow> u64 \<Rightarrow> bool" where
  "holds_bit bits b \<longleftrightarrow> unat (b div 8) < length bits \<and> bit (bits ! unat (b div 8)) (unat (b mod 8))"

lemma holds_bit_set: "unat (b div 8) < length bits \<Longrightarrow> holds_bit (set_bit_at b bits) b"
proof -
  have "unat (b mod 8) < 8" by (simp add: unat_mod)
  then show "unat (b div 8) < length bits \<Longrightarrow> holds_bit (set_bit_at b bits) b"
    by (simp add: holds_bit_def set_bit_at_def bit_simps)
qed

lemma holds_bit_keep: "holds_bit bits b \<Longrightarrow> holds_bit (set_bit_at c bits) b"
  by (cases "unat (c div 8) = unat (b div 8)")
    (simp_all add: holds_bit_def set_bit_at_def bit_or_iff)

lemma holds_bit_fold_keep: "holds_bit bits b \<Longrightarrow> holds_bit (fold set_bit_at cs bits) b"
  by (induction cs arbitrary: bits) (auto simp: holds_bit_keep)

lemma holds_bit_fold:
  "b \<in> set bs \<Longrightarrow> \<forall>b \<in> set bs. unat (b div 8) < length bits \<Longrightarrow> holds_bit (fold set_bit_at bs bits) b"
proof (induction bs arbitrary: bits)
  case Nil
  then show ?case by simp
next
  case (Cons c bs)
  have len: "length (set_bit_at c bits) = length bits" by (simp add: set_bit_at_def)
  show ?case
  proof (cases "b \<in> set bs")
    case True
    then show ?thesis using Cons len by simp
  next
    case False
    then show ?thesis using Cons.prems holds_bit_set holds_bit_fold_keep by simp
  qed
qed

lemma test_bits_all: "\<forall>b \<in> set bs. holds_bit bits b \<Longrightarrow> test_bits bits bs = Inr True"
  by (induction bs) (auto simp: holds_bit_def)

lemma test_bits_defined:
  "\<forall>b \<in> set bs. unat (b div 8) < length bits \<Longrightarrow> \<exists>r. test_bits bits bs = Inr r"
  by (induction bs) auto

definition bloom_holds :: "bloom \<Rightarrow> bytes \<Rightarrow> bool" where
  "bloom_holds bl key \<longleftrightarrow>
     (\<forall>b \<in> set (bloom_probes key (bl_num_bits bl) (bl_num_hashes bl)). holds_bit (bl_bits bl) b)"

lemma bloom_holds_added:
  assumes "bloom_ok bl"
  shows "bloom_holds (bloom_add key bl) key"
proof -
  have "\<forall>b \<in> set (bloom_probes key (bl_num_bits bl) (bl_num_hashes bl)). unat (b div 8) < length (bl_bits bl)"
    using assms bloom_probes_less unat_div_8_less unfolding bloom_ok_def by blast
  then show ?thesis by (simp add: bloom_holds_def bloom_add_def holds_bit_fold)
qed

lemma bloom_holds_add: "bloom_holds bl key \<Longrightarrow> bloom_holds (bloom_add k bl) key"
  by (simp add: bloom_holds_def bloom_add_def holds_bit_fold_keep)

lemma bloom_add_all:
  "bloom_ok bl \<Longrightarrow> bloom_ok (fold bloom_add keys bl) \<and>
     (\<forall>k. k \<in> set keys \<or> bloom_holds bl k \<longrightarrow> bloom_holds (fold bloom_add keys bl) k)"
proof (induction keys arbitrary: bl)
  case Nil
  then show ?case by simp
next
  case (Cons k keys)
  then show ?case
    using Cons.IH [OF bloom_ok_add [OF Cons.prems, of k]] bloom_holds_added [OF Cons.prems]
      bloom_holds_add by auto
qed

lemma bloom_may_contain_holds:
  "bloom_ok bl \<Longrightarrow> bloom_holds bl key \<Longrightarrow>
     bloom_may_contain (bl_bits bl) (bl_num_bits bl) (bl_num_hashes bl) key = Inr True"
  by (auto simp: bloom_may_contain_def bloom_ok_def bloom_holds_def test_bits_all)

lemma bloom_may_contain_defined:
  assumes "0 < num_bits" "unat num_bits \<le> 8 * length bits"
  shows "\<exists>r. bloom_may_contain bits num_bits num_hashes key = Inr r"
  using assms bloom_probes_less
  by (auto simp: bloom_may_contain_def intro!: test_bits_defined unat_div_8_less)

section \<open>Properties\<close>

text \<open>C27. The filter never says no to a key that was added, whatever other keys were added before
  or after and whatever numbers of bits and hashes the false-positive rate led to; for every
  other key it gives an answer without reading outside its bit array.\<close>
theorem bloom_no_false_negative:
  fixes keys :: "bytes list"
  assumes "wanted \<le> 2 ^ 64 - 8" and bl: "bl = fold bloom_add keys (bloom_new wanted hashes)"
  shows "(key \<in> set keys \<longrightarrow>
      bloom_may_contain (bl_bits bl) (bl_num_bits bl) (bl_num_hashes bl) key = Inr True) \<and>
    (\<exists>r. bloom_may_contain (bl_bits bl) (bl_num_bits bl) (bl_num_hashes bl) key = Inr r)"
proof -
  have ok: "bloom_ok bl" and "key \<in> set keys \<Longrightarrow> bloom_holds bl key"
    using bloom_add_all [OF bloom_ok_new [OF assms(1), of hashes], of keys] by (auto simp: bl)
  then show ?thesis
    using bloom_may_contain_holds [OF ok] bloom_may_contain_defined
    by (auto simp: bloom_ok_def)
qed

theorem bloom_no_false_negative_witness:
  "let bl = fold bloom_add [[97], [98]] (bloom_new 20 7) in
     bloom_may_contain (bl_bits bl) (bl_num_bits bl) (bl_num_hashes bl) [98] = Inr True"
  using bloom_no_false_negative [of 20 _ "[[97], [98]]" 7 "[98]"] by (simp add: word_le_nat_alt)

end
