(* ===== verification/Sstable.thy ===== *)
theory Sstable
  imports Checksum Names Config Memtable Bloom
begin

text \<open>
  Sorted tables on disk: the writer, the inspector, the scanner and the verifier of
  \<open>src/sstable.cpp\<close>.  A file is the list of its bytes.  The directory of tables is a map from
  file names to files; the writer's temporary file is in it while it is being built.  What
  \<open>BloomBuilder\<close> computes in floating point from the number of keys and the false-positive
  rate is the parameter \<open>shape\<close>: number of bits, number of hashes, bits per key.
\<close>

section \<open>Constants and encodings\<close>

definition sst_magic :: u32 where "sst_magic = 0x4C535354"
definition sst_version :: u32 where "sst_version = 1"
definition kFooterSize :: nat where "kFooterSize = 40"
definition kFlagTombstone :: byte where "kFlagTombstone = 1"
definition kEntryHeader :: nat where "kEntryHeader = 17"

lemmas sst_consts = kFooterSize_def kFlagTombstone_def kEntryHeader_def

type_synonym bloom_shape = "u64 \<Rightarrow> rat \<Rightarrow> u64 \<times> u32 \<times> rat"
type_synonym sst_dir = "(string, bytes) std_map"

definition encode_entry :: "bytes \<times> mem_entry \<Rightarrow> bytes" where
  "encode_entry = (\<lambda>(key, e).
     put_u32 (of_nat (length key)) @ put_u32 (of_nat (length (me_value e))) @ put_u64 (me_seqno e)
     @ [if me_tombstone e then kFlagTombstone else 0] @ key @ me_value e)"

record index_entry =
  ie_first_key :: bytes
  ie_offset :: u64
  ie_size :: u32

definition encode_index_entry :: "index_entry \<Rightarrow> bytes" where
  "encode_index_entry e = put_u32 (of_nat (length (ie_first_key e))) @ ie_first_key e
     @ put_u64 (ie_offset e) @ put_u32 (ie_size e)"

definition with_crc :: "bytes \<Rightarrow> bytes" where
  "with_crc b = b @ put_u32 (crc32 b)"

section \<open>Writing a table\<close>

text \<open>The local variables of \<open>write_sstable\<close> while it runs over the entries.\<close>

record sst_builder =
  sb_out :: bytes
  sb_index :: "index_entry list"
  sb_block :: bytes
  sb_restarts :: "u32 list"
  sb_first_key :: bytes
  sb_block_entries :: u32
  sb_offset :: u64
  sb_bloom :: bloom
  sb_max_key :: bytes
  sb_min_seqno :: u64
  sb_max_seqno :: u64

definition finish_block :: "sst_builder \<Rightarrow> sst_builder" where
  "finish_block b =
     (if sb_block b = [] then b
      else
        let block = with_crc (sb_block b @ concat (map put_u32 (sb_restarts b))
              @ put_u32 (of_nat (length (sb_restarts b))))
        in b\<lparr>sb_out := sb_out b @ block,
             sb_index := sb_index b @ [\<lparr>ie_first_key = sb_first_key b, ie_offset = sb_offset b,
                                        ie_size = of_nat (length block)\<rparr>],
             sb_offset := sb_offset b + of_nat (length block),
             sb_block := [], sb_restarts := [], sb_block_entries := 0\<rparr>)"

definition add_entry :: "config \<Rightarrow> bytes \<times> mem_entry \<Rightarrow> sst_builder \<Rightarrow> sst_builder" where
  "add_entry cfg = (\<lambda>(key, e) b.
     let b1 = (if sb_block b = [] then b\<lparr>sb_first_key := key\<rparr> else b);
         b2 = (if sb_block_entries b1 mod restart_interval cfg = 0
               then b1\<lparr>sb_restarts := sb_restarts b1 @ [of_nat (length (sb_block b1))]\<rparr> else b1);
         b3 = b2\<lparr>sb_block := sb_block b2 @ encode_entry (key, e),
                 sb_block_entries := sb_block_entries b2 + 1,
                 sb_bloom := bloom_add key (sb_bloom b2),
                 sb_max_key := key,
                 sb_min_seqno := min (sb_min_seqno b2) (me_seqno e),
                 sb_max_seqno := max (sb_max_seqno b2) (me_seqno e)\<rparr>
     in if unat (block_size cfg) \<le> length (sb_block b3) then finish_block b3 else b3)"

definition builder_new :: "bloom \<Rightarrow> sst_builder" where
  "builder_new bl = \<lparr>sb_out = [], sb_index = [], sb_block = [], sb_restarts = [], sb_first_key = [],
     sb_block_entries = 0, sb_offset = 0, sb_bloom = bl, sb_max_key = [],
     sb_min_seqno = - 1, sb_max_seqno = 0\<rparr>"

record sst_build_result =
  br_id :: u64
  br_file_name :: string
  br_file_size :: u64
  br_min_key :: bytes
  br_max_key :: bytes
  br_min_seqno :: u64
  br_max_seqno :: u64
  br_entries :: u64
  br_bloom_bits_per_key :: rat
  br_bloom_hashes :: u32

definition encode_filter :: "bloom \<Rightarrow> u64 \<Rightarrow> bytes" where
  "encode_filter bl keys = with_crc (put_u64 (bl_num_bits bl) @ put_u32 (bl_num_hashes bl)
     @ put_u64 keys @ bl_bits bl)"

definition encode_footer :: "u64 \<Rightarrow> u64 \<Rightarrow> u64 \<Rightarrow> u64 \<Rightarrow> bytes" where
  "encode_footer index_off index_size filter_off filter_size =
     put_u64 index_off @ put_u64 index_size @ put_u64 filter_off @ put_u64 filter_size
     @ put_u32 sst_version @ put_u32 sst_magic"

text \<open>The bytes of the file and the result, once the arguments are accepted.\<close>

definition encode_sstable :: "bloom_shape \<Rightarrow> u64 \<Rightarrow> memtable \<Rightarrow> config \<Rightarrow> bytes \<times> sst_build_result" where
  "encode_sstable shape sid mem cfg =
     (let (wanted, hashes, per_key) = shape (memtable_entries mem) (bloom_false_positive cfg);
          b = finish_block (fold (add_entry cfg) (sorted_entries mem) (builder_new (bloom_new wanted hashes)));
          index_off = sb_offset b;
          index_block = with_crc (concat (map encode_index_entry (sb_index b)));
          filter_off = index_off + of_nat (length index_block);
          filter_block = encode_filter (sb_bloom b) (memtable_entries mem);
          footer = encode_footer index_off (of_nat (length index_block)) filter_off
                     (of_nat (length filter_block));
          file = sb_out b @ index_block @ filter_block @ footer
      in (file, \<lparr>br_id = sid, br_file_name = sst_file_name sid,
                 br_file_size = filter_off + of_nat (length filter_block) + of_nat (length footer),
                 br_min_key = fst (hd (sorted_entries mem)), br_max_key = sb_max_key b,
                 br_min_seqno = sb_min_seqno b, br_max_seqno = sb_max_seqno b,
                 br_entries = memtable_entries mem, br_bloom_bits_per_key = per_key,
                 br_bloom_hashes = bl_num_hashes (sb_bloom b)\<rparr>))"

text \<open>What the operating system answers: to \<open>fopen\<close>, to the writes, to the fsync, to the rename.\<close>

record sst_io =
  so_create :: bool
  so_write :: bool
  so_sync :: bool
  so_rename :: bool

definition sst_good :: sst_io where
  "sst_good = \<lparr>so_create = True, so_write = True, so_sync = True, so_rename = True\<rparr>"

definition tmp_name :: "string \<Rightarrow> string" where
  "tmp_name name = name @ ''.tmp''"

text \<open>Any failure behind the \<open>fopen\<close> removes the temporary file and throws \<open>IOFailure\<close>.  A
  restart interval of zero is a division by zero.\<close>

definition write_sstable ::
  "sst_io \<Rightarrow> bloom_shape \<Rightarrow> u64 \<Rightarrow> memtable \<Rightarrow> config \<Rightarrow> sst_dir \<Rightarrow> sst_build_result result \<times> sst_dir" where
  "write_sstable io shape sid mem cfg dir =
     (if memtable_entries mem = 0 then (Inl (Thrown InvalidArgument), dir)
      else if \<not> so_create io then (Inl (Thrown IOFailure), dir)
      else if restart_interval cfg = 0
      then (Inl Undefined, map_assign (tmp_name (sst_file_name sid)) [] dir)
      else
        let (file, res) = encode_sstable shape sid mem cfg;
            tmp = tmp_name (sst_file_name sid)
        in if so_write io \<and> so_sync io \<and> so_rename io
           then (Inr res, map_assign (sst_file_name sid) file (map_erase tmp dir))
           else (Inl (Thrown IOFailure), map_erase tmp dir))"

section \<open>Reading ranges of a file\<close>

text \<open>
  A buffer of the given size, filled from the given offset.  \<open>std::vector\<close> refuses sizes above
  \<open>PTRDIFF_MAX\<close> with \<open>std::length_error\<close>; smaller allocations are taken to succeed.  The
  offset is cast to \<open>long\<close>; \<open>fseek\<close> fails on a negative one.
\<close>

definition read_range :: "bytes \<Rightarrow> u64 \<Rightarrow> u64 \<Rightarrow> bytes result" where
  "read_range file off n =
     (if 2 ^ 63 \<le> unat n then Inl Escaped
      else if 2 ^ 63 \<le> unat off \<or> length (bytes_at (unat off) (unat n) file) \<noteq> unat n
      then Inl (Thrown CorruptionDetected)
      else Inr (bytes_at (unat off) (unat n) file))"

text \<open>Whether a block is its contents and their checksum.\<close>

definition crc_ok :: "bytes \<Rightarrow> bool" where
  "crc_ok b \<longleftrightarrow> crc32 (take (length b - 4) b) = get_u32 (drop (length b - 4) b)"

definition footer_at :: "bytes \<Rightarrow> bytes" where
  "footer_at file = drop (length file - kFooterSize) file"

record footer =
  fo_version :: u32
  fo_index_off :: u64
  fo_index_size :: u64
  fo_filter_off :: u64
  fo_filter_size :: u64

definition parse_footer :: "bytes \<Rightarrow> footer" where
  "parse_footer ft = \<lparr>fo_version = get_u32 (drop 32 ft), fo_index_off = get_u64 ft,
     fo_index_size = get_u64 (drop 8 ft), fo_filter_off = get_u64 (drop 16 ft),
     fo_filter_size = get_u64 (drop 24 ft)\<rparr>"

text \<open>The range checks are on 64-bit sums, which wrap.\<close>

definition footer_in_range :: "bytes \<Rightarrow> footer \<Rightarrow> u64 \<Rightarrow> bool" where
  "footer_in_range file ft min_filter \<longleftrightarrow>
     \<not> (fo_index_off ft + fo_index_size ft > of_nat (length file)
        \<or> fo_filter_off ft + fo_filter_size ft > of_nat (length file)
        \<or> fo_index_size ft < 4 \<or> fo_filter_size ft < min_filter)"

section \<open>Walking the index\<close>

text \<open>The loop over the entries of an index block, without its checksum.\<close>

function walk_index :: "bytes \<Rightarrow> index_entry list result" where
  "walk_index b =
     (if b = [] then Inr []
      else if length b < 4 then Inl (Thrown CorruptionDetected)
      else
        let key_len = unat (get_u32 b) in
        if length b < 4 + key_len + 12 then Inl (Thrown CorruptionDetected)
        else and_then (walk_index (drop (4 + key_len + 12) b))
               (\<lambda>es. Inr (\<lparr>ie_first_key = bytes_at 4 key_len b,
                            ie_offset = get_u64 (drop (4 + key_len) b),
                            ie_size = get_u32 (drop (4 + key_len + 8) b)\<rparr> # es)))"
  by pat_completeness auto
termination by (relation "measure length") auto

declare walk_index.simps [simp del]

section \<open>Inspecting\<close>

record sst_info =
  si_file_size :: u64
  si_footer :: footer
  si_index :: "index_entry list"
  si_bloom_bits :: u64
  si_bloom_hashes :: u32
  si_bloom_keys :: u64

definition si_data_blocks :: "sst_info \<Rightarrow> u64" where
  "si_data_blocks i = of_nat (length (si_index i))"

text \<open>A minimum of 0 counts as not yet set.\<close>

definition si_block_min :: "sst_info \<Rightarrow> u32" where
  "si_block_min i = foldl (\<lambda>m e. if m = 0 then ie_size e else min m (ie_size e)) 0 (si_index i)"

definition si_block_max :: "sst_info \<Rightarrow> u32" where
  "si_block_max i = foldl (\<lambda>m e. max m (ie_size e)) 0 (si_index i)"

definition inspect_sstable :: "bytes \<Rightarrow> sst_info result" where
  "inspect_sstable file =
     (if length file < kFooterSize then Inl (Thrown CorruptionDetected)
      else
        let ft = parse_footer (footer_at file) in
        if get_u32 (drop 36 (footer_at file)) \<noteq> sst_magic \<or> \<not> footer_in_range file ft 24
        then Inl (Thrown CorruptionDetected)
        else
          and_then (read_range file (fo_index_off ft) (fo_index_size ft)) (\<lambda>index_block.
          if \<not> crc_ok index_block then Inl (Thrown CorruptionDetected)
          else
          and_then (walk_index (take (length index_block - 4) index_block)) (\<lambda>es.
          and_then (read_range file (fo_filter_off ft) (fo_filter_size ft)) (\<lambda>filter_block.
          if \<not> crc_ok filter_block then Inl (Thrown CorruptionDetected)
          else Inr \<lparr>si_file_size = of_nat (length file), si_footer = ft, si_index = es,
                     si_bloom_bits = get_u64 filter_block,
                     si_bloom_hashes = get_u32 (drop 8 filter_block),
                     si_bloom_keys = get_u64 (drop 12 filter_block)\<rparr>))))"

section \<open>Scanning\<close>

function scan_entries :: "bytes \<Rightarrow> (bytes \<times> mem_entry) list result" where
  "scan_entries b =
     (if b = [] then Inr []
      else if length b < kEntryHeader then Inl (Thrown CorruptionDetected)
      else
        let klen = unat (get_u32 b); vlen = unat (get_u32 (drop 4 b)) in
        if length b < kEntryHeader + klen + vlen then Inl (Thrown CorruptionDetected)
        else and_then (scan_entries (drop (kEntryHeader + klen + vlen) b))
               (\<lambda>es. Inr ((bytes_at kEntryHeader klen b,
                     \<lparr>me_value = bytes_at (kEntryHeader + klen) vlen b, me_seqno = get_u64 (drop 8 b),
                      me_tombstone = (b ! 16 AND kFlagTombstone \<noteq> 0)\<rparr>) # es)))"
  by pat_completeness auto
termination by (relation "measure length") (auto simp: kEntryHeader_def)

declare scan_entries.simps [simp del]

definition scan_block :: "bytes \<Rightarrow> (bytes \<times> mem_entry) list result" where
  "scan_block block =
     (if length block < 12 \<or> \<not> crc_ok block then Inl (Thrown CorruptionDetected)
      else
        let restart_count = unat (get_u32 (drop (length block - 8) block)) in
        if length block < 8 + 4 * restart_count then Inl (Thrown CorruptionDetected)
        else scan_entries (take (length block - 8 - 4 * restart_count) block))"

fun scan_blocks :: "bytes \<Rightarrow> index_entry list \<Rightarrow> (bytes \<times> mem_entry) list result" where
  "scan_blocks file [] = Inr []"
| "scan_blocks file (e # es) =
     and_then (read_range file (ie_offset e) (ucast (ie_size e))) (\<lambda>block.
     and_then (scan_block block) (\<lambda>kvs.
     and_then (scan_blocks file es) (\<lambda>rest. Inr (kvs @ rest))))"

text \<open>The entries the callback of \<open>scan_sstable\<close> sees, when it returns.\<close>

definition scan_sstable :: "bytes \<Rightarrow> (bytes \<times> mem_entry) list result" where
  "scan_sstable file = and_then (inspect_sstable file) (\<lambda>info. scan_blocks file (si_index info))"

section \<open>Verifying\<close>

datatype verdict =
    OK
  | TooSmall
  | BadMagic
  | UnsupportedVersion
  | OffsetsOutOfRange
  | CannotReadIndex
  | IndexChecksum
  | CannotReadFilter
  | FilterChecksum
  | TruncatedIndex
  | DataOffset u64
  | CannotReadData u64
  | DataChecksum u64

function verify_blocks :: "bytes \<Rightarrow> u64 \<Rightarrow> bytes \<Rightarrow> verdict" where
  "verify_blocks file index_off b =
     (if b = [] then OK
      else if length b < 4 then TruncatedIndex
      else
        let key_len = unat (get_u32 b) in
        if length b < 4 + key_len + 12 then TruncatedIndex
        else
          let block_off = get_u64 (drop (4 + key_len) b);
              len = get_u32 (drop (4 + key_len + 8) b)
          in if block_off + ucast len > index_off \<or> len < 4 then DataOffset block_off
             else
               case read_range file block_off (ucast len) of
                 Inl _ \<Rightarrow> CannotReadData block_off
               | Inr block \<Rightarrow>
                   if \<not> crc_ok block then DataChecksum block_off
                   else verify_blocks file index_off (drop (4 + key_len + 12) b))"
  by pat_completeness auto
termination by (relation "measure (\<lambda>(_, _, b). length b)") auto

declare verify_blocks.simps [simp del]

definition verify_sstable :: "bytes \<Rightarrow> verdict result" where
  "verify_sstable file =
     (if length file < kFooterSize then Inr TooSmall
      else
        let ft = parse_footer (footer_at file) in
        if get_u32 (drop 36 (footer_at file)) \<noteq> sst_magic then Inr BadMagic
        else if fo_version ft \<noteq> sst_version then Inr UnsupportedVersion
        else if \<not> footer_in_range file ft 4 then Inr OffsetsOutOfRange
        else
          case read_range file (fo_index_off ft) (fo_index_size ft) of
            Inl Escaped \<Rightarrow> Inl Escaped
          | Inl _ \<Rightarrow> Inr CannotReadIndex
          | Inr index_block \<Rightarrow>
              if \<not> crc_ok index_block then Inr IndexChecksum
              else
                (case read_range file (fo_filter_off ft) (fo_filter_size ft) of
                   Inl Escaped \<Rightarrow> Inl Escaped
                 | Inl _ \<Rightarrow> Inr CannotReadFilter
                 | Inr filter_block \<Rightarrow>
                     if \<not> crc_ok filter_block then Inr FilterChecksum
                     else Inr (verify_blocks file (fo_index_off ft)
                                 (take (length index_block - 4) index_block))))"

end
