(* ===== verification/Manifest.thy ===== *)
theory Manifest
  imports Sstable "HOL-Library.Multiset"
begin

text \<open>
  The manifest of \<open>include/lsm/manifest.hpp\<close> and \<open>src/manifest.cpp\<close>: which tables are live,
  newest first, the next table id and the epoch.  The JSON library is the parameter
  \<open>json_api\<close>: the text it writes for a document, or none when it throws (a key that is not
  UTF-8), and the document it reads from a text, or none when it throws.  The manifest file is replaced atomically by a rename.
\<close>

section \<open>State\<close>

record table_meta =
  tm_id :: u64
  tm_file_name :: string
  tm_min_key :: bytes
  tm_max_key :: bytes
  tm_min_seqno :: u64
  tm_max_seqno :: u64
  tm_created_at :: string
  tm_file_size :: u64
  tm_entries :: u64
  tm_bloom_bits_per_key :: rat
  tm_bloom_hashes :: u32

record manifest =
  mf_next_sst_id :: u64
  mf_epoch :: u64
  mf_tables :: "table_meta list"

record json_api =
  ja_dump :: "manifest \<Rightarrow> bytes option"
  ja_parse :: "bytes \<Rightarrow> manifest option"

text \<open>What the manifest relies on: a document it wrote is read back.\<close>

definition json_roundtrip :: "json_api \<Rightarrow> bool" where
  "json_roundtrip api \<longleftrightarrow> (\<forall>m t. ja_dump api m = Some t \<longrightarrow> ja_parse api t = Some m)"

definition manifest_new :: manifest where
  "manifest_new = \<lparr>mf_next_sst_id = 1, mf_epoch = 0, mf_tables = []\<rparr>"

definition meta_of :: "sst_build_result \<Rightarrow> string \<Rightarrow> table_meta" where
  "meta_of r now = \<lparr>tm_id = br_id r, tm_file_name = br_file_name r, tm_min_key = br_min_key r,
     tm_max_key = br_max_key r, tm_min_seqno = br_min_seqno r, tm_max_seqno = br_max_seqno r,
     tm_created_at = now, tm_file_size = br_file_size r, tm_entries = br_entries r,
     tm_bloom_bits_per_key = br_bloom_bits_per_key r, tm_bloom_hashes = br_bloom_hashes r\<rparr>"

section \<open>Operations\<close>

text \<open>\<open>std::sort\<close> by descending \<open>max_seqno\<close>.  It leaves the order of equal keys open; here they
  keep theirs.\<close>

definition newest_first :: "table_meta list \<Rightarrow> table_meta list" where
  "newest_first = sort_key (\<lambda>t. - uint (tm_max_seqno t))"

text \<open>\<open>open_ok\<close>: whether an existing file can be opened.\<close>

definition load_or_create :: "json_api \<Rightarrow> bool \<Rightarrow> bytes option \<Rightarrow> manifest result" where
  "load_or_create api open_ok file =
     (case file of
        None \<Rightarrow> Inr manifest_new
      | Some text \<Rightarrow>
          if \<not> open_ok then Inl (Thrown IOFailure)
          else
            case ja_parse api text of
              None \<Rightarrow> Inl (Thrown CorruptionDetected)
            | Some m \<Rightarrow>
                let tables = newest_first (mf_tables m)
                in Inr (m\<lparr>mf_tables := tables,
                         mf_next_sst_id := fold (\<lambda>t n. max n (tm_id t + 1)) tables (mf_next_sst_id m)\<rparr>))"

record mf_io =
  mo_create :: bool
  mo_write :: bool
  mo_rename :: bool

definition mf_good :: mf_io where
  "mf_good = \<lparr>mo_create = True, mo_write = True, mo_rename = True\<rparr>"

text \<open>\<open>Manifest::save\<close>: the file afterwards, if it does not throw.\<close>

definition manifest_save :: "json_api \<Rightarrow> mf_io \<Rightarrow> manifest \<Rightarrow> bytes option \<Rightarrow> unit result \<times> bytes option" where
  "manifest_save api io m file =
     (case ja_dump api m of
        None \<Rightarrow> (Inl Escaped, file)
      | Some t \<Rightarrow>
          if mo_create io \<and> mo_write io \<and> mo_rename io then (Inr (), Some t)
          else (Inl (Thrown IOFailure), file))"

text \<open>The edits change the object first and save it then; a failed save leaves the object changed
  and the file as it was.\<close>

definition add_table :: "json_api \<Rightarrow> mf_io \<Rightarrow> table_meta \<Rightarrow> manifest \<times> bytes option \<Rightarrow>
    unit result \<times> manifest \<times> bytes option" where
  "add_table api io meta = (\<lambda>(m, file).
     let m1 = m\<lparr>mf_tables := meta # mf_tables m,
                mf_next_sst_id := max (mf_next_sst_id m) (tm_id meta + 1),
                mf_epoch := mf_epoch m + 1\<rparr>;
         (r, file1) = manifest_save api io m1 file
     in (r, m1, file1))"

definition apply_compaction :: "json_api \<Rightarrow> mf_io \<Rightarrow> u64 list \<Rightarrow> table_meta option \<Rightarrow>
    manifest \<times> bytes option \<Rightarrow> unit result \<times> manifest \<times> bytes option" where
  "apply_compaction api io removed added = (\<lambda>(m, file).
     let kept = filter (\<lambda>t. tm_id t \<notin> set removed) (mf_tables m);
         (tables, next_id) = (case added of
             None \<Rightarrow> (kept, mf_next_sst_id m)
           | Some a \<Rightarrow> (kept @ [a], max (mf_next_sst_id m) (tm_id a + 1)));
         m1 = m\<lparr>mf_tables := newest_first tables, mf_next_sst_id := next_id,
                mf_epoch := mf_epoch m + 1\<rparr>;
         (r, file1) = manifest_save api io m1 file
     in (r, m1, file1))"

definition manifest_max_seqno :: "manifest \<Rightarrow> u64" where
  "manifest_max_seqno m = fold (\<lambda>t v. max v (tm_max_seqno t)) (mf_tables m) 0"

definition total_bytes :: "manifest \<Rightarrow> u64" where
  "total_bytes m = fold (\<lambda>t v. v + tm_file_size t) (mf_tables m) 0"

section \<open>Well-formed manifests\<close>

text \<open>Live tables have distinct ids below the next one, and their sequence-number ranges descend:
  a table is entirely newer than every table behind it.\<close>

definition ranges_descend :: "table_meta list \<Rightarrow> bool" where
  "ranges_descend ts \<longleftrightarrow> sorted_wrt (\<lambda>t u. tm_max_seqno u < tm_min_seqno t) ts \<and>
     (\<forall>t \<in> set ts. tm_min_seqno t \<le> tm_max_seqno t)"

definition ids_ok :: "manifest \<Rightarrow> bool" where
  "ids_ok m \<longleftrightarrow> distinct (map tm_id (mf_tables m)) \<and> (\<forall>t \<in> set (mf_tables m). tm_id t < mf_next_sst_id m)"

lemma set_newest_first [simp]: "set (newest_first ts) = set ts"
  by (simp add: newest_first_def)

lemma mset_newest_first [simp]: "mset (newest_first ts) = mset ts"
  by (simp add: newest_first_def)

lemma newest_first_sorted:
  "sorted_wrt (\<lambda>t u. tm_max_seqno u \<le> tm_max_seqno t) (newest_first ts)"
proof -
  have "sorted (map (\<lambda>t. - uint (tm_max_seqno t)) (newest_first ts))"
    by (simp add: newest_first_def)
  then show ?thesis by (simp add: sorted_map word_le_def)
qed

lemma newest_first_id:
  "sorted_wrt (\<lambda>t u. tm_max_seqno u \<le> tm_max_seqno t) ts \<Longrightarrow> newest_first ts = ts"
  unfolding newest_first_def by (rule sort_key_id_if_sorted) (simp add: sorted_map word_le_def)

lemma ranges_descend_sorted:
  assumes "ranges_descend ts"
  shows "sorted_wrt (\<lambda>t u. tm_max_seqno u \<le> tm_max_seqno t) ts"
proof (rule sorted_wrt_mono_rel [of _ "\<lambda>t u. tm_max_seqno u < tm_min_seqno t"])
  show "sorted_wrt (\<lambda>t u. tm_max_seqno u < tm_min_seqno t) ts"
    using assms by (simp add: ranges_descend_def)
qed (use assms in \<open>force simp: ranges_descend_def\<close>)

lemma ranges_descend_append:
  "ranges_descend (ts @ us) \<longleftrightarrow> ranges_descend ts \<and> ranges_descend us \<and>
     (\<forall>t \<in> set ts. \<forall>u \<in> set us. tm_max_seqno u < tm_min_seqno t)"
  by (auto simp: ranges_descend_def sorted_wrt_append)

lemma ranges_descend_Cons:
  "ranges_descend (t # ts) \<longleftrightarrow> tm_min_seqno t \<le> tm_max_seqno t \<and> ranges_descend ts \<and>
     (\<forall>u \<in> set ts. tm_max_seqno u < tm_min_seqno t)"
  by (auto simp: ranges_descend_def)

text \<open>A window replaced by one table whose range lies inside the window's.\<close>

lemma ranges_descend_replace:
  assumes desc: "ranges_descend (ts @ ws @ us)"
    and lo: "w \<in> set ws" "tm_min_seqno w \<le> tm_min_seqno a"
    and hi: "v \<in> set ws" "tm_max_seqno a \<le> tm_max_seqno v" and a: "tm_min_seqno a \<le> tm_max_seqno a"
  shows "ranges_descend (ts @ a # us)"
proof -
  have D: "ranges_descend ts" "ranges_descend us"
    "\<And>t x. t \<in> set ts \<Longrightarrow> x \<in> set ws \<union> set us \<Longrightarrow> tm_max_seqno x < tm_min_seqno t"
    "\<And>x u. x \<in> set ws \<Longrightarrow> u \<in> set us \<Longrightarrow> tm_max_seqno u < tm_min_seqno x"
    using desc by (auto simp: ranges_descend_append)
  have "tm_max_seqno a < tm_min_seqno t" if "t \<in> set ts" for t
    using D(3) [OF that, of v] hi by (auto intro: le_less_trans)
  moreover have "tm_max_seqno u < tm_min_seqno a" if "u \<in> set us" for u
    using D(4) [OF lo(1) that] lo(2) by (rule less_le_trans)
  ultimately show ?thesis
    using D(1,2,3) a by (auto simp: ranges_descend_append ranges_descend_Cons)
qed

lemma ranges_descend_distinct: "ranges_descend ts \<Longrightarrow> distinct (map tm_max_seqno ts)"
proof (induction ts)
  case Nil
  then show ?case by simp
next
  case (Cons t ts)
  then have "tm_max_seqno t \<noteq> tm_max_seqno u" if "u \<in> set ts" for u
    using that by (auto simp: ranges_descend_Cons dest!: bspec)
  with Cons show ?case by (auto simp: ranges_descend_Cons)
qed

text \<open>Sorting puts the output of a compaction where its inputs were.\<close>

lemma newest_first_replace:
  assumes "ranges_descend (ts @ a # us)"
  shows "newest_first (ts @ us @ [a]) = ts @ a # us"
proof -
  let ?key = "\<lambda>t. - uint (tm_max_seqno t)"
  have "distinct (map tm_max_seqno (ts @ a # us))"
    using assms by (rule ranges_descend_distinct)
  then have "inj_on tm_max_seqno (set (ts @ a # us))" unfolding distinct_map by blast
  then have "inj_on ?key (set (ts @ a # us))"
    unfolding inj_on_def by (simp only: neg_equal_iff_equal word_uint_eq_iff [symmetric])
  then have "inj_on ?key (set (ts @ us @ [a]))" by (simp add: insert_commute)
  moreover have "mset (ts @ us @ [a]) = mset (ts @ a # us)" by simp
  moreover have "sorted (map ?key (ts @ a # us))"
    using ranges_descend_sorted [OF assms] by (simp add: sorted_map word_le_def del: list.map map_append)
  ultimately show ?thesis
    unfolding newest_first_def by (intro sort_key_inj_key_eq)
qed

end
