(* ===== verification/Table_Reader.thy ===== *)
theory Table_Reader
  imports Manifest
begin

text \<open>
  The read side of one table: \<open>include/lsm/table_reader.hpp\<close> and \<open>src/table_reader.cpp\<close>.  The
  block cache and the pool of open files are shared by all readers; a lookup threads them,
  the reader's own lazily loaded parts and the counters through its steps.  The internal
  mutexes make each step of cache and pool atomic.
\<close>

section \<open>The block cache\<close>

type_synonym block_key = "u64 \<times> u64"

text \<open>\<open>map_\<close> is the index of \<open>lru_\<close> by key; the front of the list is the most recent block.\<close>

record block_cache =
  bc_lru :: "(block_key \<times> bytes) list"
  bc_capacity :: u64
  bc_used :: u64

definition cache_new :: "u64 \<Rightarrow> block_cache" where
  "cache_new capacity = \<lparr>bc_lru = [], bc_capacity = capacity, bc_used = 0\<rparr>"

definition cache_find :: "u64 \<Rightarrow> u64 \<Rightarrow> block_cache \<Rightarrow> bytes option \<times> block_cache" where
  "cache_find table off c =
     (case map_of (bc_lru c) (table, off) of
        None \<Rightarrow> (None, c)
      | Some block \<Rightarrow>
          (Some block, c\<lparr>bc_lru := ((table, off), block) # filter (\<lambda>p. fst p \<noteq> (table, off)) (bc_lru c)\<rparr>))"

function cache_evict :: "block_cache \<Rightarrow> block_cache" where
  "cache_evict c =
     (if bc_used c > bc_capacity c \<and> bc_lru c \<noteq> []
      then cache_evict (c\<lparr>bc_used := bc_used c - of_nat (length (snd (last (bc_lru c)))),
                          bc_lru := butlast (bc_lru c)\<rparr>)
      else c)"
  by pat_completeness auto
termination by (relation "measure (\<lambda>c. length (bc_lru c))") auto

declare cache_evict.simps [simp del]

definition cache_insert :: "u64 \<Rightarrow> u64 \<Rightarrow> bytes \<Rightarrow> block_cache \<Rightarrow> block_cache" where
  "cache_insert table off block c =
     (if map_of (bc_lru c) (table, off) \<noteq> None then c
      else cache_evict (c\<lparr>bc_used := bc_used c + of_nat (length block),
                          bc_lru := ((table, off), block) # bc_lru c\<rparr>))"

section \<open>The pool of open files\<close>

text \<open>Readers are named by their table id.  \<open>busy\<close> tells whose lock another thread holds.\<close>

record fd_pool =
  fp_max_open :: u32
  fp_lru :: "u64 list"

definition fd_pool_new :: "u32 \<Rightarrow> fd_pool" where
  "fd_pool_new max_open = \<lparr>fp_max_open = (if max_open = 0 then 1 else max_open), fp_lru = []\<rparr>"

text \<open>The result: the readers whose files were closed, and the pool.\<close>

definition fd_on_open :: "(u64 \<Rightarrow> bool) \<Rightarrow> u64 \<Rightarrow> fd_pool \<Rightarrow> u64 list \<times> fd_pool" where
  "fd_on_open busy r p =
     (let lru = r # fp_lru p;
          victims = rev (drop (unat (fp_max_open p)) lru)
      in (filter (\<lambda>v. \<not> busy v) victims,
          p\<lparr>fp_lru := take (unat (fp_max_open p)) lru @ filter busy victims\<rparr>))"

definition fd_touch :: "u64 \<Rightarrow> fd_pool \<Rightarrow> fd_pool" where
  "fd_touch r p = (if r \<in> set (fp_lru p) then p\<lparr>fp_lru := r # remove1 r (fp_lru p)\<rparr> else p)"

definition fd_on_close :: "u64 \<Rightarrow> fd_pool \<Rightarrow> fd_pool" where
  "fd_on_close r p = p\<lparr>fp_lru := filter (\<lambda>x. x \<noteq> r) (fp_lru p)\<rparr>"

definition fd_open_count :: "fd_pool \<Rightarrow> nat" where
  "fd_open_count p = length (fp_lru p)"

section \<open>Counters\<close>

record read_stats =
  rs_reads_total :: u64
  rs_hit_memtable_total :: u64
  rs_sstables_consulted_total :: u64
  rs_blooms_checked :: u64
  rs_blooms_negative :: u64
  rs_cache_hits :: u64
  rs_cache_misses :: u64
  rs_disk_block_reads :: u64

record get_trace =
  gt_memtable_hit :: bool
  gt_immutables_consulted :: u32
  gt_sstables_consulted :: u32
  gt_range_skipped :: u32
  gt_blooms_skipped :: u32
  gt_block_reads :: u32
  gt_cache_hits :: u32

definition no_stats :: read_stats where
  "no_stats = \<lparr>rs_reads_total = 0, rs_hit_memtable_total = 0, rs_sstables_consulted_total = 0,
     rs_blooms_checked = 0, rs_blooms_negative = 0, rs_cache_hits = 0, rs_cache_misses = 0,
     rs_disk_block_reads = 0\<rparr>"

definition no_trace :: get_trace where
  "no_trace = \<lparr>gt_memtable_hit = False, gt_immutables_consulted = 0, gt_sstables_consulted = 0,
     gt_range_skipped = 0, gt_blooms_skipped = 0, gt_block_reads = 0, gt_cache_hits = 0\<rparr>"

section \<open>Loading the parts of a file\<close>

definition load_footer :: "bytes \<Rightarrow> footer result" where
  "load_footer file =
     (if length file < kFooterSize then Inl (Thrown CorruptionDetected)
      else
        and_then (read_range file (of_nat (length file) - of_nat kFooterSize) (of_nat kFooterSize)) (\<lambda>ft.
        if get_u32 (drop 36 ft) \<noteq> sst_magic \<or> get_u32 (drop 32 ft) \<noteq> sst_version
           \<or> \<not> footer_in_range file (parse_footer ft) 24
        then Inl (Thrown CorruptionDetected)
        else Inr (parse_footer ft)))"

definition load_index :: "bytes \<Rightarrow> footer \<Rightarrow> index_entry list result" where
  "load_index file ft =
     and_then (read_range file (fo_index_off ft) (fo_index_size ft)) (\<lambda>block.
     if \<not> crc_ok block then Inl (Thrown CorruptionDetected)
     else walk_index (take (length block - 4) block))"

text \<open>The bit array, the number of bits and the number of hashes.\<close>

definition load_bloom :: "bytes \<Rightarrow> footer \<Rightarrow> (bytes \<times> u64 \<times> u32) result" where
  "load_bloom file ft =
     and_then (read_range file (fo_filter_off ft) (fo_filter_size ft)) (\<lambda>block.
     if \<not> crc_ok block then Inl (Thrown CorruptionDetected)
     else
       let num_bits = get_u64 block; num_hashes = get_u32 (drop 8 block);
           bit_bytes = (num_bits + 7) div 8
       in if num_bits = 0 \<or> num_hashes = 0 \<or> 20 + bit_bytes + 4 \<noteq> fo_filter_size ft
          then Inl (Thrown CorruptionDetected)
          else Inr (bytes_at 20 (unat bit_bytes) block, num_bits, num_hashes))"

text \<open>\<open>std::upper_bound\<close> over an index sorted by first key, and one step back.\<close>

definition index_find :: "index_entry list \<Rightarrow> bytes \<Rightarrow> index_entry option" where
  "index_find es key =
     (let n = length (takeWhile (\<lambda>e. \<not> key < ie_first_key e) es)
      in if n = 0 then None else Some (es ! (n - 1)))"

section \<open>Searching a block\<close>

record table_hit =
  th_value :: bytes
  th_seqno :: u64
  th_tombstone :: bool

text \<open>\<open>key_at(off) <= key\<close>: the length is read from the block unchecked, and the comparison
  touches as many bytes as the shorter of the two keys has.\<close>

definition key_at_le :: "bytes \<Rightarrow> nat \<Rightarrow> bytes \<Rightarrow> bool result" where
  "key_at_le block off key =
     (if length block < off + 4 then Inl Undefined
      else
        let klen = unat (get_u32 (drop off block)); m = min klen (length key) in
        if length block < off + kEntryHeader + m then Inl Undefined
        else
          let pre = bytes_at (off + kEntryHeader) m block
          in Inr (pre < take m key \<or> pre = take m key \<and> klen \<le> length key))"

function restart_search :: "bytes \<Rightarrow> nat \<Rightarrow> bytes \<Rightarrow> nat \<Rightarrow> nat \<Rightarrow> nat result" where
  "restart_search block restarts_off key lo hi =
     (if hi - lo > 1 then
        let mid = lo + (hi - lo) div 2;
            off = unat (get_u32 (drop (restarts_off + 4 * mid) block))
        in and_then (key_at_le block off key) (\<lambda>le.
             if le then restart_search block restarts_off key mid hi
             else restart_search block restarts_off key lo mid)
      else Inr lo)"
  by pat_completeness auto
termination by (relation "measure (\<lambda>(_, _, _, lo, hi). hi - lo)") auto

declare restart_search.simps [simp del]

function find_entry :: "bytes \<Rightarrow> nat \<Rightarrow> bytes \<Rightarrow> nat \<Rightarrow> table_hit option result" where
  "find_entry block entries_end key pos =
     (if pos < entries_end then
        if entries_end < pos + kEntryHeader then Inl (Thrown CorruptionDetected)
        else
          let klen = unat (get_u32 (drop pos block)); vlen = unat (get_u32 (drop (pos + 4) block)) in
          if entries_end < pos + kEntryHeader + klen + vlen then Inl (Thrown CorruptionDetected)
          else
            let entry_key = bytes_at (pos + kEntryHeader) klen block in
            if entry_key = key
            then Inr (Some \<lparr>th_value = bytes_at (pos + kEntryHeader + klen) vlen block,
                            th_seqno = get_u64 (drop (pos + 8) block),
                            th_tombstone = (block ! (pos + 16) AND kFlagTombstone \<noteq> 0)\<rparr>)
            else if entry_key > key then Inr None
            else find_entry block entries_end key (pos + kEntryHeader + klen + vlen)
      else Inr None)"
  by pat_completeness auto
termination by (relation "measure (\<lambda>(_, e, _, pos). e - pos)") (auto simp: kEntryHeader_def)

declare find_entry.simps [simp del]

definition search_block :: "bytes \<Rightarrow> bytes \<Rightarrow> table_hit option result" where
  "search_block block key =
     (let restart_count = unat (get_u32 (drop (length block - 8) block)) in
      if restart_count = 0 \<or> length block < 8 + 4 * restart_count
      then Inl (Thrown CorruptionDetected)
      else
        let restarts_off = length block - 8 - 4 * restart_count in
        and_then (restart_search block restarts_off key 0 restart_count) (\<lambda>lo.
        find_entry block restarts_off key (unat (get_u32 (drop (restarts_off + 4 * lo) block)))))"

text \<open>A data block from disk, with its checks.\<close>

definition fetch_block :: "bytes \<Rightarrow> index_entry \<Rightarrow> bytes result" where
  "fetch_block file e =
     and_then (read_range file (ie_offset e) (ucast (ie_size e))) (\<lambda>raw.
     if ie_size e < 12 \<or> \<not> crc_ok raw then Inl (Thrown CorruptionDetected) else Inr raw)"

section \<open>The reader\<close>

record reader =
  rd_meta :: table_meta
  rd_file_open :: bool
  rd_footer :: "footer option"
  rd_index :: "index_entry list option"
  rd_bloom_bits :: bytes
  rd_bloom_num_bits :: u64
  rd_bloom_num_hashes :: u32

definition reader_new :: "table_meta \<Rightarrow> reader" where
  "reader_new meta = \<lparr>rd_meta = meta, rd_file_open = False, rd_footer = None, rd_index = None,
     rd_bloom_bits = [], rd_bloom_num_bits = 0, rd_bloom_num_hashes = 0\<rparr>"

definition close_file :: "reader \<Rightarrow> reader" where
  "close_file r = r\<lparr>rd_file_open := False\<rparr>"

text \<open>\<open>validate_footer\<close>: whether the file can be opened, and its bytes.\<close>

definition validate_footer :: "bool \<Rightarrow> bytes \<Rightarrow> reader \<Rightarrow> unit result \<times> reader" where
  "validate_footer open_ok file r =
     (if \<not> rd_file_open r \<and> \<not> open_ok then (Inl (Thrown IOFailure), r)
      else if rd_footer r \<noteq> None then (Inr (), r)
      else
        case load_footer file of
          Inl e \<Rightarrow> (Inl e, r)
        | Inr ft \<Rightarrow> (Inr (), r\<lparr>rd_footer := Some ft\<rparr>))"

text \<open>What a lookup threads through: this reader, the shared parts, the counters, and which
  other readers' files the pool closed.\<close>

record get_env =
  ge_reader :: reader
  ge_cache :: block_cache
  ge_fds :: fd_pool
  ge_stats :: read_stats
  ge_trace :: get_trace
  ge_closed :: "u64 list"

text \<open>\<open>TableReader::ensure_open\<close>.\<close>

definition reader_open :: "bool \<Rightarrow> bytes \<Rightarrow> (u64 \<Rightarrow> bool) \<Rightarrow> get_env \<Rightarrow> unit result \<times> get_env" where
  "reader_open open_ok file busy g =
     (let r = ge_reader g; tid = tm_id (rd_meta r) in
      if rd_file_open r then (Inr (), g\<lparr>ge_fds := fd_touch tid (ge_fds g)\<rparr>)
      else if \<not> open_ok then (Inl (Thrown IOFailure), g)
      else
        let (closed, fds) = fd_on_open busy tid (ge_fds g);
            g1 = g\<lparr>ge_reader := r\<lparr>rd_file_open := True\<rparr>, ge_fds := fds,
                   ge_closed := ge_closed g @ closed\<rparr>
        in if rd_footer r \<noteq> None then (Inr (), g1)
           else
             case load_footer file of
               Inl e \<Rightarrow> (Inl e, g1)
             | Inr ft \<Rightarrow> (Inr (), g1\<lparr>ge_reader := (ge_reader g1)\<lparr>rd_footer := Some ft\<rparr>\<rparr>))"

definition the_footer :: "reader \<Rightarrow> footer" where
  "the_footer r = (case rd_footer r of Some ft \<Rightarrow> ft
     | None \<Rightarrow> \<lparr>fo_version = 0, fo_index_off = 0, fo_index_size = 0, fo_filter_off = 0, fo_filter_size = 0\<rparr>)"

text \<open>The pinned filter, loaded when its bit array is empty, and its answer.\<close>

definition ask_bloom :: "bytes \<Rightarrow> bytes \<Rightarrow> get_env \<Rightarrow> bool result \<times> get_env" where
  "ask_bloom file key g =
     (let r = ge_reader g;
          loaded = (if rd_bloom_bits r = [] then load_bloom file (the_footer r)
                    else Inr (rd_bloom_bits r, rd_bloom_num_bits r, rd_bloom_num_hashes r))
      in case loaded of
           Inl e \<Rightarrow> (Inl e, g)
         | Inr (bits, num_bits, num_hashes) \<Rightarrow>
             let g1 = g\<lparr>ge_reader := r\<lparr>rd_bloom_bits := bits, rd_bloom_num_bits := num_bits,
                                       rd_bloom_num_hashes := num_hashes\<rparr>,
                        ge_stats := (ge_stats g)\<lparr>rs_blooms_checked := rs_blooms_checked (ge_stats g) + 1\<rparr>\<rparr>
             in case bloom_may_contain bits num_bits num_hashes key of
                  Inl e \<Rightarrow> (Inl e, g1)
                | Inr True \<Rightarrow> (Inr True, g1)
                | Inr False \<Rightarrow>
                    (Inr False,
                     g1\<lparr>ge_stats := (ge_stats g1)\<lparr>rs_blooms_negative := rs_blooms_negative (ge_stats g1) + 1\<rparr>,
                        ge_trace := (ge_trace g1)\<lparr>gt_blooms_skipped := gt_blooms_skipped (ge_trace g1) + 1\<rparr>\<rparr>))"

definition get_index :: "config \<Rightarrow> bytes \<Rightarrow> get_env \<Rightarrow> index_entry list result \<times> get_env" where
  "get_index cfg file g =
     (let r = ge_reader g in
      if cache_index_blocks cfg then
        case rd_index r of
          Some es \<Rightarrow> (Inr es, g)
        | None \<Rightarrow>
            (case load_index file (the_footer r) of
               Inl e \<Rightarrow> (Inl e, g)
             | Inr es \<Rightarrow> (Inr es, g\<lparr>ge_reader := r\<lparr>rd_index := Some es\<rparr>\<rparr>))
      else (load_index file (the_footer r), g))"

definition get_block :: "bytes \<Rightarrow> index_entry \<Rightarrow> get_env \<Rightarrow> bytes result \<times> get_env" where
  "get_block file e g =
     (let tid = tm_id (rd_meta (ge_reader g));
          (found, cache) = cache_find tid (ie_offset e) (ge_cache g);
          g1 = g\<lparr>ge_cache := cache\<rparr>
      in case found of
           Some block \<Rightarrow>
             (Inr block,
              g1\<lparr>ge_stats := (ge_stats g1)\<lparr>rs_cache_hits := rs_cache_hits (ge_stats g1) + 1\<rparr>,
                 ge_trace := (ge_trace g1)\<lparr>gt_cache_hits := gt_cache_hits (ge_trace g1) + 1\<rparr>\<rparr>)
         | None \<Rightarrow>
             let g2 = g1\<lparr>ge_stats := (ge_stats g1)\<lparr>rs_cache_misses := rs_cache_misses (ge_stats g1) + 1,
                             rs_disk_block_reads := rs_disk_block_reads (ge_stats g1) + 1\<rparr>,
                         ge_trace := (ge_trace g1)\<lparr>gt_block_reads := gt_block_reads (ge_trace g1) + 1\<rparr>\<rparr>
             in case fetch_block file e of
                  Inl err \<Rightarrow> (Inl err, g2)
                | Inr block \<Rightarrow>
                    (Inr block, g2\<lparr>ge_cache := cache_insert tid (ie_offset e) block (ge_cache g2)\<rparr>))"

text \<open>\<open>TableReader::get\<close>: the configuration, whether the file can be opened, the bytes of the file,
  which other readers are busy, the key.\<close>

definition table_get :: "config \<Rightarrow> bool \<Rightarrow> bytes \<Rightarrow> (u64 \<Rightarrow> bool) \<Rightarrow> bytes \<Rightarrow> get_env \<Rightarrow>
    table_hit option result \<times> get_env" where
  "table_get cfg open_ok file busy key g =
     (let meta = rd_meta (ge_reader g) in
      if key < tm_min_key meta \<or> key > tm_max_key meta
      then (Inr None, g\<lparr>ge_trace := (ge_trace g)\<lparr>gt_range_skipped := gt_range_skipped (ge_trace g) + 1\<rparr>\<rparr>)
      else
        bind_st (reader_open open_ok file busy g) (\<lambda>_ g1.
        bind_st (ask_bloom file key g1) (\<lambda>maybe g2.
        if \<not> maybe then (Inr None, g2)
        else
          bind_st (get_index cfg file g2) (\<lambda>es g3.
          case index_find es key of
            None \<Rightarrow> (Inr None, g3)
          | Some e \<Rightarrow> bind_st (get_block file e g3) (\<lambda>block g4. (search_block block key, g4))))))"

end
