(* ===== verification/Sstable_Format.thy ===== *)
theory Sstable_Format
  imports Sstable
begin

text \<open>
  The layout of a table file and what the readers make of it.  The entries of a table are
  cut into chunks; a block is a chunk's entries, its restart offsets, their number and a
  checksum.  The writer's loop produces such a file, and \<open>scan_sstable\<close>,
  \<open>inspect_sstable\<close> and \<open>verify_sstable\<close> read it back.
\<close>

section \<open>The layout\<close>

type_synonym entries = "(bytes \<times> mem_entry) list"

definition block_body :: "entries \<Rightarrow> bytes" where
  "block_body es = concat (map encode_entry es)"

definition restart_points :: "nat \<Rightarrow> entries \<Rightarrow> nat list" where
  "restart_points r es =
     map (\<lambda>i. length (block_body (take i es))) (filter (\<lambda>i. i mod r = 0) [0..<length es])"

definition block_trailer :: "u32 list \<Rightarrow> bytes" where
  "block_trailer rs = concat (map put_u32 rs) @ put_u32 (of_nat (length rs))"

definition encode_block :: "nat \<Rightarrow> entries \<Rightarrow> bytes" where
  "encode_block r es = with_crc (block_body es @ block_trailer (map of_nat (restart_points r es)))"

fun index_of :: "nat \<Rightarrow> nat \<Rightarrow> entries list \<Rightarrow> index_entry list" where
  "index_of r off [] = []"
| "index_of r off (c # cs) =
     \<lparr>ie_first_key = fst (hd c), ie_offset = of_nat off, ie_size = of_nat (length (encode_block r c))\<rparr>
     # index_of r (off + length (encode_block r c)) cs"

definition data_blocks :: "nat \<Rightarrow> entries list \<Rightarrow> bytes" where
  "data_blocks r cs = concat (map (encode_block r) cs)"

definition index_block :: "nat \<Rightarrow> entries list \<Rightarrow> bytes" where
  "index_block r cs = with_crc (concat (map encode_index_entry (index_of r 0 cs)))"

definition table_file :: "nat \<Rightarrow> entries list \<Rightarrow> bloom \<Rightarrow> u64 \<Rightarrow> bytes" where
  "table_file r cs bl n =
     data_blocks r cs @ index_block r cs @ encode_filter bl n @
     encode_footer (of_nat (length (data_blocks r cs))) (of_nat (length (index_block r cs)))
       (of_nat (length (data_blocks r cs) + length (index_block r cs)))
       (of_nat (length (encode_filter bl n)))"

definition entry_fits :: "bytes \<times> mem_entry \<Rightarrow> bool" where
  "entry_fits kv \<longleftrightarrow> length (fst kv) < 2 ^ 32 \<and> length (me_value (snd kv)) < 2 ^ 32"

definition chunk_ok :: "nat \<Rightarrow> entries \<Rightarrow> bool" where
  "chunk_ok r c \<longleftrightarrow> c \<noteq> [] \<and> length (encode_block r c) < 2 ^ 32 \<and> (\<forall>kv \<in> set c. entry_fits kv)"

lemma block_body_simps [simp]:
  "block_body [] = []" "block_body (kv # es) = encode_entry kv @ block_body es"
  "block_body (es @ es') = block_body es @ block_body es'"
  by (simp_all add: block_body_def)

lemma data_blocks_simps [simp]:
  "data_blocks r [] = []" "data_blocks r (c # cs) = encode_block r c @ data_blocks r cs"
  "data_blocks r (cs @ cs') = data_blocks r cs @ data_blocks r cs'"
  by (simp_all add: data_blocks_def)

lemma length_encode_entry [codec_simps]:
  "length (encode_entry (k, e)) = kEntryHeader + length k + length (me_value e)"
  by (simp add: encode_entry_def kEntryHeader_def)

lemma encode_entry_nonempty [simp]: "encode_entry kv \<noteq> []"
  by (cases kv) (simp add: encode_entry_def)

lemma block_body_Nil_iff [simp]: "block_body es = [] \<longleftrightarrow> es = []"
  by (cases es) auto

lemma length_with_crc [simp]: "length (with_crc b) = length b + 4"
  by (simp add: with_crc_def)

lemma crc_ok_with_crc [simp]: "crc_ok (with_crc b)"
  by (simp add: crc_ok_def with_crc_def)

lemma take_with_crc [simp]: "take (length b) (with_crc b) = b"
  by (simp add: with_crc_def)

lemma with_crc_nonempty [simp]: "with_crc b \<noteq> []"
  by (simp add: with_crc_def put_u32_def)

lemma restart_points_snoc:
  "restart_points r (es @ [kv]) = restart_points r es @
     (if length es mod r = 0 then [length (block_body es)] else [])"
  by (simp add: restart_points_def cong: filter_cong)

lemma length_restart_points: "length (restart_points r es) \<le> length es"
proof -
  have "length (filter (\<lambda>i. i mod r = 0) [0..<length es]) \<le> length [0..<length es]"
    by (rule length_filter_le)
  then show ?thesis by (simp add: restart_points_def)
qed

lemma length_block_trailer [simp]: "length (block_trailer rs) = 4 * length rs + 4"
  by (induction rs) (simp_all add: block_trailer_def)

lemma length_block_body_ge: "17 * length es \<le> length (block_body es)"
proof (induction es)
  case Nil
  then show ?case by simp
next
  case (Cons kv es)
  then show ?case by (cases kv) (simp add: length_encode_entry kEntryHeader_def)
qed

lemma length_encode_block:
  "length (encode_block r es) = length (block_body es) + 4 * length (restart_points r es) + 8"
  by (simp add: encode_block_def)

lemma index_of_append:
  "index_of r off (cs @ cs') = index_of r off cs @ index_of r (off + length (data_blocks r cs)) cs'"
  by (induction cs arbitrary: off) (simp_all add: add.assoc)

section \<open>The writer's loop\<close>

text \<open>Bounds of the writer's arguments under which a block's length fits its 32-bit field: a block
  is closed by the entry that reaches \<open>block_size\<close>.\<close>

definition entry_small :: "bytes \<times> mem_entry \<Rightarrow> bool" where
  "entry_small kv \<longleftrightarrow> length (encode_entry kv) \<le> 2 ^ 30"

definition builder_inv :: "config \<Rightarrow> sst_builder \<Rightarrow> entries list \<Rightarrow> entries \<Rightarrow> bool" where
  "builder_inv cfg b cs cur \<longleftrightarrow>
     (let r = unat (restart_interval cfg) in
      sb_out b = data_blocks r cs \<and> sb_index b = index_of r 0 cs \<and>
      sb_offset b = of_nat (length (data_blocks r cs)) \<and>
      sb_block b = block_body cur \<and> sb_restarts b = map of_nat (restart_points r cur) \<and>
      (cur \<noteq> [] \<longrightarrow> sb_first_key b = fst (hd cur)) \<and> sb_block_entries b = of_nat (length cur) \<and>
      length (block_body cur) \<le> 2 ^ 30 \<and> (\<forall>kv \<in> set cur. entry_small kv) \<and>
      (\<forall>c \<in> set cs. chunk_ok r c))"

lemma entry_small_fits: "entry_small kv \<Longrightarrow> entry_fits kv"
  by (cases kv) (simp add: entry_small_def entry_fits_def length_encode_entry)

lemma chunk_ok_small:
  assumes "c \<noteq> []" "length (block_body c) \<le> 2 ^ 31" "\<forall>kv \<in> set c. entry_small kv"
  shows "chunk_ok r c"
proof -
  have "length (restart_points r c) \<le> length c" by (rule length_restart_points)
  moreover have "17 * length c \<le> 2 ^ 31" using length_block_body_ge [of c] assms(2) by linarith
  ultimately have "length (encode_block r c) < 2 ^ 32"
    using assms(2) by (simp add: length_encode_block)
  then show ?thesis using assms entry_small_fits by (simp add: chunk_ok_def)
qed

lemma finish_block_inv:
  assumes inv: "sb_out b = data_blocks r cs" "sb_index b = index_of r 0 cs"
      "sb_offset b = of_nat (length (data_blocks r cs))" "sb_block b = block_body cur"
      "sb_restarts b = map of_nat (restart_points r cur)" "cur \<noteq> [] \<longrightarrow> sb_first_key b = fst (hd cur)"
      "\<forall>c \<in> set cs. chunk_ok r c"
    and r: "r = unat (restart_interval cfg)" and cur: "cur \<noteq> []"
    and fits: "length (block_body cur) \<le> 2 ^ 31" "\<forall>kv \<in> set cur. entry_small kv"
  shows "builder_inv cfg (finish_block b) (cs @ [cur]) []"
proof -
  have "with_crc (sb_block b @ concat (map put_u32 (sb_restarts b)) @ put_u32 (of_nat (length (sb_restarts b))))
      = encode_block r cur"
    by (simp add: inv encode_block_def block_trailer_def)
  moreover have "sb_block b \<noteq> []" using cur inv(4) by simp
  moreover have "chunk_ok r cur" using chunk_ok_small [OF cur fits] .
  ultimately show ?thesis
    using inv cur
    by (simp add: builder_inv_def finish_block_def Let_def index_of_append restart_points_def
        flip: r)
qed

lemma restart_test:
  assumes "n < 2 ^ 32"
  shows "(of_nat n :: u32) mod r = 0 \<longleftrightarrow> n mod unat r = 0"
proof -
  have "unat ((of_nat n :: u32) mod r) = n mod unat r"
    using assms by (simp add: unat_mod unat_of_nat_u32)
  then show ?thesis by (metis unat_eq_0)
qed

lemma add_entry_inv:
  assumes inv: "builder_inv cfg b cs cur" and small: "entry_small kv"
    and bs: "unat (block_size cfg) \<le> 2 ^ 30"
  shows "\<exists>cs' cur'. builder_inv cfg (add_entry cfg kv b) cs' cur' \<and>
    concat cs' @ cur' = concat cs @ cur @ [kv]"
proof -
  obtain key e where kv: "kv = (key, e)" by (cases kv)
  define r where "r = unat (restart_interval cfg)"
  note I = inv [unfolded builder_inv_def Let_def, folded r_def]
  define b3 where "b3 = b\<lparr>sb_first_key := (if cur = [] then key else sb_first_key b),
      sb_restarts := map of_nat (restart_points r (cur @ [kv])),
      sb_block := block_body (cur @ [kv]), sb_block_entries := of_nat (length (cur @ [kv])),
      sb_bloom := bloom_add key (sb_bloom b), sb_max_key := key,
      sb_min_seqno := min (sb_min_seqno b) (me_seqno e), sb_max_seqno := max (sb_max_seqno b) (me_seqno e)\<rparr>"
  have "17 * length cur \<le> 2 ^ 30" using length_block_body_ge [of cur] I by linarith
  then have len: "length cur < 2 ^ 32" by simp
  have add: "add_entry cfg kv b =
      (if unat (block_size cfg) \<le> length (sb_block b3) then finish_block b3 else b3)"
    using I restart_test [OF len, of "restart_interval cfg"]
    by (auto simp: add_entry_def kv b3_def Let_def restart_points_snoc r_def [symmetric]
        intro!: arg_cong [where f = finish_block] sst_builder.equality)
  have body: "length (block_body (cur @ [kv])) \<le> 2 ^ 31"
    using I small by (simp add: entry_small_def)
  show ?thesis
  proof (cases "unat (block_size cfg) \<le> length (sb_block b3)")
    case True
    have "builder_inv cfg (finish_block b3) (cs @ [cur @ [kv]]) []"
      by (rule finish_block_inv [OF _ _ _ _ _ _ _ r_def])
        (use I body small in \<open>auto simp: b3_def kv hd_append\<close>)
    then show ?thesis using True add by (intro exI [of _ "cs @ [cur @ [kv]]"] exI [of _ "[]"]) simp
  next
    case False
    have "builder_inv cfg b3 cs (cur @ [kv])"
      unfolding builder_inv_def Let_def r_def [symmetric]
      using I small False bs by (auto simp: b3_def kv hd_append)
    then show ?thesis using False add by (intro exI [of _ cs] exI [of _ "cur @ [kv]"]) simp
  qed
qed

lemma fold_add_entry_inv:
  assumes "builder_inv cfg b cs cur" and "\<forall>kv \<in> set es. entry_small kv"
    and "unat (block_size cfg) \<le> 2 ^ 30"
  shows "\<exists>cs' cur'. builder_inv cfg (fold (add_entry cfg) es b) cs' cur' \<and>
    concat cs' @ cur' = concat cs @ cur @ es"
  using assms
proof (induction es arbitrary: b cs cur)
  case Nil
  then show ?case by auto
next
  case (Cons kv es)
  obtain cs1 cur1 where 1: "builder_inv cfg (add_entry cfg kv b) cs1 cur1"
    "concat cs1 @ cur1 = concat cs @ cur @ [kv]"
    using add_entry_inv [OF Cons.prems(1) _ Cons.prems(3), of kv] Cons.prems(2) by auto
  have "\<forall>kv \<in> set es. entry_small kv" using Cons.prems(2) by simp
  from Cons.IH [OF 1(1) this Cons.prems(3)] obtain cs2 cur2 where
    "builder_inv cfg (fold (add_entry cfg) es (add_entry cfg kv b)) cs2 cur2"
    "concat cs2 @ cur2 = (concat cs1 @ cur1) @ es" by auto
  then show ?case by (intro exI [of _ cs2] exI [of _ cur2]) (simp add: 1(2))
qed

lemma write_loop_chunks:
  assumes "\<forall>kv \<in> set es. entry_small kv" and "unat (block_size cfg) \<le> 2 ^ 30"
  defines "r \<equiv> unat (restart_interval cfg)"
  shows "\<exists>cs. concat cs = es \<and> (\<forall>c \<in> set cs. chunk_ok r c) \<and>
    (let b = finish_block (fold (add_entry cfg) es (builder_new bl)) in
     sb_out b = data_blocks r cs \<and> sb_index b = index_of r 0 cs \<and>
     sb_offset b = of_nat (length (data_blocks r cs)))"
proof -
  have "builder_inv cfg (builder_new bl) [] []"
    by (simp add: builder_inv_def builder_new_def restart_points_def)
  from fold_add_entry_inv [OF this assms(1,2)]
  obtain cs cur where inv: "builder_inv cfg (fold (add_entry cfg) es (builder_new bl)) cs cur"
    and es: "concat cs @ cur = es" by auto
  let ?b = "fold (add_entry cfg) es (builder_new bl)"
  note I = inv [unfolded builder_inv_def Let_def, folded r_def]
  show ?thesis
  proof (cases "cur = []")
    case True
    then have "finish_block ?b = ?b" using I by (simp add: finish_block_def)
    then show ?thesis using I es True by (intro exI [of _ cs]) simp
  next
    case False
    have "builder_inv cfg (finish_block ?b) (cs @ [cur]) []"
      by (rule finish_block_inv [OF _ _ _ _ _ _ _ r_def [THEN meta_eq_to_obj_eq] False])
        (use I in auto)
    then show ?thesis
      using es by (intro exI [of _ "cs @ [cur]"]) (simp add: builder_inv_def Let_def r_def)
  qed
qed

text \<open>The bloom filter and the bounds the loop accumulates.\<close>

definition entries_min_seqno :: "entries \<Rightarrow> u64" where
  "entries_min_seqno es = fold (\<lambda>(k, e) m. min m (me_seqno e)) es (- 1)"

definition entries_max_seqno :: "entries \<Rightarrow> u64" where
  "entries_max_seqno es = fold (\<lambda>(k, e) m. max m (me_seqno e)) es 0"

lemma finish_block_track [simp]:
  "sb_bloom (finish_block b) = sb_bloom b" "sb_max_key (finish_block b) = sb_max_key b"
  "sb_min_seqno (finish_block b) = sb_min_seqno b" "sb_max_seqno (finish_block b) = sb_max_seqno b"
  by (simp_all add: finish_block_def Let_def)

lemma add_entry_track:
  "sb_bloom (add_entry cfg (k, e) b) = bloom_add k (sb_bloom b)"
  "sb_max_key (add_entry cfg (k, e) b) = k"
  "sb_min_seqno (add_entry cfg (k, e) b) = min (sb_min_seqno b) (me_seqno e)"
  "sb_max_seqno (add_entry cfg (k, e) b) = max (sb_max_seqno b) (me_seqno e)"
  by (simp_all add: add_entry_def Let_def)

lemma fold_add_entry_track:
  "let b = fold (add_entry cfg) es (builder_new bl) in
    sb_bloom b = fold bloom_add (map fst es) bl \<and>
    sb_max_key b = (if es = [] then [] else fst (last es)) \<and>
    sb_min_seqno b = entries_min_seqno es \<and> sb_max_seqno b = entries_max_seqno es"
proof (induction es rule: rev_induct)
  case Nil
  then show ?case by (simp add: builder_new_def entries_min_seqno_def entries_max_seqno_def)
next
  case (snoc kv es)
  then show ?case
    by (cases kv) (simp add: Let_def add_entry_track entries_min_seqno_def entries_max_seqno_def)
qed

lemma entries_seqno_bounds:
  "(k, e) \<in> set es \<Longrightarrow> entries_min_seqno es \<le> me_seqno e \<and> me_seqno e \<le> entries_max_seqno es"
  by (induction es rule: rev_induct)
    (auto simp: entries_min_seqno_def entries_max_seqno_def min_le_iff_disj le_max_iff_disj)

lemma entries_seqno_attained:
  "es \<noteq> [] \<Longrightarrow> (\<exists>(k, e) \<in> set es. me_seqno e = entries_max_seqno es) \<and>
     (\<exists>(k, e) \<in> set es. me_seqno e = entries_min_seqno es)"
proof (induction es rule: rev_induct)
  case Nil
  then show ?case by simp
next
  case (snoc kv es)
  obtain k e where kv: "kv = (k, e)" by (cases kv)
  show ?case
  proof (cases "es = []")
    case True
    have "min (- 1) (me_seqno e) = me_seqno e" by (rule min_absorb2) (rule word_order.extremum)
    then show ?thesis
      using True by (simp add: kv entries_min_seqno_def entries_max_seqno_def max_def)
  next
    case False
    then show ?thesis
      using snoc
      by (auto simp: kv entries_min_seqno_def entries_max_seqno_def max_def min_def)
  qed
qed

section \<open>Reading blocks back\<close>

lemma length_restart_less:
  "0 < r \<Longrightarrow> es \<noteq> [] \<Longrightarrow> restart_points r es \<noteq> []"
  by (cases es) (simp_all add: restart_points_def upt_conv_Cons del: upt_Suc)

lemma scan_entries_body:
  assumes "\<forall>kv \<in> set es. entry_fits kv"
  shows "scan_entries (block_body es) = Inr es"
  using assms
proof (induction es)
  case Nil
  then show ?case by (simp add: scan_entries.simps)
next
  case (Cons kv es)
  obtain k e where kv: "kv = (k, e)" by (cases kv)
  let ?b = "block_body (kv # es)"
  have lens: "length k < 2 ^ 32" "length (me_value e) < 2 ^ 32"
    using Cons.prems by (auto simp: kv entry_fits_def)
  have h: "unat (get_u32 ?b) = length k" "unat (get_u32 (drop 4 ?b)) = length (me_value e)"
    "get_u64 (drop 8 ?b) = me_seqno e" "?b ! 16 = (if me_tombstone e then kFlagTombstone else 0)"
    "bytes_at kEntryHeader (length k) ?b = k"
    "bytes_at (kEntryHeader + length k) (length (me_value e)) ?b = me_value e"
    "drop (kEntryHeader + length k + length (me_value e)) ?b = block_body es"
    using unat_of_nat_u32 lens
    by (simp_all add: kv encode_entry_def bytes_at_def kEntryHeader_def nth_append)
  have len: "\<not> length ?b < kEntryHeader + length k + length (me_value e)" "\<not> length ?b < kEntryHeader" "?b \<noteq> []"
    by (simp_all add: kv length_encode_entry)
  have flag: "(?b ! 16 AND kFlagTombstone \<noteq> 0) = me_tombstone e"
    by (simp only: h(4)) (simp add: kFlagTombstone_def)
  have eta: "\<lparr>me_value = me_value e, me_seqno = me_seqno e, me_tombstone = me_tombstone e\<rparr> = e"
    by (rule mem_entry_eta)
  show ?case
    using Cons by (subst scan_entries.simps) (simp only: h(1-3,5-7) len flag eta Let_def if_False kv [symmetric],
      simp add: kv)
qed

lemma block_trailer_count: "get_u32 (drop (4 * length rs) (block_trailer rs)) = of_nat (length rs)"
proof -
  have "length (concat (map put_u32 rs)) = 4 * length rs" by (induction rs) simp_all
  then show ?thesis by (simp add: block_trailer_def)
qed

lemma scan_block_encode:
  assumes "chunk_ok r c"
  shows "scan_block (encode_block r c) = Inr c"
proof -
  let ?rs = "map of_nat (restart_points r c) :: u32 list" and ?b = "encode_block r c"
  let ?n = "length (restart_points r c)"
  have len: "length ?b = length (block_body c) + 4 * ?n + 8" by (rule length_encode_block)
  then have small: "?n < 2 ^ 32" using assms by (simp add: chunk_ok_def)
  have "drop (length ?b - 8) ?b = drop (4 * ?n) (block_trailer ?rs) @
      put_u32 (crc32 (block_body c @ block_trailer ?rs))"
    by (simp add: len) (simp add: encode_block_def with_crc_def)
  then have "get_u32 (drop (length ?b - 8) ?b) = get_u32 (drop (4 * ?n) (block_trailer ?rs))"
    by (simp add: get_u32_append)
  then have cnt: "unat (get_u32 (drop (length ?b - 8) ?b)) = ?n"
    using block_trailer_count [of ?rs] unat_of_nat_u32 [OF small] by simp
  have body: "take (length ?b - 8 - 4 * ?n) ?b = block_body c"
    by (simp add: len) (simp add: encode_block_def with_crc_def)
  have "1 \<le> length c" using assms by (simp add: chunk_ok_def Suc_le_eq)
  then have "\<not> length ?b < 12" using length_block_body_ge [of c] len by linarith
  moreover have "crc_ok ?b" by (simp add: encode_block_def)
  moreover have "\<not> length ?b < 8 + 4 * ?n" by (simp add: len)
  ultimately show ?thesis
    using scan_entries_body [of c] assms body cnt
    by (simp add: scan_block_def Let_def chunk_ok_def)
qed

lemma walk_index_encode:
  assumes "\<forall>e \<in> set es. length (ie_first_key e) < 2 ^ 32"
  shows "walk_index (concat (map encode_index_entry es)) = Inr es"
  using assms
proof (induction es)
  case Nil
  then show ?case by (simp add: walk_index.simps)
next
  case (Cons e es)
  let ?k = "ie_first_key e" and ?b = "concat (map encode_index_entry (e # es))"
  have h: "unat (get_u32 ?b) = length ?k" "bytes_at 4 (length ?k) ?b = ?k"
    "get_u64 (drop (4 + length ?k) ?b) = ie_offset e"
    "get_u32 (drop (4 + length ?k + 8) ?b) = ie_size e"
    "drop (4 + length ?k + 12) ?b = concat (map encode_index_entry es)"
    using unat_of_nat_u32 [of "length ?k"] Cons.prems
    by (simp_all add: encode_index_entry_def bytes_at_def)
  have len: "?b \<noteq> []" "\<not> length ?b < 4" "\<not> length ?b < 4 + length ?k + 12"
    by (simp_all add: encode_index_entry_def put_u32_def)
  show ?case
    using Cons by (subst walk_index.simps) (simp only: h len Let_def if_False, simp)
qed

lemma index_of_keys:
  "e \<in> set (index_of r off cs) \<Longrightarrow> \<exists>c \<in> set cs. ie_first_key e = fst (hd c)"
  by (induction cs arbitrary: off) auto

lemma walk_index_of:
  assumes "\<forall>c \<in> set cs. chunk_ok r c"
  shows "walk_index (concat (map encode_index_entry (index_of r off cs))) = Inr (index_of r off cs)"
proof (rule walk_index_encode, rule ballI)
  fix e
  assume "e \<in> set (index_of r off cs)"
  then obtain c where "c \<in> set cs" "ie_first_key e = fst (hd c)" using index_of_keys by blast
  then show "length (ie_first_key e) < 2 ^ 32"
    using assms by (cases c) (auto simp: chunk_ok_def entry_fits_def)
qed

section \<open>Reading files back\<close>

lemma read_range_inside:
  assumes "file = pre @ mid @ post" "off = length pre" "n = length mid" "length file < 2 ^ 63"
  shows "read_range file (of_nat off) (of_nat n) = Inr mid"
proof -
  have "unat (of_nat off :: u64) = off" "unat (of_nat n :: u64) = n"
    using assms by (intro unat_of_nat_u64; simp)+
  then show ?thesis using assms by (simp add: read_range_def bytes_at_inside)
qed

lemma read_range_of_u32: "ucast (of_nat n :: u32) = (of_nat n :: u64)" if "n < 2 ^ 32"
  using that by (metis of_nat_unat unat_of_nat_u32)

lemma scan_blocks_data:
  assumes "\<forall>c \<in> set cs. chunk_ok r c" and "file = pre @ data_blocks r cs @ post"
    and "length file < 2 ^ 63"
  shows "scan_blocks file (index_of r (length pre) cs) = Inr (concat cs)"
  using assms
proof (induction cs arbitrary: pre)
  case Nil
  then show ?case by simp
next
  case (Cons c cs)
  let ?b = "encode_block r c"
  have c: "chunk_ok r c" and len: "length ?b < 2 ^ 32" using Cons.prems(1) by (simp_all add: chunk_ok_def)
  have "read_range file (of_nat (length pre)) (ucast (of_nat (length ?b) :: u32)) = Inr ?b"
    unfolding read_range_of_u32 [OF len]
    using Cons.prems by (intro read_range_inside [of _ pre _ "data_blocks r cs @ post"]) simp_all
  moreover have "scan_blocks file (index_of r (length (pre @ ?b)) cs) = Inr (concat cs)"
    using Cons.prems by (intro Cons.IH) simp_all
  ultimately show ?case using scan_block_encode [OF c] by simp
qed

text \<open>The whole file.\<close>

lemma length_encode_footer [simp]: "length (encode_footer a b c d) = kFooterSize"
  by (simp add: encode_footer_def kFooterSize_def)

lemma parse_encode_footer:
  "parse_footer (encode_footer a b c d) = \<lparr>fo_version = sst_version, fo_index_off = a,
     fo_index_size = b, fo_filter_off = c, fo_filter_size = d\<rparr>"
  "get_u32 (drop 36 (encode_footer a b c d)) = sst_magic"
  by (simp_all add: parse_footer_def encode_footer_def)

definition table_footer :: "nat \<Rightarrow> entries list \<Rightarrow> bloom \<Rightarrow> u64 \<Rightarrow> footer" where
  "table_footer r cs bl n = \<lparr>fo_version = sst_version,
     fo_index_off = of_nat (length (data_blocks r cs)), fo_index_size = of_nat (length (index_block r cs)),
     fo_filter_off = of_nat (length (data_blocks r cs) + length (index_block r cs)),
     fo_filter_size = of_nat (length (encode_filter bl n))\<rparr>"

lemma length_encode_filter: "length (encode_filter bl n) = 24 + length (bl_bits bl)"
  by (simp add: encode_filter_def)

lemma length_table_file:
  "length (table_file r cs bl n) = length (data_blocks r cs) + length (index_block r cs)
     + length (encode_filter bl n) + kFooterSize"
  by (simp add: table_file_def)

lemma table_file_footer:
  "kFooterSize \<le> length (table_file r cs bl n)"
  "parse_footer (footer_at (table_file r cs bl n)) = table_footer r cs bl n"
  "get_u32 (drop 36 (footer_at (table_file r cs bl n))) = sst_magic"
proof -
  have at: "footer_at (table_file r cs bl n) = encode_footer (of_nat (length (data_blocks r cs)))
       (of_nat (length (index_block r cs)))
       (of_nat (length (data_blocks r cs) + length (index_block r cs)))
       (of_nat (length (encode_filter bl n)))"
    unfolding footer_at_def length_table_file by (simp add: table_file_def)
  show "kFooterSize \<le> length (table_file r cs bl n)"
    "parse_footer (footer_at (table_file r cs bl n)) = table_footer r cs bl n"
    "get_u32 (drop 36 (footer_at (table_file r cs bl n))) = sst_magic"
    by (simp_all add: at parse_encode_footer table_footer_def length_table_file)
qed

lemma table_file_in_range:
  assumes "length (table_file r cs bl n) < 2 ^ 63" and "unat m \<le> 24"
  shows "footer_in_range (table_file r cs bl n) (table_footer r cs bl n) m"
proof -
  let ?d = "length (data_blocks r cs)" and ?i = "length (index_block r cs)"
  let ?f = "length (encode_filter bl n)" and ?all = "length (table_file r cs bl n)"
  have sum: "?d + ?i + ?f \<le> ?all" "4 \<le> ?i" "24 \<le> ?f"
    by (simp_all add: length_table_file index_block_def length_encode_filter)
  have w: "unat (of_nat k :: u64) = k" if "k \<le> ?all" for k
    using that assms(1) by (intro unat_of_nat_u64) simp
  have "unat (of_nat ?d + of_nat ?i :: u64) = ?d + ?i" "unat (of_nat (?d + ?i) + of_nat ?f :: u64) = ?d + ?i + ?f"
    using w [of "?d + ?i"] w [of "?d + ?i + ?f"] sum(1) by simp_all
  moreover have "unat (of_nat ?i :: u64) = ?i" "unat (of_nat ?f :: u64) = ?f" "unat (of_nat ?all :: u64) = ?all"
    using w sum(1) by simp_all
  ultimately show ?thesis
    using sum assms(2)
    by (simp add: footer_in_range_def table_footer_def word_less_nat_alt not_less)
qed

lemma table_file_ranges:
  assumes "length (table_file r cs bl n) < 2 ^ 63"
  defines "ft \<equiv> table_footer r cs bl n" and "file \<equiv> table_file r cs bl n"
  shows "read_range file (fo_index_off ft) (fo_index_size ft) = Inr (index_block r cs)"
    and "read_range file (fo_filter_off ft) (fo_filter_size ft) = Inr (encode_filter bl n)"
proof -
  show "read_range file (fo_index_off ft) (fo_index_size ft) = Inr (index_block r cs)"
    unfolding ft_def table_footer_def footer.simps file_def
    by (rule read_range_inside [OF _ refl refl assms(1)]) (simp add: table_file_def)
  show "read_range file (fo_filter_off ft) (fo_filter_size ft) = Inr (encode_filter bl n)"
    unfolding ft_def table_footer_def footer.simps file_def
    by (rule read_range_inside [OF _ _ refl assms(1), of "data_blocks r cs @ index_block r cs"])
      (simp_all add: table_file_def)
qed

lemma table_file_index:
  assumes "\<forall>c \<in> set cs. chunk_ok r c"
  shows "crc_ok (index_block r cs)"
    and "walk_index (take (length (index_block r cs) - 4) (index_block r cs)) = Inr (index_of r 0 cs)"
  using walk_index_of [OF assms] by (simp_all add: index_block_def)

definition table_info :: "nat \<Rightarrow> entries list \<Rightarrow> bloom \<Rightarrow> u64 \<Rightarrow> sst_info" where
  "table_info r cs bl n = \<lparr>si_file_size = of_nat (length (table_file r cs bl n)),
     si_footer = table_footer r cs bl n, si_index = index_of r 0 cs,
     si_bloom_bits = bl_num_bits bl, si_bloom_hashes = bl_num_hashes bl, si_bloom_keys = n\<rparr>"

lemma inspect_table_file:
  assumes "\<forall>c \<in> set cs. chunk_ok r c" and "length (table_file r cs bl n) < 2 ^ 63"
  shows "inspect_sstable (table_file r cs bl n) = Inr (table_info r cs bl n)"
proof -
  have "crc_ok (encode_filter bl n)" by (simp add: encode_filter_def)
  moreover have "get_u64 (encode_filter bl n) = bl_num_bits bl"
    "get_u32 (drop 8 (encode_filter bl n)) = bl_num_hashes bl"
    "get_u64 (drop 12 (encode_filter bl n)) = n"
    by (simp_all add: encode_filter_def with_crc_def)
  moreover have "footer_in_range (table_file r cs bl n) (table_footer r cs bl n) 24"
    by (rule table_file_in_range [OF assms(2)]) simp
  ultimately show ?thesis
    using table_file_footer [of r cs bl n] table_file_ranges [OF assms(2)] table_file_index [OF assms(1)]
    by (simp add: inspect_sstable_def Let_def table_info_def)
qed

lemma scan_table_file:
  assumes "\<forall>c \<in> set cs. chunk_ok r c" and "length (table_file r cs bl n) < 2 ^ 63"
  shows "scan_sstable (table_file r cs bl n) = Inr (concat cs)"
  using inspect_table_file [OF assms] scan_blocks_data [OF assms(1) _ assms(2), of "[]"]
  by (simp add: scan_sstable_def table_info_def) (simp add: table_file_def)

lemma verify_blocks_data:
  assumes "\<forall>c \<in> set cs. chunk_ok r c" and "file = pre @ data_blocks r cs @ post"
    and "length file < 2 ^ 63" and "length (pre @ data_blocks r cs) \<le> unat index_off"
  shows "verify_blocks file index_off (concat (map encode_index_entry (index_of r (length pre) cs)) @ tail)
    = verify_blocks file index_off tail"
  using assms
proof (induction cs arbitrary: pre)
  case Nil
  then show ?case by simp
next
  case (Cons c cs)
  let ?e = "\<lparr>ie_first_key = fst (hd c), ie_offset = of_nat (length pre),
      ie_size = of_nat (length (encode_block r c))\<rparr> :: index_entry"
  let ?rest = "concat (map encode_index_entry (index_of r (length (pre @ encode_block r c)) cs)) @ tail"
  let ?k = "fst (hd c)" and ?b = "encode_index_entry ?e @ ?rest" and ?blk = "encode_block r c"
  have c: "chunk_ok r c" and len: "length ?blk < 2 ^ 32" using Cons.prems(1) by (simp_all add: chunk_ok_def)
  have kl: "length ?k < 2 ^ 32" using c by (cases c) (auto simp: chunk_ok_def entry_fits_def)
  have h: "unat (get_u32 ?b) = length ?k" "get_u64 (drop (4 + length ?k) ?b) = of_nat (length pre)"
    "get_u32 (drop (4 + length ?k + 8) ?b) = of_nat (length ?blk)"
    "drop (4 + length ?k + 12) ?b = ?rest"
    using unat_of_nat_u32 [OF kl] by (simp_all add: encode_index_entry_def)
  have blen: "?b \<noteq> []" "\<not> length ?b < 4" "\<not> length ?b < 4 + length ?k + 12"
    by (simp_all add: encode_index_entry_def put_u32_def)
  have rd: "read_range file (of_nat (length pre)) (of_nat (length ?blk)) = Inr ?blk"
    using Cons.prems by (intro read_range_inside [of _ pre _ "data_blocks r cs @ post"]) simp_all
  have flen: "length (pre @ data_blocks r (c # cs)) < 2 ^ 63"
    using Cons.prems(2,3) by simp
  have w: "unat (of_nat k :: u64) = k" if "k \<le> length (pre @ data_blocks r (c # cs))" for k
    using that flen by (intro unat_of_nat_u64) simp
  have "unat (of_nat (length pre) + of_nat (length ?blk) :: u64) = length pre + length ?blk"
    using w [of "length pre + length ?blk"] by simp
  then have off: "\<not> of_nat (length pre) + of_nat (length ?blk) > index_off"
    using Cons.prems(4) by (simp add: word_less_nat_alt)
  have "8 \<le> length ?blk" by (simp add: length_encode_block)
  then have four: "\<not> (of_nat (length ?blk) :: u32) < 4"
    using unat_of_nat_u32 [OF len] by (simp add: word_less_nat_alt)
  have crc: "crc_ok ?blk" by (simp add: encode_block_def)
  have "verify_blocks file index_off ?rest = verify_blocks file index_off tail"
    using Cons.prems by (intro Cons.IH) simp_all
  then have "verify_blocks file index_off ?b = verify_blocks file index_off tail"
    by (subst verify_blocks.simps)
      (simp only: h blen Let_def if_False read_range_of_u32 [OF len] off four crc rd sum.case
        simp_thms if_True)
  then show ?case by simp
qed

lemma verify_table_file:
  assumes "\<forall>c \<in> set cs. chunk_ok r c" and "length (table_file r cs bl n) < 2 ^ 63"
  shows "verify_sstable (table_file r cs bl n) = Inr OK"
proof -
  have "unat (of_nat (length (data_blocks r cs)) :: u64) = length (data_blocks r cs)"
    using assms(2) by (intro unat_of_nat_u64) (simp add: length_table_file)
  then have "verify_blocks (table_file r cs bl n) (of_nat (length (data_blocks r cs)))
      (concat (map encode_index_entry (index_of r (length ([] :: bytes)) cs)) @ []) =
      verify_blocks (table_file r cs bl n) (of_nat (length (data_blocks r cs))) []"
    by (intro verify_blocks_data [OF assms(1) _ assms(2)]) (simp_all add: table_file_def)
  then have vb: "verify_blocks (table_file r cs bl n) (fo_index_off (table_footer r cs bl n))
      (take (length (index_block r cs) - 4) (index_block r cs)) = OK"
    by (simp add: index_block_def table_footer_def verify_blocks.simps [of _ _ "[]"])
  have "crc_ok (encode_filter bl n)" by (simp add: encode_filter_def)
  moreover have "footer_in_range (table_file r cs bl n) (table_footer r cs bl n) 4"
    by (rule table_file_in_range [OF assms(2)]) simp
  moreover have "fo_version (table_footer r cs bl n) = sst_version" by (simp add: table_footer_def)
  ultimately show ?thesis
    using table_file_footer [of r cs bl n] table_file_ranges [OF assms(2)] table_file_index [OF assms(1)]
    by (simp add: verify_sstable_def Let_def vb)
qed

section \<open>What the writer publishes\<close>

text \<open>Arguments within the sizes the format can express.\<close>

definition table_args_ok :: "bloom_shape \<Rightarrow> memtable \<Rightarrow> config \<Rightarrow> bool" where
  "table_args_ok shape mem cfg \<longleftrightarrow>
     keys_ascending (sorted_entries mem) \<and> sorted_entries mem \<noteq> [] \<and>
     (\<forall>kv \<in> set (sorted_entries mem). entry_small kv) \<and>
     0 < restart_interval cfg \<and> unat (block_size cfg) \<le> 2 ^ 30 \<and>
     fst (shape (memtable_entries mem) (bloom_false_positive cfg)) \<le> 2 ^ 64 - 8 \<and>
     length (fst (encode_sstable shape 0 mem cfg)) < 2 ^ 63"

lemma encode_sstable_file_id: "fst (encode_sstable shape sid mem cfg) = fst (encode_sstable shape 0 mem cfg)"
  by (simp add: encode_sstable_def Let_def split: prod.splits)

lemma length_entries_le: "length es \<le> length (block_body es)"
  using length_block_body_ge [of es] by linarith

lemma concat_data_blocks: "length (concat cs) \<le> length (data_blocks r cs)"
proof (induction cs)
  case Nil
  then show ?case by simp
next
  case (Cons c cs)
  have "length c \<le> length (encode_block r c)"
    using length_entries_le [of c] by (simp add: length_encode_block)
  then show ?case using Cons by simp
qed

lemma encode_sstable_table:
  assumes "table_args_ok shape mem cfg"
  obtains cs bl n res where
    "encode_sstable shape sid mem cfg = (table_file (unat (restart_interval cfg)) cs bl n, res)"
    "concat cs = sorted_entries mem" "\<forall>c \<in> set cs. chunk_ok (unat (restart_interval cfg)) c"
    "length (table_file (unat (restart_interval cfg)) cs bl n) < 2 ^ 63"
    "bloom_ok bl" "\<forall>kv \<in> set (sorted_entries mem). bloom_holds bl (fst kv)"
    "br_id res = sid" "br_file_name res = sst_file_name sid"
    "unat (br_file_size res) = length (table_file (unat (restart_interval cfg)) cs bl n)"
    "br_min_key res = fst (hd (sorted_entries mem))" "br_max_key res = fst (last (sorted_entries mem))"
    "br_min_seqno res = entries_min_seqno (sorted_entries mem)"
    "br_max_seqno res = entries_max_seqno (sorted_entries mem)"
    "unat (br_entries res) = length (sorted_entries mem)"
proof -
  let ?es = "sorted_entries mem" and ?r = "unat (restart_interval cfg)"
  note A = assms [unfolded table_args_ok_def]
  obtain wanted hashes per_key where
    sh: "shape (memtable_entries mem) (bloom_false_positive cfg) = (wanted, hashes, per_key)"
    by (metis prod_cases3)
  let ?fresh = "bloom_new wanted hashes"
  define b where "b = finish_block (fold (add_entry cfg) ?es (builder_new ?fresh))"
  have "\<forall>kv \<in> set ?es. entry_small kv" "unat (block_size cfg) \<le> 2 ^ 30" using A by auto
  from write_loop_chunks [OF this, of ?fresh]
  obtain cs where cs: "concat cs = ?es" "\<forall>c \<in> set cs. chunk_ok ?r c"
    and out: "sb_out b = data_blocks ?r cs" "sb_index b = index_of ?r 0 cs"
      "sb_offset b = of_nat (length (data_blocks ?r cs))"
    by (auto simp: b_def Let_def)
  let ?bl = "sb_bloom b" and ?n = "memtable_entries mem"
  have track: "?bl = fold bloom_add (map fst ?es) ?fresh" "sb_max_key b = fst (last ?es)"
    "sb_min_seqno b = entries_min_seqno ?es" "sb_max_seqno b = entries_max_seqno ?es"
    using fold_add_entry_track [of cfg ?es ?fresh] A by (simp_all add: b_def Let_def)
  have bl: "bloom_ok ?bl \<and> (\<forall>k. k \<in> set (map fst ?es) \<or> bloom_holds ?fresh k \<longrightarrow> bloom_holds ?bl k)"
    unfolding track(1) by (rule bloom_add_all, rule bloom_ok_new) (use A sh in simp)
  let ?file = "table_file ?r cs ?bl ?n"
  obtain res where enc: "encode_sstable shape sid mem cfg = (?file, res)"
    and res: "res = \<lparr>br_id = sid, br_file_name = sst_file_name sid,
       br_file_size = of_nat (length ?file), br_min_key = fst (hd ?es), br_max_key = sb_max_key b,
       br_min_seqno = sb_min_seqno b, br_max_seqno = sb_max_seqno b, br_entries = memtable_entries mem,
       br_bloom_bits_per_key = per_key, br_bloom_hashes = bl_num_hashes ?bl\<rparr>"
    by (simp add: encode_sstable_def sh b_def [symmetric] Let_def out table_file_def index_block_def
        del: finish_block_track)
  have len: "length ?file < 2 ^ 63"
    using A enc encode_sstable_file_id [of shape sid mem cfg] by simp
  have "length ?es \<le> length ?file"
    using concat_data_blocks [of cs ?r] cs(1) by (simp add: length_table_file)
  then have "unat (memtable_entries mem) = length ?es"
    using len by (simp add: memtable_entries_def sorted_entries_def unat_of_nat_u64)
  moreover have "unat (of_nat (length ?file) :: u64) = length ?file"
    using len by (intro unat_of_nat_u64) simp
  ultimately show ?thesis
    using that [OF enc cs len] bl track by (auto simp: res)
qed

text \<open>A block with a burst of at most four changed bytes fails its checksum.\<close>

lemma crc_ok_garbled:
  assumes "crc_ok (xs @ us @ ys)" and "4 \<le> length (xs @ us @ ys)"
    and "length us = length vs" "length us \<le> 4" "us \<noteq> vs"
  shows "\<not> crc_ok (xs @ vs @ ys)"
proof
  assume bad: "crc_ok (xs @ vs @ ys)"
  define a where "a = xs @ us @ ys"
  define b where "b = xs @ vs @ ys"
  have len: "length b = length a" using assms(3) by (simp add: a_def b_def)
  have "us = vs"
  proof (rule crc_frame_burst)
    show "crc32 (take (length a - 4) a) = get_u32 (drop (length a - 4) a)"
      using assms(1) by (simp add: crc_ok_def a_def)
    show "crc32 (take (length b - 4) b) = get_u32 (drop (length b - 4) b)"
      using bad by (simp add: crc_ok_def b_def)
    show "take (length a - 4) a @ drop (length a - 4) a = xs @ us @ ys" unfolding append_take_drop_id by (rule a_def)
    show "take (length b - 4) b @ drop (length b - 4) b = xs @ vs @ ys" unfolding append_take_drop_id by (rule b_def)
  qed (use assms len in \<open>simp_all add: a_def b_def\<close>)
  then show False using assms(5) by simp
qed

text \<open>A table file in which the block of one chunk was replaced by other bytes of its length.\<close>

definition damaged_file :: "nat \<Rightarrow> entries list \<Rightarrow> bytes \<Rightarrow> entries \<Rightarrow> entries list \<Rightarrow> bloom \<Rightarrow> u64 \<Rightarrow> bytes" where
  "damaged_file r pre blk c post bl n =
     data_blocks r pre @ blk @
     drop (length (data_blocks r (pre @ [c]))) (table_file r (pre @ c # post) bl n)"

lemma damaged_file_eq:
  "damaged_file r pre blk c post bl n = data_blocks r pre @ blk @ data_blocks r post @
     index_block r (pre @ c # post) @ encode_filter bl n @ footer_at (table_file r (pre @ c # post) bl n)"
proof -
  let ?f = "table_file r (pre @ c # post) bl n"
  have "footer_at ?f = drop (length (data_blocks r (pre @ c # post) @ index_block r (pre @ c # post)
      @ encode_filter bl n)) ?f"
    by (simp add: footer_at_def length_table_file add.assoc)
  then show ?thesis by (simp add: damaged_file_def) (simp add: table_file_def)
qed

lemma damaged_file_undamaged:
  "table_file r (pre @ c # post) bl n = damaged_file r pre (encode_block r c) c post bl n"
  unfolding damaged_file_def by (simp add: table_file_def)

lemma footer_at_append: "kFooterSize \<le> length ys \<Longrightarrow> footer_at (xs @ ys) = footer_at ys"
  by (simp add: footer_at_def)

lemma footer_at_self: "length ft = kFooterSize \<Longrightarrow> footer_at ft = ft"
  by (simp add: footer_at_def)

lemma damaged_file_reads:
  assumes len: "length blk = length (encode_block r c)"
    and small: "length (table_file r (pre @ c # post) bl n) < 2 ^ 63"
  defines "file \<equiv> damaged_file r pre blk c post bl n" and "cs \<equiv> pre @ c # post"
  shows "length file = length (table_file r cs bl n)" "footer_at file = footer_at (table_file r cs bl n)"
    "read_range file (fo_index_off (table_footer r cs bl n)) (fo_index_size (table_footer r cs bl n))
       = Inr (index_block r cs)"
    "read_range file (fo_filter_off (table_footer r cs bl n)) (fo_filter_size (table_footer r cs bl n))
       = Inr (encode_filter bl n)"
    "read_range file (of_nat (length (data_blocks r pre))) (of_nat (length (encode_block r c))) = Inr blk"
proof -
  have und: "table_file r cs bl n = damaged_file r pre (encode_block r c) c post bl n"
    unfolding cs_def by (rule damaged_file_undamaged)
  show l: "length file = length (table_file r cs bl n)"
    unfolding und file_def damaged_file_eq using len by simp
  have s63: "length file < 2 ^ 63" using l small by (simp add: cs_def)
  have "length (footer_at (table_file r cs bl n)) = kFooterSize"
    using table_file_footer(1) by (simp add: footer_at_def kFooterSize_def)
  then show "footer_at file = footer_at (table_file r cs bl n)"
    by (simp add: file_def damaged_file_eq cs_def footer_at_append footer_at_self)
  show "read_range file (of_nat (length (data_blocks r pre))) (of_nat (length (encode_block r c))) = Inr blk"
    by (rule read_range_inside [OF _ refl _ s63, of _ _ "data_blocks r post @ index_block r cs @
        encode_filter bl n @ footer_at (table_file r cs bl n)"])
      (simp_all add: file_def damaged_file_eq cs_def len)
  show "read_range file (fo_index_off (table_footer r cs bl n)) (fo_index_size (table_footer r cs bl n))
       = Inr (index_block r cs)"
    unfolding table_footer_def footer.simps
    by (rule read_range_inside [OF _ _ refl s63, of "data_blocks r pre @ blk @ data_blocks r post" _
        "encode_filter bl n @ footer_at (table_file r cs bl n)"])
      (simp_all add: file_def damaged_file_eq cs_def len)
  show "read_range file (fo_filter_off (table_footer r cs bl n)) (fo_filter_size (table_footer r cs bl n))
       = Inr (encode_filter bl n)"
    unfolding table_footer_def footer.simps
    by (rule read_range_inside [OF _ _ refl s63, of "data_blocks r pre @ blk @ data_blocks r post @ index_block r cs" _
        "footer_at (table_file r cs bl n)"])
      (simp_all add: file_def damaged_file_eq cs_def len)
qed

lemma index_of_middle:
  "index_of r 0 (pre @ c # post) = index_of r 0 pre @
     \<lparr>ie_first_key = fst (hd c), ie_offset = of_nat (length (data_blocks r pre)),
      ie_size = of_nat (length (encode_block r c))\<rparr>
     # index_of r (length (data_blocks r (pre @ [c]))) post"
  by (simp add: index_of_append)

lemma verify_damaged_file:
  assumes ok: "\<forall>c \<in> set (pre @ c # post). chunk_ok r c"
    and small: "length (table_file r (pre @ c # post) bl n) < 2 ^ 63"
    and len: "length blk = length (encode_block r c)" and bad: "\<not> crc_ok blk"
  shows "verify_sstable (damaged_file r pre blk c post bl n) =
      Inr (DataChecksum (of_nat (length (data_blocks r pre))))"
    and "scan_sstable (damaged_file r pre blk c post bl n) = Inl (Thrown CorruptionDetected)"
proof -
  let ?cs = "pre @ c # post" and ?file = "damaged_file r pre blk c post bl n"
  let ?ft = "table_footer r ?cs bl n" and ?off = "of_nat (length (data_blocks r pre)) :: u64"
  note D = damaged_file_reads [OF len small]
  have s63: "length ?file < 2 ^ 63" using D(1) small by simp
  have rd: "read_range ?file ?off (ucast (of_nat (length (encode_block r c)) :: u32)) = Inr blk"
    using D(5) ok read_range_of_u32 [of "length (encode_block r c)"] by (simp add: chunk_ok_def)
  have ftr: "parse_footer (footer_at ?file) = ?ft" "get_u32 (drop 36 (footer_at ?file)) = sst_magic"
    using D(2) table_file_footer [of r ?cs bl n] by simp_all
  have big: "\<not> length ?file < kFooterSize" using D(1) table_file_footer(1) [of r ?cs bl n] by simp
  have crcf: "crc_ok (encode_filter bl n)" by (simp add: encode_filter_def)
  have inr: "footer_in_range ?file ?ft m" if "unat m \<le> 24" for m
    using table_file_in_range [OF small that] D(1) by (simp add: footer_in_range_def)
  let ?e = "\<lparr>ie_first_key = fst (hd c), ie_offset = ?off, ie_size = of_nat (length (encode_block r c))\<rparr>"
  let ?rest = "concat (map encode_index_entry (index_of r (length (data_blocks r (pre @ [c]))) post))"
  have idx: "concat (map encode_index_entry (index_of r 0 ?cs)) =
      concat (map encode_index_entry (index_of r (length ([] :: bytes)) pre)) @ encode_index_entry ?e @ ?rest"
    by (simp add: index_of_middle)
  have uoff: "unat (fo_index_off ?ft) = length (data_blocks r ?cs)"
    unfolding table_footer_def footer.simps using small
    by (intro unat_of_nat_u64) (simp add: length_table_file)
  have "verify_blocks ?file (fo_index_off ?ft) (concat (map encode_index_entry (index_of r 0 ?cs))) =
      verify_blocks ?file (fo_index_off ?ft) (encode_index_entry ?e @ ?rest)"
    unfolding idx
    by (rule verify_blocks_data [OF _ _ s63, of _ _ _ "blk @ data_blocks r post @
      index_block r ?cs @ encode_filter bl n @ footer_at (table_file r ?cs bl n)"])
      (use ok in \<open>simp_all add: damaged_file_eq uoff\<close>)
  also have "\<dots> = DataChecksum ?off"
  proof -
    let ?b = "encode_index_entry ?e @ ?rest" and ?k = "fst (hd c)"
    have c: "chunk_ok r c" and cl: "length (encode_block r c) < 2 ^ 32" using ok by (simp_all add: chunk_ok_def)
    have kl: "length ?k < 2 ^ 32" using c by (cases c) (auto simp: chunk_ok_def entry_fits_def)
    have h: "unat (get_u32 ?b) = length ?k" "get_u64 (drop (4 + length ?k) ?b) = ?off"
      "get_u32 (drop (4 + length ?k + 8) ?b) = of_nat (length (encode_block r c))"
      using unat_of_nat_u32 [OF kl] by (simp_all add: encode_index_entry_def)
    have blen: "?b \<noteq> []" "\<not> length ?b < 4" "\<not> length ?b < 4 + length ?k + 12"
      by (simp_all add: encode_index_entry_def put_u32_def)
    have "length (data_blocks r pre) + length (encode_block r c) \<le> length (data_blocks r ?cs)" by simp
    moreover have "length (data_blocks r ?cs) < 2 ^ 63" using small by (simp add: length_table_file)
    ultimately have "unat (of_nat (length (data_blocks r pre) + length (encode_block r c)) :: u64)
        = length (data_blocks r pre) + length (encode_block r c)"
      by (intro unat_of_nat_u64) simp
    then have off: "\<not> ?off + of_nat (length (encode_block r c)) > fo_index_off ?ft"
      by (simp add: word_less_nat_alt uoff)
    have "8 \<le> length (encode_block r c)" by (simp add: length_encode_block)
    then have four: "\<not> (of_nat (length (encode_block r c)) :: u32) < 4"
      using unat_of_nat_u32 [OF cl] by (simp add: word_less_nat_alt)
    show ?thesis
      by (subst verify_blocks.simps)
        (simp only: h blen Let_def if_False read_range_of_u32 [OF cl] off four bad D(5) sum.case
          simp_thms if_True)
  qed
  finally have vb: "verify_blocks ?file (fo_index_off ?ft)
      (take (length (index_block r ?cs) - 4) (index_block r ?cs)) = DataChecksum ?off"
    by (simp add: index_block_def)
  have "fo_version ?ft = sst_version" by (simp add: table_footer_def)
  then show "verify_sstable ?file = Inr (DataChecksum ?off)"
    using big ftr inr [of 4] D(3,4) table_file_index(1) [OF ok] crcf
    by (simp add: verify_sstable_def Let_def vb)
  obtain info where info: "inspect_sstable ?file = Inr info" "si_index info = index_of r 0 ?cs"
    using big ftr inr [of 24] D(3,4) table_file_index [OF ok] crcf
    by (simp add: inspect_sstable_def Let_def)
  have sb: "scan_blocks ?file (index_of r 0 pre @ es) =
      and_then (scan_blocks ?file es) (\<lambda>rest. Inr (concat pre @ rest))" for es
  proof -
    have app: "scan_blocks f (xs @ es) = and_then (scan_blocks f xs)
        (\<lambda>a. and_then (scan_blocks f es) (\<lambda>b. Inr (a @ b)))" for f xs
      by (induction xs) (auto simp: and_then_assoc intro!: arg_cong2 [where f = and_then] ext)
    have "scan_blocks ?file (index_of r (length ([] :: bytes)) pre) = Inr (concat pre)"
      by (rule scan_blocks_data [OF _ _ s63, of _ _ _ "blk @ data_blocks r post @
        index_block r ?cs @ encode_filter bl n @ footer_at (table_file r ?cs bl n)"])
        (use ok in \<open>simp_all add: damaged_file_eq\<close>)
    then show ?thesis by (simp add: app)
  qed
  have "scan_block blk = Inl (Thrown CorruptionDetected)" using bad by (simp add: scan_block_def)
  then have "scan_blocks ?file (?e # index_of r (length (data_blocks r (pre @ [c]))) post) =
      Inl (Thrown CorruptionDetected)"
    using rd by simp
  then show "scan_sstable ?file = Inl (Thrown CorruptionDetected)"
    using info sb unfolding index_of_middle by (simp add: scan_sstable_def)
qed

text \<open>What \<open>write_sstable\<close> does to the directory.\<close>

lemma write_sstable_effect:
  assumes "keys_ascending dir" and run: "write_sstable io shape sid mem cfg dir = (res, dir')"
  shows "\<forall>name. name \<noteq> sst_file_name sid \<longrightarrow> name \<noteq> tmp_name (sst_file_name sid) \<longrightarrow>
      map_find dir' name = map_find dir name"
    and "case res of
       Inr r \<Rightarrow> map_find dir' (sst_file_name sid) = Some (fst (encode_sstable shape sid mem cfg))
         \<and> r = snd (encode_sstable shape sid mem cfg)
     | Inl _ \<Rightarrow> map_find dir' (sst_file_name sid) = map_find dir (sst_file_name sid)"
    and "keys_ascending dir'"
proof -
  have ne: "sst_file_name sid \<noteq> tmp_name (sst_file_name sid)" by (simp add: tmp_name_def)
  note W = run [unfolded write_sstable_def Let_def]
  show "\<forall>name. name \<noteq> sst_file_name sid \<longrightarrow> name \<noteq> tmp_name (sst_file_name sid) \<longrightarrow>
      map_find dir' name = map_find dir name"
    using W by (auto simp: map_find_assign map_find_erase [OF assms(1)] split: if_splits prod.splits)
  show "case res of
       Inr r \<Rightarrow> map_find dir' (sst_file_name sid) = Some (fst (encode_sstable shape sid mem cfg))
         \<and> r = snd (encode_sstable shape sid mem cfg)
     | Inl _ \<Rightarrow> map_find dir' (sst_file_name sid) = map_find dir (sst_file_name sid)"
    using W ne by (auto simp: map_find_assign map_find_erase [OF assms(1)] split: if_splits prod.splits)
  show "keys_ascending dir'"
    using W assms(1) by (auto simp: keys_ascending_assign keys_ascending_erase split: if_splits prod.splits)
qed

section \<open>Properties\<close>




definition sample_mem :: memtable where
  "sample_mem = memtable_apply [108] [] 2 True (memtable_apply [107] [118] 1 False (memtable_new 32))"

definition sample_shape :: bloom_shape where
  "sample_shape = (\<lambda>keys fpr. (64, 7, 10))"

lemma sample_mem_entries:
  "sorted_entries sample_mem = [([107], \<lparr>me_value = [118], me_seqno = 1, me_tombstone = False\<rparr>),
     ([108], \<lparr>me_value = [], me_seqno = 2, me_tombstone = True\<rparr>)]"
  by (simp add: sample_mem_def memtable_apply_def memtable_new_def sorted_entries_def)

lemma sample_args_ok: "table_args_ok sample_shape sample_mem default_config"
proof -
  let ?es = "sorted_entries sample_mem"
  have small: "\<forall>kv \<in> set ?es. entry_small kv"
    by (simp add: sample_mem_entries entry_small_def encode_entry_def)
  have bs: "unat (block_size default_config) \<le> 2 ^ 30" by (simp add: default_config_def)
  have "length (fst (encode_sstable sample_shape 0 sample_mem default_config)) < 2 ^ 63"
    by (simp add: encode_sstable_def sample_shape_def sample_mem_entries default_config_def add_entry_def
        builder_new_def bloom_new_def finish_block_def Let_def encode_entry_def encode_index_entry_def
        encode_filter_def kFooterSize_def)
  then show ?thesis
    using small bs
    by (simp add: table_args_ok_def) (simp add: sample_mem_entries sample_shape_def default_config_def
        keys_ascending_def word_le_nat_alt)
qed




text \<open>C31. The footer is not covered by a checksum and its range checks are sums that wrap: any
  file that ends in a footer with index offset and index size 2 to the 63rd, and a filter in
  range, passes them; \<open>inspect_sstable\<close> and \<open>verify_sstable\<close>, which promise a verdict or
  \<open>CorruptionDetected\<close>, then end in the \<open>std::length_error\<close> of a vector of that size.\<close>
theorem footer_sum_wraps:
  assumes "24 \<le> length body" and "length body < 2 ^ 62"
  shows "inspect_sstable (body @ encode_footer (2 ^ 63) (2 ^ 63) 0 24) = Inl Escaped \<and>
    verify_sstable (body @ encode_footer (2 ^ 63) (2 ^ 63) 0 24) = Inl Escaped"
proof -
  let ?f = "body @ encode_footer (2 ^ 63) (2 ^ 63) 0 24"
  let ?ft = "\<lparr>fo_version = sst_version, fo_index_off = 2 ^ 63, fo_index_size = 2 ^ 63,
      fo_filter_off = 0, fo_filter_size = 24\<rparr>"
  have at: "footer_at ?f = encode_footer (2 ^ 63) (2 ^ 63) 0 24"
    by (simp add: footer_at_append footer_at_self)
  have len: "\<not> length ?f < kFooterSize" by simp
  have "unat (of_nat (length ?f) :: u64) = length ?f"
    using assms(2) by (intro unat_of_nat_u64) (simp add: kFooterSize_def)
  then have rng: "footer_in_range ?f ?ft m" if "unat m \<le> 24" for m
    using assms(1) that by (simp add: footer_in_range_def word_less_nat_alt not_less)
  have rd: "read_range ?f (2 ^ 63) (2 ^ 63) = Inl Escaped" by (simp add: read_range_def)
  note P = parse_encode_footer [of "2 ^ 63" "2 ^ 63" 0 24]
  have "inspect_sstable ?f = Inl Escaped"
    unfolding inspect_sstable_def at P Let_def using len rng [of 24] rd by simp
  moreover have "verify_sstable ?f = Inl Escaped"
    unfolding verify_sstable_def at P Let_def using len rng [of 4] rd by simp
  ultimately show ?thesis by simp
qed

theorem footer_sum_wraps_witness:
  "verify_sstable (replicate 24 0 @ encode_footer (2 ^ 63) (2 ^ 63) 0 24) = Inl Escaped"
  using footer_sum_wraps [of "replicate 24 0"] by simp

end
