(* ===== verification/Table_Lookup.thy ===== *)
theory Table_Lookup
  imports Table_Reader Sstable_Format
begin

text \<open>
  What a lookup in a table finds.  The search of one block by restart points, the choice of
  the block by the index and the whole of \<open>TableReader::get\<close> with its cache, its pool of
  files and its lazily loaded parts are equal to a lookup in the list of the entries the
  table was written from.
\<close>

section \<open>A block's entries by position\<close>

definition entry_pos :: "entries \<Rightarrow> nat \<Rightarrow> nat" where
  "entry_pos c i = length (block_body (take i c))"

definition hit_of :: "mem_entry \<Rightarrow> table_hit" where
  "hit_of e = \<lparr>th_value = me_value e, th_seqno = me_seqno e, th_tombstone = me_tombstone e\<rparr>"

lemma entry_pos_Suc:
  "i < length c \<Longrightarrow> entry_pos c (Suc i) =
     entry_pos c i + kEntryHeader + length (fst (c ! i)) + length (me_value (snd (c ! i)))"
  by (cases "c ! i") (simp add: entry_pos_def take_Suc_conv_app_nth length_encode_entry)

lemma entry_pos_le: "entry_pos c i \<le> length (block_body c)"
proof -
  have "block_body c = block_body (take i c) @ block_body (drop i c)"
    by (metis append_take_drop_id block_body_simps(3))
  then show ?thesis by (simp add: entry_pos_def)
qed

lemma entry_pos_all: "length c \<le> i \<Longrightarrow> entry_pos c i = length (block_body c)"
  by (simp add: entry_pos_def)

lemma entry_pos_less: "i < length c \<Longrightarrow> entry_pos c i < length (block_body c)"
  using entry_pos_Suc [of i c] entry_pos_le [of c "Suc i"] by (simp add: kEntryHeader_def)

lemma block_at_entry:
  assumes "i < length c"
  shows "drop (entry_pos c i) (block_body c @ rest) = encode_entry (c ! i) @ block_body (drop (Suc i) c) @ rest"
proof -
  have "c = take i c @ c ! i # drop (Suc i) c" using assms by (rule id_take_nth_drop)
  then have "block_body c = block_body (take i c) @ encode_entry (c ! i) @ block_body (drop (Suc i) c)"
    by (metis block_body_simps(2,3))
  then show ?thesis by (simp add: entry_pos_def)
qed

lemma entry_fields:
  fixes rest :: bytes
  assumes i: "i < length c" and fits: "entry_fits (k, e)" and c: "c ! i = (k, e)"
  defines "p \<equiv> entry_pos c i" and "B \<equiv> block_body c @ rest"
  shows "unat (get_u32 (drop p B)) = length k" "unat (get_u32 (drop (p + 4) B)) = length (me_value e)"
    "get_u64 (drop (p + 8) B) = me_seqno e" "B ! (p + 16) AND kFlagTombstone \<noteq> 0 \<longleftrightarrow> me_tombstone e"
    "bytes_at (p + kEntryHeader) (length k) B = k"
    "bytes_at (p + kEntryHeader + length k) (length (me_value e)) B = me_value e"
proof -
  have at: "drop p B = encode_entry (k, e) @ block_body (drop (Suc i) c) @ rest"
    using block_at_entry [OF i, of rest] by (simp add: p_def B_def c)
  have d: "drop (p + n) B = drop n (encode_entry (k, e) @ block_body (drop (Suc i) c) @ rest)" for n
    by (metis add.commute at drop_drop)
  have pl: "p + 16 < length B"
    using entry_pos_Suc [OF i] entry_pos_le [of c "Suc i"] by (simp add: p_def B_def kEntryHeader_def)
  have lens: "length k < 2 ^ 32" "length (me_value e) < 2 ^ 32" using fits by (simp_all add: entry_fits_def)
  show "unat (get_u32 (drop p B)) = length k" "unat (get_u32 (drop (p + 4) B)) = length (me_value e)"
    "get_u64 (drop (p + 8) B) = me_seqno e"
    using unat_of_nat_u32 lens by (simp_all add: at d) (simp_all add: encode_entry_def)
  have "B ! (p + 16) = drop (p + 16) B ! 0" using pl by simp
  also have "\<dots> = (if me_tombstone e then kFlagTombstone else 0)"
    unfolding d by (simp add: encode_entry_def)
  finally show "B ! (p + 16) AND kFlagTombstone \<noteq> 0 \<longleftrightarrow> me_tombstone e"
    by (simp add: kFlagTombstone_def)
  show "bytes_at (p + kEntryHeader) (length k) B = k"
    unfolding bytes_at_def d by (simp add: encode_entry_def kEntryHeader_def)
  have "drop (p + (kEntryHeader + length k)) B =
      drop (kEntryHeader + length k) (encode_entry (k, e) @ block_body (drop (Suc i) c) @ rest)"
    by (rule d)
  then show "bytes_at (p + kEntryHeader + length k) (length (me_value e)) B = me_value e"
    by (simp add: bytes_at_def add.assoc) (simp add: encode_entry_def kEntryHeader_def)
qed

section \<open>Walking the entries\<close>

lemma keys_ascending_drop: "keys_ascending m \<Longrightarrow> keys_ascending (drop n m)"
  by (metis append_take_drop_id keys_ascending_append)

lemma find_entry_step:
  assumes "unat (get_u32 (drop p B)) = length k" "unat (get_u32 (drop (p + 4) B)) = length (me_value e)"
    "get_u64 (drop (p + 8) B) = me_seqno e" "B ! (p + 16) AND kFlagTombstone \<noteq> 0 \<longleftrightarrow> me_tombstone e"
    "bytes_at (p + kEntryHeader) (length k) B = k"
    "bytes_at (p + kEntryHeader + length k) (length (me_value e)) B = me_value e"
    and "p + kEntryHeader + length k + length (me_value e) \<le> E"
  shows "find_entry B E key p =
    (if k = key then Inr (Some (hit_of e)) else if key < k then Inr None
     else find_entry B E key (p + kEntryHeader + length k + length (me_value e)))"
proof -
  have "p < E" "\<not> E < p + kEntryHeader" "\<not> E < p + kEntryHeader + length k + length (me_value e)"
    using assms(7) by (simp_all add: kEntryHeader_def)
  then show ?thesis
    by (subst find_entry.simps) (simp only: assms(1-6) if_True if_False Let_def hit_of_def)
qed

lemma find_entry_walk:
  assumes asc: "keys_ascending c" and fits: "\<forall>kv \<in> set c. entry_fits kv" and i: "i \<le> length c"
  shows "find_entry (block_body c @ rest) (length (block_body c)) key (entry_pos c i) =
    Inr (map_option hit_of (map_find (drop i c) key))"
  using i
proof (induction "length c - i" arbitrary: i)
  case 0
  then show ?case by (simp add: find_entry.simps entry_pos_all)
next
  case (Suc n)
  then have i: "i < length c" by simp
  obtain k e where ke: "c ! i = (k, e)" by fastforce
  have fit: "entry_fits (k, e)" using fits ke i by (metis nth_mem)
  note F = entry_fields [OF i fit ke, of rest]
  have nxt: "entry_pos c (Suc i) = entry_pos c i + kEntryHeader + length k + length (me_value e)"
    using entry_pos_Suc [OF i] by (simp add: ke)
  have le: "entry_pos c i + kEntryHeader + length k + length (me_value e) \<le> length (block_body c)"
    using entry_pos_le [of c "Suc i"] nxt by simp
  have drop_i: "drop i c = (k, e) # drop (Suc i) c" using i ke by (metis Cons_nth_drop_Suc)
  have IH: "find_entry (block_body c @ rest) (length (block_body c)) key (entry_pos c (Suc i)) =
      Inr (map_option hit_of (map_find (drop (Suc i) c) key))"
    using Suc i by simp
  have none: "map_find (drop (Suc i) c) key = None" if "key < k"
  proof -
    have "\<forall>b \<in> fst ` set (drop (Suc i) c). k < b"
      using keys_ascending_drop [OF asc, of i] by (simp add: drop_i keys_ascending_Cons)
    then show ?thesis using that by (auto simp: map_find_None_iff dest: less_asym)
  qed
  show ?case
    using find_entry_step [OF F le, of key] IH none by (auto simp: drop_i nxt)
qed

section \<open>Restart points\<close>

lemma multiples_below:
  assumes "0 < r"
  shows "filter (\<lambda>i. i mod r = 0) [0..<n] = map (\<lambda>j. j * r) [0..<(n + r - 1) div r]"
proof (induction n)
  case 0
  then show ?case using assms by simp
next
  case (Suc n)
  show ?case
  proof (cases "n mod r = 0")
    case True
    then obtain q where n: "n = q * r" by (metis mod_0_imp_dvd dvd_def mult.commute)
    have "(n + r - 1) div r = q" "(Suc n + r - 1) div r = Suc q"
      by (rule div_nat_eqI; use assms in \<open>simp add: n algebra_simps\<close>)+
    then show ?thesis using Suc by (simp add: n)
  next
    case False
    have "(Suc n + r - 1) div r = (n + r - 1) div r"
    proof -
      have n: "n = n div r * r + n mod r" by simp
      have a: "n + r - 1 = n div r * r + (n mod r + r - 1)" using False n by linarith
      have b: "Suc n + r - 1 = n div r * r + (n mod r + r)" using n by linarith
      have "(n mod r + r - 1) div r = 1" "(n mod r + r) div r = 1"
        using False assms mod_less_divisor [OF assms, of n]
        by (auto intro!: div_nat_eqI)
      then show ?thesis
        unfolding a b using assms by (simp only: div_mult_self3 div_mult_self4)
    qed
    then show ?thesis using Suc False by simp
  qed
qed

lemma restart_points_nth:
  assumes "0 < r" "j < length (restart_points r c)"
  shows "restart_points r c ! j = entry_pos c (j * r)" and "j * r < length c"
proof -
  have len: "length (restart_points r c) = (length c + r - 1) div r"
    using multiples_below [OF assms(1), of "length c"] by (simp add: restart_points_def)
  show "restart_points r c ! j = entry_pos c (j * r)"
    using assms(2) multiples_below [OF assms(1), of "length c"]
    by (simp add: restart_points_def entry_pos_def)
  have "j < (length c + r - 1) div r" using assms(2) len by simp
  then have "Suc j * r \<le> length c + r - 1"
    using assms(1) by (simp add: less_eq_div_iff_mult_less_eq flip: Suc_le_eq)
  then show "j * r < length c" using assms(1) by simp
qed

text \<open>The parts of an encoded block.\<close>

definition block_rest :: "nat \<Rightarrow> entries \<Rightarrow> bytes" where
  "block_rest r c = (let t = block_trailer (map of_nat (restart_points r c))
     in t @ put_u32 (crc32 (block_body c @ t)))"

lemma encode_block_rest: "encode_block r c = block_body c @ block_rest r c"
  by (simp add: encode_block_def block_rest_def with_crc_def Let_def)

lemma concat_put_u32_nth:
  "j < length rs \<Longrightarrow> get_u32 (drop (4 * j) (concat (map put_u32 rs) @ rest)) = rs ! j"
proof (induction rs arbitrary: j)
  case Nil
  then show ?case by simp
next
  case (Cons x rs)
  then show ?case by (cases j) simp_all
qed

lemma restart_offset:
  assumes r: "0 < r" and c: "chunk_ok r c" and j: "j < length (restart_points r c)"
  shows "unat (get_u32 (drop (length (block_body c) + 4 * j) (encode_block r c))) = entry_pos c (j * r)"
proof -
  have "drop (length (block_body c) + 4 * j) (encode_block r c) = drop (4 * j) (block_rest r c)"
    by (simp add: encode_block_rest)
  moreover have "get_u32 (drop (4 * j) (block_rest r c)) = map of_nat (restart_points r c) ! j"
    unfolding block_rest_def block_trailer_def Let_def append_assoc
    by (rule concat_put_u32_nth) (use j in simp)
  ultimately have "get_u32 (drop (length (block_body c) + 4 * j) (encode_block r c)) = of_nat (entry_pos c (j * r))"
    using restart_points_nth [OF r j] j by simp
  moreover have "entry_pos c (j * r) < 2 ^ 32"
    using entry_pos_le [of c "j * r"] c by (simp add: chunk_ok_def length_encode_block)
  ultimately show ?thesis using unat_of_nat_u32 by simp
qed

section \<open>Searching a block\<close>

lemma take_less_or_prefix:
  "(take (min (length k) (length key)) k < take (min (length k) (length key)) key \<or>
    take (min (length k) (length key)) k = take (min (length k) (length key)) key \<and> length k \<le> length key)
   \<longleftrightarrow> k \<le> (key :: bytes)"
proof (induction k arbitrary: key)
  case Nil
  then show ?case by simp
next
  case (Cons a k)
  show ?case
  proof (cases key)
    case Nil
    then show ?thesis by simp
  next
    case (Cons b key')
    then show ?thesis using Cons.IH [of key'] by auto
  qed
qed

lemma key_at_entry:
  assumes i: "i < length c" and fits: "\<forall>kv \<in> set c. entry_fits kv"
  shows "key_at_le (block_body c @ rest) (entry_pos c i) key = Inr (fst (c ! i) \<le> key)"
proof -
  obtain k e where ke: "c ! i = (k, e)" by fastforce
  have "entry_fits (k, e)" using fits ke i by (metis nth_mem)
  note F = entry_fields [OF i this ke, of rest]
  let ?B = "block_body c @ rest" and ?p = "entry_pos c i" and ?m = "min (length k) (length key)"
  have "?p + kEntryHeader + length k \<le> length ?B"
    using entry_pos_Suc [OF i] entry_pos_le [of c "Suc i"] by (simp add: ke)
  then have len: "\<not> length ?B < ?p + 4" "\<not> length ?B < ?p + kEntryHeader + ?m"
    by (simp_all add: kEntryHeader_def)
  have "bytes_at (?p + kEntryHeader) ?m ?B = take ?m (bytes_at (?p + kEntryHeader) (length k) ?B)"
    by (simp only: bytes_at_def take_take min.assoc min.commute min.left_commute min.idem min.left_idem)
  then have "bytes_at (?p + kEntryHeader) ?m ?B = take ?m k" by (simp only: F(5))
  then show ?thesis
    unfolding key_at_le_def Let_def F(1) using len take_less_or_prefix [of k key]
    by (simp only: if_False fst_conv ke)
qed

text \<open>The binary search ends at a restart point not beyond the key, unless it is the first.\<close>

lemma restart_search_correct:
  assumes r: "0 < r" and c: "chunk_ok r c"
    and "lo < hi" "hi \<le> length (restart_points r c)" "lo = 0 \<or> fst (c ! (lo * r)) \<le> key"
  shows "\<exists>j. restart_search (encode_block r c) (length (block_body c)) key lo hi = Inr j \<and>
    j < length (restart_points r c) \<and> (j = 0 \<or> fst (c ! (j * r)) \<le> key)"
  using assms(3-5)
proof (induction "hi - lo" arbitrary: lo hi rule: less_induct)
  case less
  show ?case
  proof (cases "hi - lo > 1")
    case False
    then show ?thesis using less.prems by (subst restart_search.simps) auto
  next
    case True
    let ?mid = "lo + (hi - lo) div 2"
    have mid: "lo < ?mid" "?mid < hi" using True by auto
    then have j: "?mid < length (restart_points r c)" using less.prems(2) by simp
    have at: "unat (get_u32 (drop (length (block_body c) + 4 * ?mid) (encode_block r c)))
        = entry_pos c (?mid * r)"
      by (rule restart_offset [OF r c j])
    have key: "key_at_le (encode_block r c) (entry_pos c (?mid * r)) key = Inr (fst (c ! (?mid * r)) \<le> key)"
      unfolding encode_block_rest
      by (rule key_at_entry) (use restart_points_nth [OF r j] c in \<open>auto simp: chunk_ok_def\<close>)
    have step: "restart_search (encode_block r c) (length (block_body c)) key lo hi =
        (if fst (c ! (?mid * r)) \<le> key
         then restart_search (encode_block r c) (length (block_body c)) key ?mid hi
         else restart_search (encode_block r c) (length (block_body c)) key lo ?mid)"
      using True by (subst restart_search.simps) (simp only: Let_def at key and_then.simps if_True)
    show ?thesis
    proof (cases "fst (c ! (?mid * r)) \<le> key")
      case True
      then show ?thesis unfolding step using less.hyps [of hi ?mid] mid less.prems by auto
    next
      case False
      then show ?thesis unfolding step using less.hyps [of ?mid lo] mid less.prems by auto
    qed
  qed
qed

lemma keys_ascending_nth:
  "keys_ascending m \<Longrightarrow> i < j \<Longrightarrow> j < length m \<Longrightarrow> fst (m ! i) < fst (m ! j)"
  by (simp add: keys_ascending_def sorted_wrt_iff_nth_less)

lemma map_find_drop:
  assumes "keys_ascending m" "i < length m" "i = 0 \<or> fst (m ! i) \<le> key"
  shows "map_find (drop i m) key = map_find m key"
proof -
  have "map_find (take i m) key = None"
  proof -
    have "fst (m ! j) \<noteq> key" if "j < i" for j
      using keys_ascending_nth [OF assms(1) that assms(2)] assms(3) that by auto
    then show ?thesis
      using assms(2) by (auto simp: map_find_None_iff in_set_conv_nth image_iff) (metis fst_conv)
  qed
  then show ?thesis
    using map_find_append [of "take i m" "drop i m" key] by simp
qed

lemma search_block_encode:
  assumes r: "0 < r" and c: "chunk_ok r c" and asc: "keys_ascending c"
  shows "search_block (encode_block r c) key = Inr (map_option hit_of (map_find c key))"
proof -
  let ?B = "encode_block r c" and ?n = "length (restart_points r c)"
  have fits: "\<forall>kv \<in> set c. entry_fits kv" and ne: "c \<noteq> []" and len32: "length ?B < 2 ^ 32"
    using c by (simp_all add: chunk_ok_def)
  have len: "length ?B = length (block_body c) + 4 * ?n + 8" by (rule length_encode_block)
  have n0: "0 < ?n" using length_restart_less [OF r ne] by simp
  have cnt: "unat (get_u32 (drop (length ?B - 8) ?B)) = ?n"
  proof -
    have "drop (length ?B - 8) ?B = drop (4 * ?n) (block_rest r c)"
      by (simp add: len) (simp add: encode_block_rest)
    also have "get_u32 \<dots> = of_nat ?n"
      using block_trailer_count [of "map of_nat (restart_points r c)"]
      by (simp add: block_rest_def Let_def get_u32_append)
    finally show ?thesis using unat_of_nat_u32 [of ?n] len len32 by simp
  qed
  obtain j where j: "restart_search ?B (length (block_body c)) key 0 ?n = Inr j" "j < ?n"
    "j = 0 \<or> fst (c ! (j * r)) \<le> key"
    using restart_search_correct [OF r c n0 order_refl] by auto
  note P = restart_points_nth [OF r j(2)]
  have off: "length ?B - 8 - 4 * ?n = length (block_body c)" by (simp add: len)
  have "find_entry ?B (length (block_body c)) key (entry_pos c (j * r)) =
      Inr (map_option hit_of (map_find (drop (j * r) c) key))"
    unfolding encode_block_rest using find_entry_walk [OF asc fits] P(2) by simp
  also have "map_find (drop (j * r) c) key = map_find c key"
    using map_find_drop [OF asc P(2)] j(3) by auto
  finally have found: "find_entry ?B (length (block_body c)) key (entry_pos c (j * r)) =
      Inr (map_option hit_of (map_find c key))" .
  have "\<not> (?n = 0 \<or> length ?B < 8 + 4 * ?n)" using n0 len by simp
  then show ?thesis
    by (simp only: search_block_def Let_def cnt off j(1) restart_offset [OF r c j(2)] and_then.simps
        if_False found)
qed

section \<open>Choosing the block\<close>

lemma takeWhile_index_of:
  "takeWhile (\<lambda>e. \<not> key < ie_first_key e) (index_of r off cs) =
     index_of r off (takeWhile (\<lambda>c. \<not> key < fst (hd c)) cs)"
  by (induction cs arbitrary: off) auto

lemma length_index_of [simp]: "length (index_of r off cs) = length cs"
  by (induction cs arbitrary: off) auto

lemma map_find_concat_None:
  "(\<forall>c \<in> set cs. \<forall>k \<in> fst ` set c. k \<noteq> key) \<Longrightarrow> map_find (concat cs) key = None"
  by (force simp: map_find_None_iff)

lemma index_find_correct:
  assumes asc: "keys_ascending (concat cs)" and ne: "\<forall>c \<in> set cs. c \<noteq> []"
  shows "(case index_find (index_of r 0 cs) key of
      None \<Rightarrow> map_find (concat cs) key = None
    | Some e \<Rightarrow> \<exists>pre c post. cs = pre @ c # post \<and>
        e = \<lparr>ie_first_key = fst (hd c), ie_offset = of_nat (length (data_blocks r pre)),
             ie_size = of_nat (length (encode_block r c))\<rparr> \<and>
        map_find (concat cs) key = map_find c key)"
proof -
  let ?P = "\<lambda>c :: entries. \<not> key < fst (hd c)"
  define tw where "tw = takeWhile ?P cs"
  define dw where "dw = dropWhile ?P cs"
  have cs: "cs = tw @ dw" by (simp add: tw_def dw_def)
  have later: "k \<noteq> key" if mem: "c \<in> set dw" "k \<in> fst ` set c" for c k
  proof -
    obtain d ds where dw: "dw = d # ds" using mem(1) by (cases dw) auto
    have first: "key < fst (hd d)"
      using dw hd_dropWhile [of ?P cs] by (simp add: dw_def)
    have "keys_ascending (concat dw)"
      using asc by (simp add: cs keys_ascending_append)
    moreover have d: "d \<noteq> []" using ne by (simp add: cs dw)
    moreover have "k \<in> fst ` set (concat dw)" using mem by auto
    ultimately have "fst (hd (concat dw)) \<le> k"
      using keys_ascending_hd_last(1) by fastforce
    moreover have "hd (concat dw) = hd d" using d by (simp add: dw)
    ultimately show ?thesis using first by auto
  qed
  have none: "map_find (concat dw) key = None"
    using later by (intro map_find_concat_None) blast
  have tw_len: "length (takeWhile (\<lambda>e. \<not> key < ie_first_key e) (index_of r 0 cs)) = length tw"
    by (simp add: takeWhile_index_of tw_def)
  show ?thesis
  proof (cases tw rule: rev_cases)
    case Nil
    then show ?thesis using none tw_len by (simp add: index_find_def cs)
  next
    case (snoc pre c)
    have cs': "cs = pre @ c # dw" by (simp add: cs snoc)
    have c: "c \<noteq> []" using ne by (simp add: cs')
    have "fst (hd c) \<le> key"
    proof -
      have "c \<in> set tw" by (simp add: snoc)
      then have "?P c" unfolding tw_def by (rule set_takeWhileD [THEN conjunct2])
      then show ?thesis by simp
    qed
    moreover have "k < fst (hd c)" if "d \<in> set pre" "k \<in> fst ` set d" for d k
    proof -
      have "k \<in> fst ` set (concat pre)" "fst (hd c) \<in> fst ` set (concat (c # dw))"
        using that c by (auto simp: image_iff)
      moreover have "keys_ascending (concat pre @ concat (c # dw))" using asc by (simp add: cs')
      ultimately show ?thesis unfolding keys_ascending_append by blast
    qed
    ultimately have pre: "map_find (concat pre) key = None"
      by (intro map_find_concat_None) fastforce
    have "index_find (index_of r 0 cs) key = Some (index_of r 0 cs ! length pre)"
      using tw_len by (simp add: index_find_def Let_def snoc)
    moreover have "index_of r 0 cs ! length pre = \<lparr>ie_first_key = fst (hd c),
        ie_offset = of_nat (length (data_blocks r pre)), ie_size = of_nat (length (encode_block r c))\<rparr>"
      unfolding cs' index_of_middle by (simp add: nth_append)
    moreover have "map_find (concat cs) key = map_find c key"
      using pre none by (simp add: cs' map_find_append split: option.splits)
    ultimately show ?thesis using cs' by auto
  qed
qed

section \<open>A table and its reader\<close>

text \<open>The file of a table with entries \<open>concat cs\<close>, as the writer leaves it.\<close>

record written =
  wt_r :: nat
  wt_chunks :: "entries list"
  wt_bloom :: bloom
  wt_keys :: u64

definition wt_file :: "written \<Rightarrow> bytes" where
  "wt_file t = table_file (wt_r t) (wt_chunks t) (wt_bloom t) (wt_keys t)"

definition wt_entries :: "written \<Rightarrow> entries" where
  "wt_entries t = concat (wt_chunks t)"

definition wt_footer :: "written \<Rightarrow> footer" where
  "wt_footer t = table_footer (wt_r t) (wt_chunks t) (wt_bloom t) (wt_keys t)"

definition wt_index :: "written \<Rightarrow> index_entry list" where
  "wt_index t = index_of (wt_r t) 0 (wt_chunks t)"

definition written_ok :: "written \<Rightarrow> bool" where
  "written_ok t \<longleftrightarrow> 0 < wt_r t \<and> (\<forall>c \<in> set (wt_chunks t). chunk_ok (wt_r t) c) \<and>
     keys_ascending (wt_entries t) \<and> length (wt_file t) < 2 ^ 63 \<and> bloom_ok (wt_bloom t) \<and>
     (\<forall>kv \<in> set (wt_entries t). bloom_holds (wt_bloom t) (fst kv))"

definition reader_ok :: "written \<Rightarrow> reader \<Rightarrow> bool" where
  "reader_ok t rd \<longleftrightarrow>
     rd_footer rd \<in> {None, Some (wt_footer t)} \<and> (rd_file_open rd \<longrightarrow> rd_footer rd \<noteq> None) \<and>
     rd_index rd \<in> {None, Some (wt_index t)} \<and>
     (rd_bloom_bits rd = [] \<or> rd_bloom_bits rd = bl_bits (wt_bloom t) \<and>
        rd_bloom_num_bits rd = bl_num_bits (wt_bloom t) \<and>
        rd_bloom_num_hashes rd = bl_num_hashes (wt_bloom t)) \<and>
     (\<forall>kv \<in> set (wt_entries t). tm_min_key (rd_meta rd) \<le> fst kv \<and> fst kv \<le> tm_max_key (rd_meta rd))"

text \<open>A block of the table at an offset, and what the cache may hold for it.\<close>

definition block_of :: "written \<Rightarrow> u64 \<Rightarrow> bytes \<Rightarrow> bool" where
  "block_of t off blk \<longleftrightarrow> (\<exists>pre c post. wt_chunks t = pre @ c # post \<and>
     off = of_nat (length (data_blocks (wt_r t) pre)) \<and> blk = encode_block (wt_r t) c)"

definition cache_ok :: "u64 \<Rightarrow> written \<Rightarrow> block_cache \<Rightarrow> bool" where
  "cache_ok tid t c \<longleftrightarrow> (\<forall>off blk. ((tid, off), blk) \<in> set (bc_lru c) \<longrightarrow> block_of t off blk)"

lemma reader_ok_new [inv_intros]:
  "\<forall>kv \<in> set (wt_entries t). tm_min_key meta \<le> fst kv \<and> fst kv \<le> tm_max_key meta \<Longrightarrow>
     reader_ok t (reader_new meta)"
  by (simp add: reader_ok_def reader_new_def)

lemma load_footer_written:
  assumes "written_ok t"
  shows "load_footer (wt_file t) = Inr (wt_footer t)"
proof -
  let ?f = "wt_file t"
  have small: "length ?f < 2 ^ 63" using assms by (simp add: written_ok_def)
  have big: "kFooterSize \<le> length ?f" unfolding wt_file_def by (rule table_file_footer(1))
  have eq: "of_nat (length ?f) - of_nat kFooterSize = (of_nat (length ?f - kFooterSize) :: u64)"
    using big by (simp add: of_nat_diff)
  have rd: "read_range ?f (of_nat (length ?f) - of_nat kFooterSize) (of_nat kFooterSize) = Inr (footer_at ?f)"
    unfolding eq
    by (rule read_range_inside [OF _ _ _ small, of "take (length ?f - kFooterSize) ?f" _ "[]"])
      (use big in \<open>simp_all add: footer_at_def\<close>)
  have ft: "parse_footer (footer_at ?f) = wt_footer t" "get_u32 (drop 36 (footer_at ?f)) = sst_magic"
    unfolding wt_file_def wt_footer_def by (rule table_file_footer)+
  have v: "get_u32 (drop 32 (footer_at ?f)) = sst_version"
    using arg_cong [OF ft(1), of fo_version] by (simp add: parse_footer_def wt_footer_def table_footer_def)
  have "footer_in_range ?f (wt_footer t) 24"
    using table_file_in_range [of "wt_r t" "wt_chunks t" "wt_bloom t" "wt_keys t" 24] small
    by (simp add: wt_file_def wt_footer_def)
  then show ?thesis
    using big by (simp add: load_footer_def rd ft v)
qed

lemma load_index_written:
  assumes "written_ok t"
  shows "load_index (wt_file t) (wt_footer t) = Inr (wt_index t)"
  using assms table_file_ranges(1) table_file_index
  by (simp add: load_index_def written_ok_def wt_file_def wt_footer_def wt_index_def)

lemma load_bloom_written:
  assumes "written_ok t"
  shows "load_bloom (wt_file t) (wt_footer t) =
    Inr (bl_bits (wt_bloom t), bl_num_bits (wt_bloom t), bl_num_hashes (wt_bloom t))"
proof -
  let ?bl = "wt_bloom t" and ?b = "encode_filter (wt_bloom t) (wt_keys t)"
  have small: "length (wt_file t) < 2 ^ 63" and bl: "bloom_ok ?bl" using assms by (simp_all add: written_ok_def)
  have rd: "read_range (wt_file t) (fo_filter_off (wt_footer t)) (fo_filter_size (wt_footer t)) = Inr ?b"
    using table_file_ranges(2) small by (simp add: wt_file_def wt_footer_def)
  have len: "length (bl_bits ?bl) = unat ((bl_num_bits ?bl + 7) div 8)" "bl_num_bits ?bl \<noteq> 0" "bl_num_hashes ?bl \<noteq> 0"
    using bl by (auto simp: bloom_ok_def)
  have nb: "get_u64 ?b = bl_num_bits ?bl" and nh: "get_u32 (drop 8 ?b) = bl_num_hashes ?bl"
    and bits: "bytes_at 20 (length (bl_bits ?bl)) ?b = bl_bits ?bl" and crc: "crc_ok ?b"
    by (simp_all add: encode_filter_def bytes_at_def) (simp_all add: with_crc_def)
  have "(of_nat (length (bl_bits ?bl)) :: u64) = (bl_num_bits ?bl + 7) div 8"
    unfolding len(1) by simp
  then have sz: "20 + (bl_num_bits ?bl + 7) div 8 + 4 = fo_filter_size (wt_footer t)"
    by (simp add: wt_footer_def table_footer_def length_encode_filter)
  show ?thesis
    using len(2,3) bits unfolding load_bloom_def rd and_then.simps Let_def nb nh sz
    by (simp add: crc flip: len(1))
qed

text \<open>What a reader needs of a file to know the table by it; the data blocks are read later.\<close>

definition reads_as :: "written \<Rightarrow> bytes \<Rightarrow> bool" where
  "reads_as t f \<longleftrightarrow> load_footer f = Inr (wt_footer t) \<and> load_index f (wt_footer t) = Inr (wt_index t) \<and>
     load_bloom f (wt_footer t) = Inr (bl_bits (wt_bloom t), bl_num_bits (wt_bloom t), bl_num_hashes (wt_bloom t))"

lemma written_reads: "written_ok t \<Longrightarrow> reads_as t (wt_file t)"
  by (simp add: reads_as_def load_footer_written load_index_written load_bloom_written)

lemma block_of_unique:
  assumes ok: "written_ok t" and b: "block_of t off b" and b': "block_of t off b'"
  shows "b = b'"
proof -
  obtain pre c post where 1: "wt_chunks t = pre @ c # post"
    "off = of_nat (length (data_blocks (wt_r t) pre))" "b = encode_block (wt_r t) c"
    using b by (auto simp: block_of_def)
  obtain pre' c' post' where 2: "wt_chunks t = pre' @ c' # post'"
    "off = of_nat (length (data_blocks (wt_r t) pre'))" "b' = encode_block (wt_r t) c'"
    using b' by (auto simp: block_of_def)
  have lt: "length (data_blocks (wt_r t) p) < 2 ^ 64" if "wt_chunks t = p @ q" for p q
    using ok by (simp add: written_ok_def wt_file_def length_table_file that)
  have len: "length (data_blocks (wt_r t) pre) = length (data_blocks (wt_r t) pre')"
    using lt [OF 1(1)] lt [OF 2(1)] 1(2) 2(2) by (metis unat_of_nat_u64)
  have pos: "length (data_blocks (wt_r t) (x # xs)) \<noteq> 0" for x xs by (simp add: length_encode_block)
  have "pre = pre'"
  proof -
    from 1(1) 2(1) have "pre @ c # post = pre' @ c' # post'" by simp
    then obtain us where "pre = pre' @ us \<or> pre' = pre @ us"
      by (auto simp: append_eq_append_conv2)
    then show ?thesis using len pos by (cases us) auto
  qed
  then show ?thesis using 1 2 by simp
qed

section \<open>The cache keeps blocks of the table\<close>

lemma cache_evict_subset: "set (bc_lru (cache_evict c)) \<subseteq> set (bc_lru c)"
proof (induction c rule: cache_evict.induct)
  case (1 c)
  show ?case
    using 1 by (subst cache_evict.simps) (auto dest: in_set_butlastD)
qed

lemma cache_insert_subset:
  "set (bc_lru (cache_insert tid off blk c)) \<subseteq> insert ((tid, off), blk) (set (bc_lru c))"
proof (cases "map_of (bc_lru c) (tid, off) = None")
  case True
  then show ?thesis
    using cache_evict_subset [of "c\<lparr>bc_used := bc_used c + of_nat (length blk),
        bc_lru := ((tid, off), blk) # bc_lru c\<rparr>"]
    by (simp add: cache_insert_def)
next
  case False
  then show ?thesis by (auto simp: cache_insert_def)
qed

lemma cache_find_correct:
  assumes "cache_find tid off c = (res, c')"
  shows "set (bc_lru c') \<subseteq> set (bc_lru c)" and "res = Some blk \<Longrightarrow> ((tid, off), blk) \<in> set (bc_lru c)"
proof -
  show "set (bc_lru c') \<subseteq> set (bc_lru c)"
  proof (cases "map_of (bc_lru c) (tid, off)")
    case None
    then show ?thesis using assms by (simp add: cache_find_def)
  next
    case (Some b)
    have "((tid, off), b) \<in> set (bc_lru c)" using Some by (rule map_of_SomeD)
    then show ?thesis using assms by (auto simp: cache_find_def Some)
  qed
  show "((tid, off), blk) \<in> set (bc_lru c)" if "res = Some blk"
  proof -
    have "map_of (bc_lru c) (tid, off) = Some blk"
    proof (cases "map_of (bc_lru c) (tid, off)")
      case None
      then show ?thesis using assms that by (simp add: cache_find_def)
    next
      case (Some b)
      then show ?thesis using assms that by (simp add: cache_find_def)
    qed
    then show ?thesis by (rule map_of_SomeD)
  qed
qed

lemma cache_ok_find: "cache_ok tid t c \<Longrightarrow> cache_find a off c = (res, c') \<Longrightarrow> cache_ok tid t c'"
  using cache_find_correct(1) [of a off c res c'] by (auto simp: cache_ok_def)

lemma cache_ok_insert:
  "cache_ok tid t c \<Longrightarrow> block_of t off blk \<Longrightarrow> cache_ok tid t (cache_insert tid off blk c)"
  using cache_insert_subset [of tid off blk c] by (auto simp: cache_ok_def)

lemma cache_ok_insert_other:
  "cache_ok tid t c \<Longrightarrow> a \<noteq> tid \<Longrightarrow> cache_ok tid t (cache_insert a off blk c)"
  using cache_insert_subset [of a off blk c] by (auto simp: cache_ok_def)

lemma cache_ok_new [simp]: "cache_ok tid t (cache_new capacity)"
  by (simp add: cache_ok_def cache_new_def)

section \<open>The steps of a lookup\<close>

text \<open>What every step keeps: the reader belongs to its table, the cache holds only blocks of the
  table for it, and nothing changed in the cache for others but evictions.\<close>

definition get_inv :: "written \<Rightarrow> get_env \<Rightarrow> get_env \<Rightarrow> bool" where
  "get_inv t g g' \<longleftrightarrow> reader_ok t (ge_reader g') \<and> rd_meta (ge_reader g') = rd_meta (ge_reader g) \<and>
     cache_ok (tm_id (rd_meta (ge_reader g))) t (ge_cache g') \<and>
     (\<forall>tid u. tid \<noteq> tm_id (rd_meta (ge_reader g)) \<longrightarrow> cache_ok tid u (ge_cache g) \<longrightarrow> cache_ok tid u (ge_cache g'))"

lemma get_inv_refl:
  "reader_ok t (ge_reader g) \<Longrightarrow> cache_ok (tm_id (rd_meta (ge_reader g))) t (ge_cache g) \<Longrightarrow> get_inv t g g"
  by (simp add: get_inv_def)

lemma reader_open_step:
  assumes rs: "reads_as t f" and g: "get_inv t g0 g"
    and run: "reader_open open_ok f busy g = (res, g')"
  shows "get_inv t g0 g'" and "res = Inr () \<or> \<not> open_ok \<and> res = Inl (Thrown IOFailure)"
    and "res = Inr () \<Longrightarrow> rd_footer (ge_reader g') = Some (wt_footer t)"
proof -
  have R: "reader_ok t (ge_reader g)" using g by (simp add: get_inv_def)
  have "get_inv t g0 g' \<and> (res = Inr () \<or> \<not> open_ok \<and> res = Inl (Thrown IOFailure)) \<and>
    (res = Inr () \<longrightarrow> rd_footer (ge_reader g') = Some (wt_footer t))"
  proof (cases "rd_file_open (ge_reader g)")
    case True
    then show ?thesis
      using run R g by (auto simp: reader_open_def Let_def reader_ok_def get_inv_def)
  next
    case False
    show ?thesis
    proof (cases open_ok)
      case True
      have "rd_footer (ge_reader g) = None \<or> rd_footer (ge_reader g) = Some (wt_footer t)"
        using R by (auto simp: reader_ok_def)
      then show ?thesis
        using run False True R g rs
        by (auto simp: reads_as_def reader_open_def Let_def reader_ok_def get_inv_def split: prod.splits if_splits)
    next
      case closed: False
      then show ?thesis using run False g by (auto simp: reader_open_def Let_def)
    qed
  qed
  then show "get_inv t g0 g'" "res = Inr () \<or> \<not> open_ok \<and> res = Inl (Thrown IOFailure)"
    "res = Inr () \<Longrightarrow> rd_footer (ge_reader g') = Some (wt_footer t)" by blast+
qed

lemma ask_bloom_step:
  assumes ok: "written_ok t" and rs: "reads_as t f" and g: "get_inv t g0 g"
    and ft: "rd_footer (ge_reader g) = Some (wt_footer t)"
    and run: "ask_bloom f key g = (res, g')"
  shows "\<exists>b. res = Inr b \<and> (key \<in> fst ` set (wt_entries t) \<longrightarrow> b) \<and> get_inv t g0 g' \<and>
    rd_footer (ge_reader g') = Some (wt_footer t)"
proof -
  let ?bl = "wt_bloom t" and ?r = "ge_reader g"
  have R: "reader_ok t ?r" using g by (simp add: get_inv_def)
  have bl: "bloom_ok ?bl" using ok by (simp add: written_ok_def)
  have loaded: "(if rd_bloom_bits ?r = [] then load_bloom f (the_footer ?r)
      else Inr (rd_bloom_bits ?r, rd_bloom_num_bits ?r, rd_bloom_num_hashes ?r)) =
      Inr (bl_bits ?bl, bl_num_bits ?bl, bl_num_hashes ?bl)"
    using R rs ft by (auto simp: reads_as_def reader_ok_def the_footer_def)
  obtain b where b: "bloom_may_contain (bl_bits ?bl) (bl_num_bits ?bl) (bl_num_hashes ?bl) key = Inr b"
    using bloom_may_contain_defined bl unfolding bloom_ok_def by blast
  have yes: "b" if "key \<in> fst ` set (wt_entries t)"
  proof -
    have "bloom_holds ?bl key" using that ok by (auto simp: written_ok_def)
    then show ?thesis using bloom_may_contain_holds [OF bl] b by simp
  qed
  have "reader_ok t (?r\<lparr>rd_bloom_bits := bl_bits ?bl, rd_bloom_num_bits := bl_num_bits ?bl,
      rd_bloom_num_hashes := bl_num_hashes ?bl\<rparr>)"
    using R by (simp add: reader_ok_def)
  then have inv: "get_inv t g0 (g\<lparr>ge_reader := ?r\<lparr>rd_bloom_bits := bl_bits ?bl,
      rd_bloom_num_bits := bl_num_bits ?bl, rd_bloom_num_hashes := bl_num_hashes ?bl\<rparr>,
      ge_stats := s, ge_trace := t'\<rparr>)" for s t'
    using g by (simp add: get_inv_def)
  have "res = Inr b \<and> (\<exists>s t'. g' = g\<lparr>ge_reader := ?r\<lparr>rd_bloom_bits := bl_bits ?bl,
      rd_bloom_num_bits := bl_num_bits ?bl, rd_bloom_num_hashes := bl_num_hashes ?bl\<rparr>,
      ge_stats := s, ge_trace := t'\<rparr>)"
  proof (cases b)
    case True
    have "g' = g\<lparr>ge_reader := ?r\<lparr>rd_bloom_bits := bl_bits ?bl,
      rd_bloom_num_bits := bl_num_bits ?bl, rd_bloom_num_hashes := bl_num_hashes ?bl\<rparr>,
      ge_stats := (ge_stats g)\<lparr>rs_blooms_checked := rs_blooms_checked (ge_stats g) + 1\<rparr>,
      ge_trace := ge_trace g\<rparr>" "res = Inr b"
      using run True unfolding ask_bloom_def Let_def loaded by (cases g, auto simp: b)
    then show ?thesis by blast
  next
    case False
    then have "res = Inr b" "\<exists>s t'. g' = g\<lparr>ge_reader := ?r\<lparr>rd_bloom_bits := bl_bits ?bl,
      rd_bloom_num_bits := bl_num_bits ?bl, rd_bloom_num_hashes := bl_num_hashes ?bl\<rparr>,
      ge_stats := s, ge_trace := t'\<rparr>"
      using run unfolding ask_bloom_def Let_def loaded by (auto simp: b)
    then show ?thesis by blast
  qed
  then show ?thesis using yes inv ft by auto
qed

lemma get_index_step:
  assumes rs: "reads_as t f" and g: "get_inv t g0 g" and ft: "rd_footer (ge_reader g) = Some (wt_footer t)"
    and run: "get_index cfg f g = (res, g')"
  shows "res = Inr (wt_index t)" and "get_inv t g0 g'" and "rd_footer (ge_reader g') = Some (wt_footer t)"
proof -
  have R: "reader_ok t (ge_reader g)" using g by (simp add: get_inv_def)
  have "res = Inr (wt_index t) \<and> get_inv t g0 g' \<and> rd_footer (ge_reader g') = Some (wt_footer t)"
    using run R g ft rs
    by (auto simp: reads_as_def get_index_def Let_def reader_ok_def the_footer_def get_inv_def split: if_splits option.splits)
  then show "res = Inr (wt_index t)" "get_inv t g0 g'" "rd_footer (ge_reader g') = Some (wt_footer t)"
    by blast+
qed

lemma fetch_block_written:
  assumes ok: "written_ok t" and cs: "wt_chunks t = pre @ c # post"
  shows "fetch_block (wt_file t) \<lparr>ie_first_key = k, ie_offset = of_nat (length (data_blocks (wt_r t) pre)),
    ie_size = of_nat (length (encode_block (wt_r t) c))\<rparr> = Inr (encode_block (wt_r t) c)"
proof -
  let ?b = "encode_block (wt_r t) c"
  have c: "chunk_ok (wt_r t) c" and small: "length (wt_file t) < 2 ^ 63"
    using ok cs by (simp_all add: written_ok_def)
  have len: "length ?b < 2 ^ 32" using c by (simp add: chunk_ok_def)
  have "1 \<le> length c" using c by (simp add: chunk_ok_def Suc_le_eq)
  then have "12 \<le> length ?b" using length_block_body_ge [of c] by (simp add: length_encode_block)
  then have "\<not> (of_nat (length ?b) :: u32) < 12"
    using unat_of_nat_u32 [OF len] by (simp add: word_less_nat_alt)
  moreover have "read_range (wt_file t) (of_nat (length (data_blocks (wt_r t) pre))) (of_nat (length ?b)) = Inr ?b"
  proof (rule read_range_inside [OF _ refl refl small])
    show "wt_file t = data_blocks (wt_r t) pre @ ?b @ data_blocks (wt_r t) post @
        drop (length (data_blocks (wt_r t) (wt_chunks t))) (wt_file t)"
      by (simp add: wt_file_def table_file_def cs)
  qed
  moreover have "crc_ok ?b" by (simp add: encode_block_def)
  ultimately show ?thesis by (simp add: fetch_block_def read_range_of_u32 [OF len])
qed

lemma get_block_step:
  assumes ok: "written_ok t" and g: "get_inv t g0 g" and cs: "wt_chunks t = pre @ c # post"
    and e: "e = \<lparr>ie_first_key = k, ie_offset = of_nat (length (data_blocks (wt_r t) pre)),
      ie_size = of_nat (length (encode_block (wt_r t) c))\<rparr>"
    and run: "get_block (wt_file t) e g = (res, g')"
  shows "res = Inr (encode_block (wt_r t) c)" and "get_inv t g0 g'"
proof -
  let ?tid = "tm_id (rd_meta (ge_reader g))"
  have tid: "?tid = tm_id (rd_meta (ge_reader g0))" using g by (simp add: get_inv_def)
  have blk: "block_of t (ie_offset e) (encode_block (wt_r t) c)" using cs e by (auto simp: block_of_def)
  obtain found cache where cf: "cache_find ?tid (ie_offset e) (ge_cache g) = (found, cache)" by fastforce
  have keep: "cache_ok a u cache" if "cache_ok a u (ge_cache g)" for a u
    using cache_ok_find [OF that cf] .
  have C: "cache_ok ?tid t (ge_cache g)" using g tid by (simp add: get_inv_def)
  have "res = Inr (encode_block (wt_r t) c) \<and> get_inv t g0 g'"
  proof (cases found)
    case (Some b)
    then have "block_of t (ie_offset e) b"
      using C cache_find_correct(2) [OF cf] by (auto simp: cache_ok_def)
    then have "b = encode_block (wt_r t) c" using block_of_unique [OF ok _ blk] by blast
    then show ?thesis
      using run g keep by (auto simp: get_block_def Let_def cf Some get_inv_def)
  next
    case None
    have "cache_ok a u (cache_insert ?tid (ie_offset e) (encode_block (wt_r t) c) cache)"
      if "a \<noteq> ?tid" "cache_ok a u (ge_cache g)" for a u
      using cache_ok_insert_other [OF keep [OF that(2)] not_sym [OF that(1)]] .
    moreover have "cache_ok ?tid t (cache_insert ?tid (ie_offset e) (encode_block (wt_r t) c) cache)"
      using cache_ok_insert [OF keep [OF C] blk] .
    ultimately show ?thesis
      using run g fetch_block_written [OF ok cs, of k, folded e]
      by (auto simp: get_block_def Let_def cf [unfolded tid] None get_inv_def)
  qed
  then show "res = Inr (encode_block (wt_r t) c)" "get_inv t g0 g'" by blast+
qed

lemma table_get_step:
  assumes ok: "written_ok t" and R: "reader_ok t (ge_reader g)"
    and C: "cache_ok (tm_id (rd_meta (ge_reader g))) t (ge_cache g)"
    and run: "table_get cfg open_ok (wt_file t) busy key g = (res, g')"
  shows "res = Inr (map_option hit_of (map_find (wt_entries t) key)) \<or>
      \<not> open_ok \<and> res = Inl (Thrown IOFailure)"
    and "get_inv t g g'"
proof -
  have rs: "reads_as t (wt_file t)" using ok by (rule written_reads)
  let ?found = "map_option hit_of (map_find (wt_entries t) key)"
  let ?meta = "rd_meta (ge_reader g)"
  have asc: "keys_ascending (concat (wt_chunks t))" and ne: "\<forall>c \<in> set (wt_chunks t). c \<noteq> []"
    using ok by (auto simp: written_ok_def wt_entries_def chunk_ok_def)
  have absent: "?found = None" if "key \<notin> fst ` set (wt_entries t)"
    using that by (simp add: map_find_None_iff)
  have "(res = Inr ?found \<or> \<not> open_ok \<and> res = Inl (Thrown IOFailure)) \<and> get_inv t g g'"
  proof (cases "key < tm_min_key ?meta \<or> key > tm_max_key ?meta")
    case True
    then have "key \<notin> fst ` set (wt_entries t)" using R by (force simp: reader_ok_def)
    then show ?thesis
      using True run absent get_inv_refl [OF R C] by (auto simp: table_get_def Let_def get_inv_def)
  next
    case False
    obtain r1 g1 where 1: "reader_open open_ok (wt_file t) busy g = (r1, g1)" by fastforce
    note S1 = reader_open_step [OF rs get_inv_refl [OF R C] 1]
    show ?thesis
    proof (cases r1)
      case (Inl err)
      then show ?thesis using run False S1 by (auto simp: table_get_def Let_def 1)
    next
      case (Inr u)
      obtain r2 g2 where 2: "ask_bloom (wt_file t) key g1 = (r2, g2)" by fastforce
      have ft1: "rd_footer (ge_reader g1) = Some (wt_footer t)" using S1(3) Inr by simp
      obtain b where b: "r2 = Inr b" "key \<in> fst ` set (wt_entries t) \<longrightarrow> b" "get_inv t g g2"
        "rd_footer (ge_reader g2) = Some (wt_footer t)"
        using ask_bloom_step [OF ok rs S1(1) ft1 2] by blast
      show ?thesis
      proof (cases b)
        case no: False
        then show ?thesis
          using run False b absent by (auto simp: table_get_def Let_def 1 2 Inr)
      next
        case yes: True
        obtain r3 g3 where 3: "get_index cfg (wt_file t) g2 = (r3, g3)" by fastforce
        note S3 = get_index_step [OF rs b(3,4) 3]
        have F: "case index_find (wt_index t) key of
            None \<Rightarrow> map_find (concat (wt_chunks t)) key = None
          | Some e \<Rightarrow> \<exists>pre c post. wt_chunks t = pre @ c # post \<and>
              e = \<lparr>ie_first_key = fst (hd c), ie_offset = of_nat (length (data_blocks (wt_r t) pre)),
                   ie_size = of_nat (length (encode_block (wt_r t) c))\<rparr> \<and>
              map_find (concat (wt_chunks t)) key = map_find c key"
          unfolding wt_index_def by (rule index_find_correct [OF asc ne])
        have so_far: "table_get cfg open_ok (wt_file t) busy key g =
            (case index_find (wt_index t) key of None \<Rightarrow> (Inr None, g3)
             | Some e \<Rightarrow> bind_st (get_block (wt_file t) e g3) (\<lambda>block g4. (search_block block key, g4)))"
          using False b(1) yes S3(1) by (simp add: table_get_def Let_def 1 2 3 Inr)
        show ?thesis
        proof (cases "index_find (wt_index t) key")
          case None
          then show ?thesis using F so_far run S3(2) by (simp add: wt_entries_def)
        next
          case (Some e)
          obtain pre c post where c: "wt_chunks t = pre @ c # post"
            "e = \<lparr>ie_first_key = fst (hd c), ie_offset = of_nat (length (data_blocks (wt_r t) pre)),
                 ie_size = of_nat (length (encode_block (wt_r t) c))\<rparr>"
            "map_find (concat (wt_chunks t)) key = map_find c key"
            using F Some by auto
          obtain r4 g4 where 4: "get_block (wt_file t) e g3 = (r4, g4)" by fastforce
          note S4 = get_block_step [OF ok S3(2) c(1,2) 4]
          have "search_block (encode_block (wt_r t) c) key = Inr (map_option hit_of (map_find c key))"
            using ok asc
            by (intro search_block_encode) (auto simp: written_ok_def c(1) keys_ascending_append)
          then show ?thesis
            using so_far run Some 4 S4 c(3) by (simp add: wt_entries_def)
        qed
      qed
    qed
  qed
  then show "res = Inr ?found \<or> \<not> open_ok \<and> res = Inl (Thrown IOFailure)" "get_inv t g g'"
    by blast+
qed


section \<open>A damaged block\<close>

lemma load_footer_same:
  assumes len: "length f = length f'" and foot: "footer_at f = footer_at f'" and small: "length f < 2 ^ 63"
  shows "load_footer f = load_footer f'"
proof (cases "length f < kFooterSize")
  case True
  then show ?thesis using len by (simp add: load_footer_def)
next
  case False
  have rd: "read_range h (of_nat (length h) - of_nat kFooterSize) (of_nat kFooterSize) = Inr (footer_at h)"
    if "length h = length f" for h
  proof -
    have eq: "of_nat (length h) - of_nat kFooterSize = (of_nat (length h - kFooterSize) :: u64)"
      using False that by (simp add: of_nat_diff)
    show ?thesis
      unfolding eq
      by (rule read_range_inside [of _ "take (length h - kFooterSize) h" _ "[]"])
        (use False small that in \<open>simp_all add: footer_at_def\<close>)
  qed
  have "read_range f (of_nat (length f') - of_nat kFooterSize) (of_nat kFooterSize) = Inr (footer_at f')"
    using rd [OF refl] by (simp add: len foot)
  then show ?thesis
    using False rd [OF len [symmetric]] by (simp add: load_footer_def footer_in_range_def len)
qed

lemma damaged_reads:
  assumes ok: "written_ok t" and cs: "wt_chunks t = pre @ c # post"
    and len: "length blk = length (encode_block (wt_r t) c)"
  defines "f \<equiv> damaged_file (wt_r t) pre blk c post (wt_bloom t) (wt_keys t)"
  shows "reads_as t f"
    and "read_range f (of_nat (length (data_blocks (wt_r t) pre))) (of_nat (length (encode_block (wt_r t) c))) = Inr blk"
proof -
  have whole: "wt_file t = table_file (wt_r t) (pre @ c # post) (wt_bloom t) (wt_keys t)"
    and ft: "wt_footer t = table_footer (wt_r t) (pre @ c # post) (wt_bloom t) (wt_keys t)"
    by (simp_all add: wt_file_def wt_footer_def cs)
  have small: "length (wt_file t) < 2 ^ 63" using ok by (simp add: written_ok_def)
  note R = damaged_file_reads [OF len small [unfolded whole], folded whole ft f_def]
  note T = table_file_ranges [OF small [unfolded whole], folded whole ft]
  have "load_footer f = load_footer (wt_file t)"
    using R(1,2) small by (intro load_footer_same) simp_all
  moreover have "load_index f (wt_footer t) = load_index (wt_file t) (wt_footer t)"
    by (simp add: load_index_def R(3) T(1))
  moreover have "load_bloom f (wt_footer t) = load_bloom (wt_file t) (wt_footer t)"
    by (simp add: load_bloom_def R(4) T(2))
  ultimately show "reads_as t f" using written_reads [OF ok] by (simp add: reads_as_def)
  show "read_range f (of_nat (length (data_blocks (wt_r t) pre))) (of_nat (length (encode_block (wt_r t) c))) = Inr blk"
    by (rule R(5))
qed

lemma chunk_of_key_unique:
  assumes "keys_ascending (concat cs)" and "cs = pre @ c # post" and "cs = pre' @ c' # post'"
    and "key \<in> fst ` set c" and "key \<in> fst ` set c'"
  shows "pre' = pre \<and> c' = c"
proof -
  have once: "key \<notin> fst ` set c2" if "cs = xs @ c1 # ys @ c2 # zs" "key \<in> fst ` set c1" for xs ys zs c1 c2
    using keys_ascending_distinct [OF assms(1)] that(2) unfolding that(1) by auto
  have "pre @ c # post = pre' @ c' # post'" using assms(2,3) by simp
  then obtain us where "pre = pre' @ us \<and> us @ c # post = c' # post' \<or>
      pre' = pre @ us \<and> c # post = us @ c' # post'"
    by (auto simp: append_eq_append_conv2)
  then show ?thesis
  proof (cases us)
    case Nil
    then show ?thesis
      using \<open>pre = pre' @ us \<and> us @ c # post = c' # post' \<or> pre' = pre @ us \<and> c # post = us @ c' # post'\<close>
      by auto
  next
    case (Cons u us')
    then have "cs = pre' @ c' # us' @ c # post \<or> cs = pre @ c # us' @ c' # post'"
      using \<open>pre = pre' @ us \<and> us @ c # post = c' # post' \<or> pre' = pre @ us \<and> c # post = us @ c' # post'\<close>
        assms(2,3) by auto
    then show ?thesis using once assms(4,5) by blast
  qed
qed

text \<open>A key of the damaged block, which is not in the cache, and a reader that knows the table.\<close>

lemma table_get_damaged:
  assumes ok: "written_ok t" and cs: "wt_chunks t = pre @ c # post"
    and len: "length blk = length (encode_block (wt_r t) c)" and bad: "\<not> crc_ok blk"
    and R: "reader_ok t (ge_reader g)" and C: "cache_ok (tm_id (rd_meta (ge_reader g))) t (ge_cache g)"
    and cold: "cache_find (tm_id (rd_meta (ge_reader g))) (of_nat (length (data_blocks (wt_r t) pre))) (ge_cache g)
      = (None, ge_cache g)"
    and key: "key \<in> fst ` set c"
    and run: "table_get cfg True (damaged_file (wt_r t) pre blk c post (wt_bloom t) (wt_keys t)) busy key g = (res, g')"
  shows "res = Inl (Thrown CorruptionDetected) \<and> ge_cache g' = ge_cache g"
proof -
  define f where "f = damaged_file (wt_r t) pre blk c post (wt_bloom t) (wt_keys t)"
  note D = damaged_reads [OF ok cs len, folded f_def]
  have asc: "keys_ascending (concat (wt_chunks t))" and ne: "\<forall>c \<in> set (wt_chunks t). c \<noteq> []"
    using ok by (auto simp: written_ok_def wt_entries_def chunk_ok_def)
  have key_in: "key \<in> fst ` set (wt_entries t)" using key cs by (auto simp: wt_entries_def)
  then have inside: "\<not> (key < tm_min_key (rd_meta (ge_reader g)) \<or> key > tm_max_key (rd_meta (ge_reader g)))"
    using R by (force simp: reader_ok_def)
  obtain r1 g1 where 1: "reader_open True f busy g = (r1, g1)" by fastforce
  note S1 = reader_open_step [OF D(1) get_inv_refl [OF R C] 1]
  have r1: "r1 = Inr ()" using S1(2) by simp
  obtain r2 g2 where 2: "ask_bloom f key g1 = (r2, g2)" by fastforce
  obtain b where b: "r2 = Inr b" "key \<in> fst ` set (wt_entries t) \<longrightarrow> b" "get_inv t g g2"
    "rd_footer (ge_reader g2) = Some (wt_footer t)"
    using ask_bloom_step [OF ok D(1) S1(1) S1(3) [OF r1] 2] by blast
  obtain r3 g3 where 3: "get_index cfg f g2 = (r3, g3)" by fastforce
  note S3 = get_index_step [OF D(1) b(3,4) 3]
  have cache: "ge_cache g3 = ge_cache g"
    using 1 2 3
    by (auto simp: reader_open_def ask_bloom_def get_index_def Let_def split: if_splits prod.splits sum.splits
        option.splits bool.splits)
  have meta: "rd_meta (ge_reader g3) = rd_meta (ge_reader g)" using S3(2) by (simp add: get_inv_def)
  have F: "case index_find (wt_index t) key of
      None \<Rightarrow> map_find (concat (wt_chunks t)) key = None
    | Some e \<Rightarrow> \<exists>pre c post. wt_chunks t = pre @ c # post \<and>
        e = \<lparr>ie_first_key = fst (hd c), ie_offset = of_nat (length (data_blocks (wt_r t) pre)),
             ie_size = of_nat (length (encode_block (wt_r t) c))\<rparr> \<and>
        map_find (concat (wt_chunks t)) key = map_find c key"
    unfolding wt_index_def by (rule index_find_correct [OF asc ne])
  obtain e where e: "index_find (wt_index t) key = Some e" "e = \<lparr>ie_first_key = fst (hd c),
      ie_offset = of_nat (length (data_blocks (wt_r t) pre)), ie_size = of_nat (length (encode_block (wt_r t) c))\<rparr>"
  proof (cases "index_find (wt_index t) key")
    case None
    then show ?thesis using F key_in by (simp add: wt_entries_def map_find_None_iff)
  next
    case (Some e)
    then obtain pre' c' post' where e: "wt_chunks t = pre' @ c' # post'"
      "e = \<lparr>ie_first_key = fst (hd c'), ie_offset = of_nat (length (data_blocks (wt_r t) pre')),
         ie_size = of_nat (length (encode_block (wt_r t) c'))\<rparr>"
      "map_find (concat (wt_chunks t)) key = map_find c' key"
      using F by auto
    have "key \<in> fst ` set c'"
      using e(3) key_in map_find_None_iff [of "wt_entries t" key] map_find_None_iff [of c' key]
      by (metis wt_entries_def)
    then have "pre' = pre \<and> c' = c" using chunk_of_key_unique asc cs e(1) key by metis
    then show ?thesis using that Some e(2) by blast
  qed
  have "chunk_ok (wt_r t) c" using ok cs by (simp add: written_ok_def)
  then have small: "length (encode_block (wt_r t) c) < 2 ^ 32" by (simp add: chunk_ok_def)
  have "fetch_block f e = Inl (Thrown CorruptionDetected)"
    using D(2) bad by (simp add: fetch_block_def e(2) read_range_of_u32 [OF small])
  then obtain g4 where "get_block f e g3 = (Inl (Thrown CorruptionDetected), g4)" "ge_cache g4 = ge_cache g"
    using cold by (simp add: get_block_def Let_def meta cache e(2))
  then show ?thesis
    using run inside r1 b(1,2) key_in S3(1) e(1) unfolding f_def [symmetric]
    by (auto simp: table_get_def Let_def 1 2 3)
qed

section \<open>A reader among others\<close>

text \<open>What happens to a reader between and during its lookups: its own lookups, the pool closing
  its file, the use of the shared cache by other readers, other changes to pool and counters.\<close>

inductive reader_steps :: "bytes \<Rightarrow> get_env \<Rightarrow> get_env \<Rightarrow> bool" for bs :: bytes where
  start: "reader_steps bs g g"
| lookup: "reader_steps bs g g1 \<Longrightarrow> reader_steps bs g (snd (table_get cfg open_ok bs busy key g1))"
| evicted: "reader_steps bs g g1 \<Longrightarrow> reader_steps bs g (g1\<lparr>ge_reader := close_file (ge_reader g1)\<rparr>)"
| cache_hit: "reader_steps bs g g1 \<Longrightarrow>
    reader_steps bs g (g1\<lparr>ge_cache := snd (cache_find a off (ge_cache g1))\<rparr>)"
| cache_fill: "reader_steps bs g g1 \<Longrightarrow> a \<noteq> tm_id (rd_meta (ge_reader g1)) \<Longrightarrow>
    reader_steps bs g (g1\<lparr>ge_cache := cache_insert a off blk (ge_cache g1)\<rparr>)"
| others: "reader_steps bs g g1 \<Longrightarrow>
    reader_steps bs g (g1\<lparr>ge_fds := fds, ge_stats := st, ge_trace := tr, ge_closed := cl\<rparr>)"

lemma rd_meta_close [simp]: "rd_meta (close_file r) = rd_meta r"
  by (simp add: close_file_def)

lemma reader_ok_closed: "reader_ok t r \<Longrightarrow> reader_ok t (close_file r)"
  by (auto simp: reader_ok_def close_file_def)

lemma reader_steps_inv:
  assumes "reader_steps (wt_file t) g g'" and ok: "written_ok t" and "reader_ok t (ge_reader g)"
    and "cache_ok (tm_id (rd_meta (ge_reader g))) t (ge_cache g)"
  shows "reader_ok t (ge_reader g') \<and> rd_meta (ge_reader g') = rd_meta (ge_reader g) \<and>
    cache_ok (tm_id (rd_meta (ge_reader g))) t (ge_cache g')"
  using assms(1,3,4)
proof (induction rule: reader_steps.induct)
  case (start g)
  then show ?case by simp
next
  case (lookup g g1 cfg open_ok busy key)
  note I = lookup.IH [OF lookup.prems]
  have "get_inv t g1 (snd (table_get cfg open_ok (wt_file t) busy key g1))"
    using I by (intro table_get_step(2) [OF ok _ _ surjective_pairing]) simp_all
  then show ?case using I by (simp add: get_inv_def)
next
  case (evicted g g1)
  then show ?case using reader_ok_closed by simp
next
  case (cache_hit g g1 a off)
  have "cache_ok i u (snd (cache_find a off (ge_cache g1)))" if "cache_ok i u (ge_cache g1)" for i u
    using cache_ok_find [OF that] by (metis surjective_pairing)
  then show ?case using cache_hit by simp
next
  case (cache_fill g g1 a off blk)
  then show ?case by (simp add: cache_ok_insert_other)
next
  case (others g g1 fds st tr cl)
  then show ?case by simp
qed

section \<open>Tables written by the engine\<close>

text \<open>The description of a table's file that its reader and the cache are judged by.\<close>

lemma encode_sstable_written:
  assumes "table_args_ok shape mem cfg" and enc: "encode_sstable shape sid mem cfg = (bs, res)"
  obtains t where "written_ok t" "wt_file t = bs" "wt_entries t = sorted_entries mem"
    "\<forall>kv \<in> set (wt_entries t). br_min_key res \<le> fst kv \<and> fst kv \<le> br_max_key res"
proof -
  obtain cs bl n res' where E: "encode_sstable shape sid mem cfg = (table_file (unat (restart_interval cfg)) cs bl n, res')"
    and T0: "concat cs = sorted_entries mem" "\<forall>c \<in> set cs. chunk_ok (unat (restart_interval cfg)) c"
    "length (table_file (unat (restart_interval cfg)) cs bl n) < 2 ^ 63" "bloom_ok bl"
    "\<forall>kv \<in> set (sorted_entries mem). bloom_holds bl (fst kv)"
    "br_min_key res' = fst (hd (sorted_entries mem))" "br_max_key res' = fst (last (sorted_entries mem))"
    by (rule encode_sstable_table [OF assms(1), of sid]) blast
  have bs: "bs = table_file (unat (restart_interval cfg)) cs bl n" and "res' = res"
    using E enc by simp_all
  note T = bs T0 [folded bs, unfolded \<open>res' = res\<close>]
  let ?t = "\<lparr>wt_r = unat (restart_interval cfg), wt_chunks = cs, wt_bloom = bl, wt_keys = n\<rparr>"
  have asc: "keys_ascending (sorted_entries mem)" and r: "0 < restart_interval cfg"
    using assms(1) by (simp_all add: table_args_ok_def)
  show ?thesis
  proof
    show "written_ok ?t"
      using T asc r by (simp add: written_ok_def wt_entries_def wt_file_def unat_gt_0 word_less_nat_alt)
    show "wt_file ?t = bs" "wt_entries ?t = sorted_entries mem"
      using T by (simp_all add: wt_file_def wt_entries_def)
    show "\<forall>kv \<in> set (wt_entries ?t). br_min_key res \<le> fst kv \<and> fst kv \<le> br_max_key res"
      using T(2,7,8) keys_ascending_hd_last [OF asc] by (auto simp: wt_entries_def)
  qed
qed

section \<open>Properties\<close>

text \<open>C9. Reading a table back.  Take a table that the writer produced from a memtable, and a reader
  made for it from the writer's own description of it.  After any history of that reader (its own
  lookups, its file closed by the pool of open files, any use of the shared block cache by others),
  a lookup of any key, present, deleted or absent, gives exactly the memtable's entry for it, or the
  error of a file that cannot be opened.  It never reports corruption and never loops or reads
  outside a block, whatever the cache holds.\<close>

theorem table_get_correct:
  assumes "table_args_ok shape mem cfg" and enc: "encode_sstable shape sid mem cfg = (bs, res)"
    and rd: "ge_reader g = reader_new (meta_of res now)"
    and cold: "\<forall>off blk. ((sid, off), blk) \<notin> set (bc_lru (ge_cache g))"
    and hist: "reader_steps bs g g1" and run: "table_get cfg' open_ok bs busy key g1 = (r, g2)"
  shows "r = Inr (map_option hit_of (memtable_find mem key)) \<or> \<not> open_ok \<and> r = Inl (Thrown IOFailure)"
proof -
  obtain t where t: "written_ok t" "wt_file t = bs" "wt_entries t = sorted_entries mem"
    "\<forall>kv \<in> set (wt_entries t). br_min_key res \<le> fst kv \<and> fst kv \<le> br_max_key res"
    using encode_sstable_written [OF assms(1,2)] .
  have sid: "br_id res = sid"
    by (rule encode_sstable_table [OF assms(1), of sid]) (use enc in simp)
  have "reader_ok t (ge_reader g)" unfolding rd by (rule reader_ok_new) (use t(4) in \<open>simp add: meta_of_def\<close>)
  moreover have "cache_ok (tm_id (rd_meta (ge_reader g))) t (ge_cache g)"
    using cold by (simp add: cache_ok_def rd reader_new_def meta_of_def sid)
  ultimately have "reader_ok t (ge_reader g1) \<and> cache_ok (tm_id (rd_meta (ge_reader g1))) t (ge_cache g1)"
    using reader_steps_inv [of t g g1] hist t(1,2) by metis
  then show ?thesis
    using table_get_step(1) [OF t(1), of g1 cfg' open_ok busy key r g2] run t(2,3)
    by (simp add: memtable_find_def sorted_entries_def)
qed

theorem table_get_correct_witness:
  "let (bs, res) = encode_sstable sample_shape 1 sample_mem default_config;
       g = \<lparr>ge_reader = reader_new (meta_of res ''''), ge_cache = cache_new 4096, ge_fds = fd_pool_new 2,
            ge_stats = no_stats, ge_trace = no_trace, ge_closed = []\<rparr>;
       (first, g1) = table_get default_config True bs (\<lambda>_. False) [107] g
   in fst (table_get default_config True bs (\<lambda>_. False) [108] g1) =
        Inr (Some \<lparr>th_value = [], th_seqno = 2, th_tombstone = True\<rparr>)"
proof -
  obtain bs res where enc: "encode_sstable sample_shape 1 sample_mem default_config = (bs, res)"
    by fastforce
  let ?g = "\<lparr>ge_reader = reader_new (meta_of res ''''), ge_cache = cache_new 4096, ge_fds = fd_pool_new 2,
    ge_stats = no_stats, ge_trace = no_trace, ge_closed = []\<rparr>"
  let ?g1 = "snd (table_get default_config True bs (\<lambda>_. False) [107] ?g)"
  have "reader_steps bs ?g ?g1" by (intro reader_steps.intros)
  then have "fst (table_get default_config True bs (\<lambda>_. False) [108] ?g1) =
      Inr (map_option hit_of (memtable_find sample_mem [108]))"
    using table_get_correct [OF sample_args_ok enc, of ?g "[]" ?g1 default_config True "\<lambda>_. False" "[108]"]
    by (simp add: cache_new_def prod_eq_iff)
  then show ?thesis
    using sample_mem_entries by (simp add: enc case_prod_beta memtable_find_def sorted_entries_def hit_of_def)
qed



definition sample_written :: written where
  "sample_written = \<lparr>wt_r = 16, wt_chunks = [sorted_entries sample_mem],
     wt_bloom = fold bloom_add [[107], [108]] (bloom_new 64 7), wt_keys = 2\<rparr>"

definition sample_env :: get_env where
  "sample_env = \<lparr>ge_reader = reader_new \<lparr>tm_id = 1, tm_file_name = sst_file_name 1, tm_min_key = [107],
       tm_max_key = [108], tm_min_seqno = 1, tm_max_seqno = 2, tm_created_at = [], tm_file_size = 0,
       tm_entries = 2, tm_bloom_bits_per_key = 10, tm_bloom_hashes = 7\<rparr>,
     ge_cache = cache_new 4096, ge_fds = fd_pool_new 2, ge_stats = no_stats, ge_trace = no_trace, ge_closed = []\<rparr>"

lemma sample_written_ok: "written_ok sample_written"
proof -
  let ?c = "sorted_entries sample_mem" and ?bl = "fold bloom_add [[107], [108]] (bloom_new 64 7)"
  have small: "\<forall>kv \<in> set ?c. entry_small kv"
    by (simp add: sample_mem_entries entry_small_def encode_entry_def)
  then have c: "chunk_ok 16 ?c"
    by (intro chunk_ok_small) (simp_all add: sample_mem_entries encode_entry_def)
  have bl: "bloom_ok ?bl \<and> (\<forall>k. k \<in> set [[107], [108]] \<or> bloom_holds (bloom_new 64 7) k \<longrightarrow> bloom_holds ?bl k)"
    by (rule bloom_add_all, rule bloom_ok_new) (simp add: word_le_nat_alt)
  have len: "length (bl_bits (bloom_new 64 7)) = 8"
    by (simp add: bloom_new_def)
  show ?thesis
    using c bl
    by (simp add: written_ok_def sample_written_def wt_entries_def wt_file_def length_table_file index_block_def
        length_encode_filter kFooterSize_def length_encode_block restart_points_def Let_def len)
      (simp add: sample_mem_entries encode_entry_def encode_index_entry_def keys_ascending_def)
qed


end
