(* ===== verification/Read_Resources.thy ===== *)
theory Read_Resources
  imports Table_Reader
begin

text \<open>
  The two bounded resources the readers share: the block cache stays within its capacity and
  evicts the least recently used blocks only; the pool of open files stays within its limit up to
  the readers that were busy when their file should have been closed.
\<close>

section \<open>The block cache\<close>

definition lru_bytes :: "(block_key \<times> bytes) list \<Rightarrow> nat" where
  "lru_bytes xs = (\<Sum>(k, b)\<leftarrow>xs. length b)"

definition cache_wf :: "block_cache \<Rightarrow> bool" where
  "cache_wf c \<longleftrightarrow> distinct (map fst (bc_lru c)) \<and> bc_used c = of_nat (lru_bytes (bc_lru c)) \<and>
     lru_bytes (bc_lru c) \<le> unat (bc_capacity c)"

lemma lru_bytes_simps [simp]:
  "lru_bytes [] = 0" "lru_bytes (p # xs) = length (snd p) + lru_bytes xs"
  "lru_bytes (xs @ ys) = lru_bytes xs + lru_bytes ys"
  by (simp_all add: lru_bytes_def case_prod_beta)

lemma cache_wf_new [inv_intros, simp]: "cache_wf (cache_new capacity)"
  by (simp add: cache_wf_def cache_new_def)

lemma lru_bytes_move: "distinct (map fst xs) \<Longrightarrow> map_of xs k = Some b \<Longrightarrow>
    lru_bytes ((k, b) # filter (\<lambda>p. fst p \<noteq> k) xs) = lru_bytes xs"
proof (induction xs)
  case Nil
  then show ?case by simp
next
  case (Cons p xs)
  obtain a x where p: "p = (a, x)" by (cases p)
  show ?case
  proof (cases "a = k")
    case True
    have "filter (\<lambda>p. fst p \<noteq> k) xs = xs"
      using Cons.prems(1) True by (force simp: p filter_id_conv)
    then show ?thesis using Cons.prems(2) True by (simp add: p)
  next
    case False
    then show ?thesis using Cons by (simp add: p)
  qed
qed

lemma cache_wf_find [inv_intros]: "cache_wf c \<Longrightarrow> cache_wf (snd (cache_find a off c))"
proof (cases "map_of (bc_lru c) (a, off)")
  case None
  then show "cache_wf c \<Longrightarrow> ?thesis" by (simp add: cache_find_def)
next
  case (Some b)
  assume wf: "cache_wf c"
  then have "lru_bytes (((a, off), b) # filter (\<lambda>p. fst p \<noteq> (a, off)) (bc_lru c)) = lru_bytes (bc_lru c)"
    using Some by (intro lru_bytes_move) (simp_all add: cache_wf_def)
  then show ?thesis
    using wf Some by (auto simp: cache_find_def cache_wf_def distinct_map_filter)
qed

text \<open>Eviction keeps the longest prefix that fits.\<close>

lemma cache_evict_prefix:
  assumes "bc_used c = of_nat (lru_bytes (bc_lru c))" and "lru_bytes (bc_lru c) < 2 ^ 64"
  shows "\<exists>kept gone. bc_lru c = kept @ gone \<and> cache_evict c = c\<lparr>bc_lru := kept, bc_used := of_nat (lru_bytes kept)\<rparr> \<and>
    lru_bytes kept \<le> unat (bc_capacity c) \<and> (gone \<noteq> [] \<longrightarrow> unat (bc_capacity c) < lru_bytes (kept @ [hd gone]))"
  using assms
proof (induction c rule: cache_evict.induct)
  case (1 c)
  let ?xs = "bc_lru c"
  have big: "bc_used c > bc_capacity c \<longleftrightarrow> unat (bc_capacity c) < lru_bytes ?xs"
    using 1(2,3) by (simp add: word_less_nat_alt unat_of_nat_u64)
  show ?case
  proof (cases "bc_used c > bc_capacity c \<and> ?xs \<noteq> []")
    case True
    obtain ys y where ys: "?xs = ys @ [y]" using True by (metis append_butlast_last_id)
    let ?c = "c\<lparr>bc_used := bc_used c - of_nat (length (snd (last ?xs))), bc_lru := butlast ?xs\<rparr>"
    have used: "bc_used ?c = of_nat (lru_bytes (bc_lru ?c))" using 1(2) by (simp add: ys)
    have "lru_bytes (bc_lru ?c) < 2 ^ 64" using 1(3) by (simp add: ys)
    from 1(1) [OF True used this] obtain kept gone where kg: "bc_lru ?c = kept @ gone"
      "cache_evict ?c = ?c\<lparr>bc_lru := kept, bc_used := of_nat (lru_bytes kept)\<rparr>"
      "lru_bytes kept \<le> unat (bc_capacity ?c)"
      "gone \<noteq> [] \<longrightarrow> unat (bc_capacity ?c) < lru_bytes (kept @ [hd gone])"
      by blast
    have split: "ys = kept @ gone" using kg(1) by (simp add: ys)
    have "cache_evict c = c\<lparr>bc_lru := kept, bc_used := of_nat (lru_bytes kept)\<rparr>"
      using True kg(2) by (subst cache_evict.simps) simp
    moreover have "unat (bc_capacity c) < lru_bytes (kept @ [hd (gone @ [y])])"
      using kg(4) True big split by (cases gone) (auto simp: ys)
    ultimately show ?thesis
      using split kg(3) by (intro exI [of _ kept] exI [of _ "gone @ [y]"]) (simp add: ys)
  next
    case False
    have "cache_evict c = c" unfolding cache_evict.simps [of c] if_not_P [OF False] ..
    moreover have "lru_bytes ?xs \<le> unat (bc_capacity c)" using False big by (cases "?xs = []") auto
    ultimately show ?thesis using 1(2) by (intro exI [of _ ?xs] exI [of _ "[]"]) (cases c, simp)
  qed
qed

section \<open>Properties\<close>



text \<open>C26. The pool of open files.  After a reader's file is opened, the readers tracked are the reader
  itself, in front, and those tracked before less the closed ones; only readers nobody was using
  are closed; and at most as many stay open as the limit says, plus the readers that were busy.
  With no busy reader the limit holds, and the closed ones are exactly the least recently used.\<close>

theorem fd_pool_bounded:
  assumes "0 < fp_max_open p" and "fd_on_open busy r p = (shut, p')"
  shows "mset (fp_lru p') + mset shut = mset (r # fp_lru p) \<and> hd (fp_lru p') = r \<and>
    (\<forall>v \<in> set shut. \<not> busy v) \<and>
    fd_open_count p' \<le> unat (fp_max_open p) + length (filter busy (fp_lru p)) \<and>
    ((\<forall>v \<in> set (fp_lru p). \<not> busy v) \<longrightarrow> fd_open_count p' \<le> unat (fp_max_open p) \<and>
       r # fp_lru p = fp_lru p' @ rev shut)"
proof -
  let ?m = "unat (fp_max_open p)" and ?l = "r # fp_lru p"
  have m: "0 < ?m" using assms(1) by (simp add: word_less_nat_alt)
  have p': "fp_lru p' = take ?m ?l @ filter busy (rev (drop ?m ?l))"
    "shut = filter (\<lambda>v. \<not> busy v) (rev (drop ?m ?l))"
    using assms(2) by (auto simp: fd_on_open_def Let_def)
  have "mset (fp_lru p') + mset shut = mset (take ?m ?l) + mset (drop ?m ?l)"
    unfolding p' by (simp del: drop_Cons' take_Cons')
  also have "\<dots> = mset ?l" by (metis append_take_drop_id mset_append)
  finally have ms: "mset (fp_lru p') + mset shut = mset ?l" .
  have drop: "drop ?m ?l = drop (?m - 1) (fp_lru p)" using m by (cases ?m) auto
  have "length (filter busy (rev (drop ?m ?l))) \<le> length (filter busy (fp_lru p))"
    unfolding drop rev_filter [symmetric] length_rev
    by (metis append_take_drop_id filter_append le_add2 length_append)
  then have count: "fd_open_count p' \<le> ?m + length (filter busy (fp_lru p))"
    by (simp add: fd_open_count_def p'(1) del: take_Cons')
  have idle: "fd_open_count p' \<le> ?m \<and> ?l = fp_lru p' @ rev shut" if "\<forall>v \<in> set (fp_lru p). \<not> busy v"
  proof -
    have "\<forall>v \<in> set (drop ?m ?l). \<not> busy v" using that by (auto simp: drop dest: in_set_dropD)
    then have "filter busy (rev (drop ?m ?l)) = []" "shut = rev (drop ?m ?l)"
      by (simp_all add: filter_empty_conv p'(2))
    then show ?thesis by (simp add: p'(1) fd_open_count_def del: take_Cons' drop_Cons')
  qed
  have "hd (take n ?l @ ys) = r" if "0 < n" for n ys using that by (cases n) simp_all
  then have "hd (fp_lru p') = r" using m unfolding p'(1) by blast
  moreover have "\<forall>v \<in> set shut. \<not> busy v" unfolding p'(2) by simp
  ultimately show ?thesis using ms count idle by blast
qed

theorem fd_pool_bounded_witness:
  "fd_on_open (\<lambda>_. False) 3 \<lparr>fp_max_open = 2, fp_lru = [2, 1]\<rparr> = ([1], \<lparr>fp_max_open = 2, fp_lru = [3, 2]\<rparr>) \<and>
   fd_open_count \<lparr>fp_max_open = 2, fp_lru = [3, 2]\<rparr> \<le> 2"
proof -
  have opened: "fd_on_open (\<lambda>_. False) 3 \<lparr>fp_max_open = 2, fp_lru = [2, 1]\<rparr> = ([1], \<lparr>fp_max_open = 2, fp_lru = [3, 2]\<rparr>)"
    by (simp add: fd_on_open_def Let_def)
  show ?thesis using fd_pool_bounded [OF _ opened] opened by simp
qed

end
