(* ===== verification/Compaction.thy ===== *)
theory Compaction
  imports Table_Lookup
begin

text \<open>
  Compaction: the picker, the job counters and the merge of \<open>include/lsm/compaction.hpp\<close>,
  \<open>src/compaction.cpp\<close> and of \<open>Engine::run_compaction\<close> in \<open>src/engine.cpp\<close>.  The comparison of
  file sizes in \<open>double\<close> is the parameter \<open>similar\<close>; the JSON library's reading and writing of
  the job statistics is the parameter \<open>jobs_api\<close>.
\<close>

section \<open>The picker\<close>

record compaction_pick =
  pk_ids :: "u64 list"
  pk_total_bytes :: u64
  pk_reason :: string

text \<open>Whether \<open>max_size\<close> is at most the ratio times \<open>min_size\<close>.\<close>

type_synonym size_test = "rat \<Rightarrow> u64 \<Rightarrow> u64 \<Rightarrow> bool"

definition fan_in :: "config \<Rightarrow> nat" where
  "fan_in cfg = max 2 (unat (size_tiered_fan_in cfg))"

text \<open>Smallest size, largest size and sum of a window.\<close>

definition window_sizes :: "table_meta list \<Rightarrow> u64 \<times> u64 \<times> u64" where
  "window_sizes ts = fold (\<lambda>t (mn, mx, total). (min mn (tm_file_size t), max mx (tm_file_size t),
     total + tm_file_size t)) ts (- 1, 0, 0)"

definition pick_step :: "size_test \<Rightarrow> config \<Rightarrow> table_meta list \<Rightarrow>
    compaction_pick option \<times> compaction_pick option \<Rightarrow> compaction_pick option \<times> compaction_pick option" where
  "pick_step similar cfg window = (\<lambda>(best, fallback).
     let (mn, mx, total) = window_sizes window;
         pick = \<lparr>pk_ids = map tm_id window, pk_total_bytes = total, pk_reason = []\<rparr>;
         smaller = (\<lambda>p. case p of None \<Rightarrow> True | Some q \<Rightarrow> total < pk_total_bytes q)
     in (if similar (size_tiered_size_ratio cfg) mx mn \<and> smaller best
         then Some (pick\<lparr>pk_reason := ''size-similar window''\<rparr>) else best,
         if smaller fallback
         then Some (pick\<lparr>pk_reason := ''fallback smallest window''\<rparr>) else fallback))"

definition windows :: "nat \<Rightarrow> table_meta list \<Rightarrow> table_meta list list" where
  "windows k ts = map (\<lambda>i. take k (drop i ts)) [0..<length ts + 1 - k]"

definition pick_compaction :: "size_test \<Rightarrow> table_meta list \<Rightarrow> config \<Rightarrow> compaction_pick option" where
  "pick_compaction similar ts cfg =
     (if length ts < fan_in cfg then None
      else
        let (best, fallback) = fold (pick_step similar cfg) (windows (fan_in cfg) ts) (None, None)
        in case best of Some p \<Rightarrow> Some p | None \<Rightarrow> fallback)"

section \<open>Job statistics\<close>

record compaction_job =
  cj_job_id :: u64
  cj_input_ids :: "u64 list"
  cj_output_file :: string
  cj_bytes_in :: u64
  cj_bytes_out :: u64
  cj_keys_in :: u64
  cj_keys_out :: u64
  cj_keys_dropped :: u64
  cj_tombstones_kept :: u64
  cj_tombstones_dropped :: u64
  cj_duration_ms :: u64

record compaction_state =
  cs_next_job_id :: u64
  cs_last_job :: "compaction_job option"
  cs_last_job_finished_at :: string

definition compaction_state_new :: compaction_state where
  "compaction_state_new = \<lparr>cs_next_job_id = 1, cs_last_job = None, cs_last_job_finished_at = []\<rparr>"

record jobs_api =
  jo_dump :: "compaction_state \<Rightarrow> bytes"
  jo_parse :: "bytes \<Rightarrow> compaction_state option"

text \<open>A missing or garbled file resets the statistics.\<close>

definition load_compaction_state :: "jobs_api \<Rightarrow> bytes option \<Rightarrow> compaction_state" where
  "load_compaction_state api file =
     (case file of
        None \<Rightarrow> compaction_state_new
      | Some text \<Rightarrow> (case jo_parse api text of None \<Rightarrow> compaction_state_new | Some s \<Rightarrow> s))"

definition save_compaction_state :: "jobs_api \<Rightarrow> compaction_state \<Rightarrow> bytes option" where
  "save_compaction_state api s = Some (jo_dump api s)"

section \<open>The input set\<close>

text \<open>Positions, newest first, of the live tables that are named.\<close>

definition live_positions :: "u64 list \<Rightarrow> table_meta list \<Rightarrow> nat list" where
  "live_positions ids live = filter (\<lambda>i. tm_id (live ! i) \<in> set ids) [0..<length live]"

definition adjacent :: "nat list \<Rightarrow> bool" where
  "adjacent ps \<longleftrightarrow> (\<forall>i \<in> set [1..<length ps]. ps ! i = ps ! (i - 1) + 1)"

text \<open>The ids given on the command line, in manifest order, or the picker's.\<close>

definition choose_inputs :: "size_test \<Rightarrow> config \<Rightarrow> table_meta list \<Rightarrow> u64 list option \<Rightarrow>
    u64 list option result" where
  "choose_inputs similar cfg live inputs =
     (case inputs of
        Some ids \<Rightarrow>
          if length ids < 2 then Inl (Thrown InvalidArgument)
          else if \<exists>i \<in> set ids. i \<notin> tm_id ` set live then Inl (Thrown InvalidArgument)
          else if \<not> adjacent (live_positions ids live) then Inl (Thrown InvalidArgument)
          else Inr (Some (map (\<lambda>p. tm_id (live ! p)) (live_positions ids live)))
      | None \<Rightarrow> Inr (map_option pk_ids (pick_compaction similar live cfg)))"

definition input_metas :: "u64 list \<Rightarrow> table_meta list \<Rightarrow> table_meta list" where
  "input_metas ids live = map (\<lambda>i. the (find (\<lambda>t. tm_id t = i) live)) ids"

section \<open>Merge and tombstones\<close>

text \<open>The tables are scanned oldest first into one memtable, newer entries overwriting older ones.\<close>

fun merge_tables :: "(string \<Rightarrow> bytes option) \<Rightarrow> table_meta list \<Rightarrow> u64 \<times> memtable \<Rightarrow>
    (u64 \<times> memtable) result" where
  "merge_tables file [] (n, mem) = Inr (n, mem)"
| "merge_tables file (t # rest) (n, mem) =
     (case file (tm_file_name t) of
        None \<Rightarrow> Inl (Thrown IOFailure)
      | Some bs \<Rightarrow>
          and_then (scan_sstable bs) (\<lambda>es.
          merge_tables file rest (n + of_nat (length es), memtable_apply_all es mem)))"

definition outside_oldest :: "u64 list \<Rightarrow> table_meta list \<Rightarrow> u64" where
  "outside_oldest ids live =
     fold (\<lambda>t m. if tm_id t \<in> set ids then m else min m (tm_min_seqno t)) live (- 1)"

definition source_created_at :: "(string \<Rightarrow> int) \<Rightarrow> int \<Rightarrow> table_meta list \<Rightarrow> u64 \<Rightarrow> int" where
  "source_created_at parse now inputs seqno =
     (case find (\<lambda>t. tm_min_seqno t \<le> seqno \<and> seqno \<le> tm_max_seqno t) inputs of
        Some t \<Rightarrow> parse (tm_created_at t)
      | None \<Rightarrow> now)"

definition drop_tombstone :: "(string \<Rightarrow> int) \<Rightarrow> int \<Rightarrow> config \<Rightarrow> table_meta list \<Rightarrow> u64 \<Rightarrow> mem_entry \<Rightarrow> bool" where
  "drop_tombstone parse now cfg inputs oldest e \<longleftrightarrow>
     now - source_created_at parse now inputs (me_seqno e) > int (unat (tombstone_grace_seconds cfg)) \<and>
     oldest > me_seqno e"

text \<open>What is kept, with the numbers of tombstones kept and dropped.\<close>

definition filter_step :: "(mem_entry \<Rightarrow> bool) \<Rightarrow> bytes \<times> mem_entry \<Rightarrow> u64 \<times> u64 \<times> memtable \<Rightarrow>
    u64 \<times> u64 \<times> memtable" where
  "filter_step drp = (\<lambda>(k, e) (kept, dropped, mem).
     if me_tombstone e \<and> drp e then (kept, dropped + 1, mem)
     else (if me_tombstone e then kept + 1 else kept, dropped,
           memtable_apply k (me_value e) (me_seqno e) (me_tombstone e) mem))"

definition filter_tombstones :: "(mem_entry \<Rightarrow> bool) \<Rightarrow> u32 \<Rightarrow> memtable \<Rightarrow> u64 \<times> u64 \<times> memtable" where
  "filter_tombstones drp overhead mem =
     fold (filter_step drp) (sorted_entries mem) (0, 0, memtable_new overhead)"

section \<open>What the picker picks\<close>

definition window_total :: "table_meta list \<Rightarrow> u64" where
  "window_total w = snd (snd (window_sizes w))"

definition size_similar :: "size_test \<Rightarrow> config \<Rightarrow> table_meta list \<Rightarrow> bool" where
  "size_similar similar cfg w \<longleftrightarrow>
     similar (size_tiered_size_ratio cfg) (fst (snd (window_sizes w))) (fst (window_sizes w))"

definition pick_of :: "string \<Rightarrow> table_meta list \<Rightarrow> compaction_pick" where
  "pick_of reason w = \<lparr>pk_ids = map tm_id w, pk_total_bytes = window_total w, pk_reason = reason\<rparr>"

text \<open>The lightest of the windows seen that pass the test.\<close>

definition lightest :: "(table_meta list \<Rightarrow> bool) \<Rightarrow> string \<Rightarrow> table_meta list list \<Rightarrow> compaction_pick option \<Rightarrow> bool" where
  "lightest P reason ws p = (case p of
     None \<Rightarrow> \<forall>w \<in> set ws. \<not> P w
   | Some q \<Rightarrow> \<exists>w \<in> set ws. P w \<and> q = pick_of reason w \<and> (\<forall>v \<in> set ws. P v \<longrightarrow> window_total w \<le> window_total v))"

lemma lightest_snoc:
  assumes "lightest P reason ws p"
  shows "lightest P reason (ws @ [w])
    (if P w \<and> (case p of None \<Rightarrow> True | Some q \<Rightarrow> window_total w < pk_total_bytes q)
     then Some (pick_of reason w) else p)"
proof (cases p)
  case None
  then show ?thesis using assms by (auto simp: lightest_def)
next
  case (Some q)
  then obtain v where v: "v \<in> set ws" "P v" "q = pick_of reason v"
    "\<forall>u \<in> set ws. P u \<longrightarrow> window_total v \<le> window_total u"
    using assms by (auto simp: lightest_def)
  show ?thesis
  proof (cases "P w \<and> window_total w < window_total v")
    case True
    then show ?thesis using v by (force simp: lightest_def Some pick_of_def)
  next
    case False
    then show ?thesis using v by (auto simp: lightest_def Some pick_of_def not_less)
  qed
qed

lemma fold_pick_step:
  "lightest (size_similar similar cfg) ''size-similar window'' ws (fst (fold (pick_step similar cfg) ws (None, None))) \<and>
   lightest (\<lambda>_. True) ''fallback smallest window'' ws (snd (fold (pick_step similar cfg) ws (None, None)))"
proof (induction ws rule: rev_induct)
  case Nil
  then show ?case by (simp add: lightest_def)
next
  case (snoc w ws)
  obtain best fallback where st: "fold (pick_step similar cfg) ws (None, None) = (best, fallback)" by fastforce
  have step: "pick_step similar cfg w (best, fallback) =
    (if size_similar similar cfg w \<and> (case best of None \<Rightarrow> True | Some q \<Rightarrow> window_total w < pk_total_bytes q)
     then Some (pick_of ''size-similar window'' w) else best,
     if True \<and> (case fallback of None \<Rightarrow> True | Some q \<Rightarrow> window_total w < pk_total_bytes q)
     then Some (pick_of ''fallback smallest window'' w) else fallback)"
    unfolding pick_step_def size_similar_def window_total_def pick_of_def by (simp add: Let_def case_prod_beta)
  show ?case
    using lightest_snoc [of "size_similar similar cfg" _ ws best w]
      lightest_snoc [of "\<lambda>_. True" "''fallback smallest window''" ws fallback w] snoc
    by (simp add: st step)
qed

lemma windows_adjacent:
  "w \<in> set (windows k ts) \<Longrightarrow> k \<le> length ts \<Longrightarrow> \<exists>pre post. ts = pre @ w @ post \<and> length w = k"
proof -
  assume "w \<in> set (windows k ts)" and k: "k \<le> length ts"
  then obtain i where i: "w = take k (drop i ts)" "i < length ts + 1 - k" by (auto simp: windows_def)
  then have "ts = take i ts @ w @ drop k (drop i ts)" "length w = k"
    using k by (simp_all add: append_assoc [symmetric] del: drop_drop)
  then show ?thesis by blast
qed

lemma windows_all: "ts = pre @ w @ post \<Longrightarrow> w \<in> set (windows (length w) ts)"
  by (force simp: windows_def intro!: image_eqI [of _ _ "length pre"])

section \<open>Properties\<close>

text \<open>C24. The picker.  It picks nothing exactly when there are fewer tables than the fan-in (at least
  two).  Otherwise it picks as many adjacent tables as the fan-in says, newest first, names their
  total size, and prefers size-similar windows: the pick is a similar one exactly when there is
  one, and no window of the same kind has fewer bytes.\<close>

theorem pick_compaction_correct:
  "case pick_compaction similar ts cfg of
     None \<Rightarrow> length ts < fan_in cfg
   | Some p \<Rightarrow> \<exists>pre w post. ts = pre @ w @ post \<and> length w = fan_in cfg \<and> pk_ids p = map tm_id w \<and>
       pk_total_bytes p = window_total w \<and>
       (if \<exists>v \<in> set (windows (fan_in cfg) ts). size_similar similar cfg v
        then pk_reason p = ''size-similar window'' \<and> size_similar similar cfg w \<and>
          (\<forall>v \<in> set (windows (fan_in cfg) ts). size_similar similar cfg v \<longrightarrow> window_total w \<le> window_total v)
        else pk_reason p = ''fallback smallest window'' \<and>
          (\<forall>v \<in> set (windows (fan_in cfg) ts). window_total w \<le> window_total v))"
proof (cases "length ts < fan_in cfg")
  case True
  then show ?thesis by (simp add: pick_compaction_def)
next
  case False
  let ?ws = "windows (fan_in cfg) ts"
  obtain best fallback where st: "fold (pick_step similar cfg) ?ws (None, None) = (best, fallback)" by fastforce
  note L = fold_pick_step [of similar cfg ?ws, unfolded st fst_conv snd_conv]
  have "?ws \<noteq> []" using False by (simp add: windows_def)
  then obtain v where v: "v \<in> set ?ws" by (cases ?ws) auto
  have adj: "\<exists>pre post. ts = pre @ w @ post \<and> length w = fan_in cfg" if "w \<in> set ?ws" for w
    using windows_adjacent [OF that] False by simp
  show ?thesis
  proof (cases best)
    case None
    obtain q where q: "fallback = Some q" using L v by (cases fallback) (auto simp: lightest_def)
    obtain w where w: "w \<in> set ?ws" "q = pick_of ''fallback smallest window'' w"
      "\<forall>v \<in> set ?ws. window_total w \<le> window_total v"
      using L by (auto simp: lightest_def q)
    have no: "\<not> (\<exists>v \<in> set ?ws. size_similar similar cfg v)" using L by (auto simp: lightest_def None)
    show ?thesis
      using adj [OF w(1)] w(2,3) no False by (auto simp: pick_compaction_def st None q pick_of_def)
  next
    case (Some p)
    obtain w where w: "w \<in> set ?ws" "size_similar similar cfg w" "p = pick_of ''size-similar window'' w"
      "\<forall>v \<in> set ?ws. size_similar similar cfg v \<longrightarrow> window_total w \<le> window_total v"
      using L by (auto simp: lightest_def Some)
    show ?thesis
      using adj [OF w(1)] w False by (auto simp: pick_compaction_def st Some pick_of_def)
  qed
qed

definition sample_meta :: "u64 \<Rightarrow> u64 \<Rightarrow> table_meta" where
  "sample_meta i sz = \<lparr>tm_id = i, tm_file_name = sst_file_name i, tm_min_key = [107], tm_max_key = [107],
     tm_min_seqno = i, tm_max_seqno = i, tm_created_at = [], tm_file_size = sz, tm_entries = 1,
     tm_bloom_bits_per_key = 10, tm_bloom_hashes = 7\<rparr>"

theorem pick_compaction_correct_witness:
  "\<exists>p. pick_compaction (\<lambda>_ mx mn. mx \<le> 2 * mn) [sample_meta 3 900, sample_meta 2 150, sample_meta 1 100]
      (default_config\<lparr>size_tiered_fan_in := 2\<rparr>) = Some p \<and> pk_ids p = [2, 1]"
proof -
  let ?ts = "[sample_meta 3 900, sample_meta 2 150, sample_meta 1 100]"
    and ?cfg = "default_config\<lparr>size_tiered_fan_in := 2\<rparr>" and ?sim = "\<lambda>(_ :: rat) (mx :: u64) mn. mx \<le> 2 * mn"
  have k: "fan_in ?cfg = 2" by (simp add: fan_in_def)
  have ws: "windows 2 ?ts = [[sample_meta 3 900, sample_meta 2 150], [sample_meta 2 150, sample_meta 1 100]]"
    by (simp add: windows_def upt_rec)
  have top: "\<not> (- 1 :: u64) \<le> 900" "\<not> (- 1 :: u64) \<le> 150"
    using order_antisym [OF word_n1_ge, of "900 :: u64"] order_antisym [OF word_n1_ge, of "150 :: u64"] by auto
  have sim: "\<not> size_similar ?sim ?cfg [sample_meta 3 900, sample_meta 2 150]"
    "size_similar ?sim ?cfg [sample_meta 2 150, sample_meta 1 100]"
    by (simp_all add: size_similar_def window_sizes_def sample_meta_def min_def max_def top)
  show ?thesis
  proof (cases "pick_compaction ?sim ?ts ?cfg")
    case None
    then show ?thesis using pick_compaction_correct [where similar = ?sim and ts = ?ts and cfg = ?cfg] by (simp add: k)
  next
    case (Some p)
    have "\<exists>pre w post. ?ts = pre @ w @ post \<and> length w = 2 \<and> pk_ids p = map tm_id w \<and>
        size_similar ?sim ?cfg w"
      using pick_compaction_correct [where similar = ?sim and ts = ?ts and cfg = ?cfg] sim by (auto simp: Some k ws)
    then obtain pre w post where w: "?ts = pre @ w @ post" "length w = 2" "pk_ids p = map tm_id w"
      "size_similar ?sim ?cfg w" by blast
    have "w \<in> set (windows (length w) ?ts)" using w(1) by (rule windows_all)
    then have "w = [sample_meta 2 150, sample_meta 1 100]" using w(2,4) sim by (auto simp: ws)
    then show ?thesis using Some w(3) by (simp add: sample_meta_def)
  qed
qed

end
