(* ===== verification/Manifest_Edits.thy ===== *)
theory Manifest_Edits
  imports Compaction
begin

text \<open>
  What the edits of the manifest keep: distinct ids below the next one, sequence-number ranges
  that descend, the place of a compaction's output; that a saved manifest is the one the next
  start loads; and what a failed save leaves behind.
\<close>

section \<open>Edits\<close>

lemma filter_ids_window:
  assumes "distinct (map tm_id (ts @ ws @ us))"
  shows "filter (\<lambda>t. tm_id t \<notin> tm_id ` set ws) ts = ts" "filter (\<lambda>t. tm_id t \<notin> tm_id ` set ws) ws = []"
    "filter (\<lambda>t. tm_id t \<notin> tm_id ` set ws) us = us"
  using assms by (force simp: filter_id_conv filter_empty_conv)+

lemma max_next: "(x :: u64) < n \<Longrightarrow> x < max n k" "m \<noteq> - 1 \<Longrightarrow> m < max n (m + 1 :: u64)"
  by (rule less_le_trans [OF _ max.cobounded1], assumption) (rule less_le_trans [OF word_less_succ max.cobounded2])

lemma apply_compaction_window:
  assumes "apply_compaction api io (map tm_id ws) added (m, text) = (r, m', text')"
    and tabs: "mf_tables m = ts @ ws @ us" and ids: "ids_ok m" and desc: "ranges_descend (mf_tables m)" and ne: "ws \<noteq> []"
    and add: "case added of None \<Rightarrow> True | Some a \<Rightarrow> tm_id a = mf_next_sst_id m \<and> tm_id a \<noteq> - 1 \<and>
      tm_min_seqno a \<le> tm_max_seqno a \<and> (\<exists>w \<in> set ws. tm_min_seqno w \<le> tm_min_seqno a) \<and>
      (\<exists>w \<in> set ws. tm_max_seqno a \<le> tm_max_seqno w)"
  shows "mf_tables m' = ts @ (case added of None \<Rightarrow> [] | Some a \<Rightarrow> [a]) @ us"
    and "ranges_descend (mf_tables m')" and "ids_ok m'" and "mf_epoch m' = mf_epoch m + 1"
proof -
  have d: "distinct (map tm_id (ts @ ws @ us))" using ids tabs by (simp add: ids_ok_def)
  have lt: "tm_id t < mf_next_sst_id m" if "t \<in> set (ts @ ws @ us)" for t
    using ids tabs that by (simp add: ids_ok_def)
  note F = filter_ids_window [OF d]
  have all: "mf_tables m' = ts @ (case added of None \<Rightarrow> [] | Some a \<Rightarrow> [a]) @ us \<and>
    ranges_descend (mf_tables m') \<and> ids_ok m' \<and> mf_epoch m' = mf_epoch m + 1"
  proof (cases added)
    case None
    have desc': "ranges_descend (ts @ us)"
      using desc by (auto simp: tabs ranges_descend_append)
    have "newest_first (ts @ us) = ts @ us"
      by (rule newest_first_id [OF ranges_descend_sorted [OF desc']])
    then have m': "mf_tables m' = ts @ us" "mf_next_sst_id m' = mf_next_sst_id m" "mf_epoch m' = mf_epoch m + 1"
      using assms(1) F None by (auto simp: apply_compaction_def tabs split: prod.splits)
    have "distinct (map tm_id (ts @ us))" using d by auto
    then have "ids_ok m'" using lt by (auto simp: ids_ok_def m')
    then show ?thesis using m' desc' None by simp
  next
    case (Some a)
    obtain w v where wv: "w \<in> set ws" "tm_min_seqno w \<le> tm_min_seqno a" "v \<in> set ws" "tm_max_seqno a \<le> tm_max_seqno v"
      using add Some by auto
    have desc': "ranges_descend (ts @ a # us)"
      using ranges_descend_replace [OF desc [unfolded tabs] wv] add Some by simp
    have "newest_first ((ts @ us) @ [a]) = ts @ a # us"
      using newest_first_replace [OF desc'] by simp
    then have m': "mf_tables m' = ts @ a # us" "mf_next_sst_id m' = max (mf_next_sst_id m) (tm_id a + 1)"
      "mf_epoch m' = mf_epoch m + 1"
      using assms(1) F Some by (auto simp: apply_compaction_def tabs split: prod.splits)
    have a: "tm_id a = mf_next_sst_id m" "tm_id a \<noteq> - 1" using add unfolding Some option.case by blast+
    have "tm_id t \<noteq> mf_next_sst_id m" if "t \<in> set (ts @ ws @ us)" for t
      using lt [OF that] by (rule less_imp_neq)
    then have "ids_ok m'"
      using d lt max_next(1) [of _ "mf_next_sst_id m" "tm_id a + 1"] max_next(2) [OF a(2), of "mf_next_sst_id m"]
      by (auto simp: ids_ok_def m' a(1)) metis+
    then show ?thesis using m' desc' Some by simp
  qed
  then show "mf_tables m' = ts @ (case added of None \<Rightarrow> [] | Some a \<Rightarrow> [a]) @ us"
    "ranges_descend (mf_tables m')" "ids_ok m'" "mf_epoch m' = mf_epoch m + 1" by blast+
qed

lemma add_table_front:
  assumes "add_table api io meta (m, text) = (r, m', text')" and ids: "ids_ok m"
    and "tm_id meta = mf_next_sst_id m" and "tm_id meta \<noteq> - 1"
  shows "mf_tables m' = meta # mf_tables m" and "ids_ok m'" and "mf_epoch m' = mf_epoch m + 1"
    and "mf_next_sst_id m' = tm_id meta + 1"
proof -
  have m': "mf_tables m' = meta # mf_tables m" "mf_next_sst_id m' = max (mf_next_sst_id m) (tm_id meta + 1)"
    "mf_epoch m' = mf_epoch m + 1"
    using assms(1) by (auto simp: add_table_def Let_def split: prod.splits)
  have less: "tm_id meta < tm_id meta + 1" using assms(4) by (rule word_less_succ)
  then show "mf_next_sst_id m' = tm_id meta + 1" by (simp add: m'(2) assms(3) max_def)
  show "mf_tables m' = meta # mf_tables m" "mf_epoch m' = mf_epoch m + 1" by (rule m')+
  show "ids_ok m'"
    using ids less max_next(1) [of _ "mf_next_sst_id m" "tm_id meta + 1"]
    by (auto simp: ids_ok_def m'(1,2) assms(3) max_def)
qed

lemma saved_file:
  assumes "add_table api io meta (m, text) = (r, m', text')
    \<or> apply_compaction api io removed added (m, text) = (r, m', text')"
  shows "if r = Inr () then ja_dump api m' = text' \<and> text' \<noteq> None else text' = text"
proof -
  have "if r = Inr () then ja_dump api n = text' \<and> text' \<noteq> None else text' = text"
    if "manifest_save api io n text = (r, text')" for n
  proof (cases "ja_dump api n")
    case None
    then show ?thesis using that by (auto simp: manifest_save_def)
  next
    case (Some t)
    then show ?thesis using that by (cases "mo_create io \<and> mo_write io \<and> mo_rename io") (simp_all add: manifest_save_def Some, auto)
  qed
  then show ?thesis
    using assms by (auto simp: add_table_def apply_compaction_def Let_def split: prod.splits)
qed

lemma load_saved:
  assumes "json_roundtrip api" and "ja_dump api m = Some t"
    and "sorted_wrt (\<lambda>t u. tm_max_seqno u \<le> tm_max_seqno t) (mf_tables m)"
    and "\<forall>t \<in> set (mf_tables m). tm_id t < mf_next_sst_id m"
  shows "load_or_create api True (Some t) = Inr m"
proof -
  have next_id: "fold (\<lambda>t n. max n (tm_id t + 1)) ts n = n" if "\<forall>t \<in> set ts. tm_id t < n" for ts n
    using that
  proof (induction ts)
    case (Cons t ts)
    then have "tm_id t < n" by simp
    then have "max n (tm_id t + 1) = n" by (simp add: inc_le max_absorb1)
    with Cons show ?case by simp
  qed simp
  show ?thesis
    using assms newest_first_id [OF assms(3)] by (simp add: json_roundtrip_def load_or_create_def next_id)
qed

section \<open>Properties\<close>

text \<open>C22. A compaction takes the place of its inputs.  In a manifest with distinct ids and descending
  ranges, replacing adjacent tables by one whose range lies within theirs (or by none) leaves the
  other tables in their places with the output between them, keeps ids distinct and ranges
  descending, raises the epoch by one, and writes exactly this manifest or leaves the file as it was.\<close>

theorem manifest_compaction_in_place:
  assumes "apply_compaction api io (map tm_id ws) added (m, text) = (r, m', text')"
    and "mf_tables m = ts @ ws @ us" and "ids_ok m" and "ranges_descend (mf_tables m)" and "ws \<noteq> []"
    and "case added of None \<Rightarrow> True | Some a \<Rightarrow> tm_id a = mf_next_sst_id m \<and> tm_id a \<noteq> - 1 \<and>
      tm_min_seqno a \<le> tm_max_seqno a \<and> (\<exists>w \<in> set ws. tm_min_seqno w \<le> tm_min_seqno a) \<and>
      (\<exists>w \<in> set ws. tm_max_seqno a \<le> tm_max_seqno w)"
  shows "mf_tables m' = ts @ (case added of None \<Rightarrow> [] | Some a \<Rightarrow> [a]) @ us \<and> ranges_descend (mf_tables m') \<and>
    ids_ok m' \<and> mf_epoch m' = mf_epoch m + 1 \<and>
    (if r = Inr () then ja_dump api m' = text' \<and> text' \<noteq> None else text' = text)"
  using apply_compaction_window [OF assms] saved_file assms(1) by blast

definition sample_manifest :: manifest where
  "sample_manifest = \<lparr>mf_next_sst_id = 4, mf_epoch = 3,
     mf_tables = [sample_meta 3 900, sample_meta 2 150, sample_meta 1 100]\<rparr>"

definition sample_json :: json_api where
  "sample_json = \<lparr>ja_dump = (\<lambda>m. if m = sample_manifest then Some [1] else None),
     ja_parse = (\<lambda>t. if t = [1] then Some sample_manifest else None)\<rparr>"

lemma sample_manifest_ok: "ids_ok sample_manifest" "ranges_descend (mf_tables sample_manifest)"
  by (simp_all add: sample_manifest_def ids_ok_def ranges_descend_def sample_meta_def)

theorem manifest_compaction_in_place_witness:
  "map tm_id (mf_tables (fst (snd (apply_compaction sample_json mf_good [2, 1]
      (Some ((sample_meta 4 200)\<lparr>tm_min_seqno := 1, tm_max_seqno := 2\<rparr>)) (sample_manifest, None))))) = [3, 4]"
proof -
  let ?a = "(sample_meta 4 200)\<lparr>tm_min_seqno := 1, tm_max_seqno := 2\<rparr>"
    and ?ws = "[sample_meta 2 150, sample_meta 1 100]"
  obtain r m' t' where run: "apply_compaction sample_json mf_good (map tm_id ?ws) (Some ?a) (sample_manifest, None) = (r, m', t')"
    by (metis prod_cases3)
  have "mf_tables sample_manifest = [sample_meta 3 900] @ ?ws @ []" by (simp add: sample_manifest_def)
  from manifest_compaction_in_place [OF run this sample_manifest_ok]
  have "mf_tables m' = [sample_meta 3 900] @ [?a]" by (simp add: sample_meta_def sample_manifest_def)
  then show ?thesis using run by (simp add: sample_meta_def)
qed



text \<open>A failed save is not undone: when the file cannot be written, \<open>add_table\<close> throws and the file is
  as it was, but the object already lists the table and counts it in the epoch and the next id.  A
  caller that retries, as the flush worker does with a new table of the same memtable, ends up with
  the memtable's data listed twice.\<close>

theorem failed_add_keeps_table:
  assumes "\<not> (mo_create io \<and> mo_write io \<and> mo_rename io)"
  shows "\<exists>err m'. add_table api io meta (m, text) = (Inl err, m', text) \<and> mf_tables m' = meta # mf_tables m \<and>
    mf_epoch m' = mf_epoch m + 1 \<and>
    (\<forall>retry. mf_tables (fst (snd (add_table api mf_good retry (m', text)))) = retry # meta # mf_tables m)"
  using assms by (auto simp: add_table_def manifest_save_def Let_def split: option.splits prod.splits)

theorem failed_add_keeps_table_witness:
  "\<exists>err m'. add_table sample_json (mf_good\<lparr>mo_rename := False\<rparr>) (sample_meta 4 50) (sample_manifest, None) =
     (Inl err, m', None) \<and> map tm_id (mf_tables m') = [4, 3, 2, 1]"
proof -
  have "\<not> (mo_create (mf_good\<lparr>mo_rename := False\<rparr>) \<and> mo_write (mf_good\<lparr>mo_rename := False\<rparr>) \<and>
      mo_rename (mf_good\<lparr>mo_rename := False\<rparr>))" by simp
  from failed_add_keeps_table [OF this, of sample_json "sample_meta 4 50" sample_manifest None]
  show ?thesis by (force simp: sample_manifest_def sample_meta_def)
qed

end
