(* ===== verification/Layers.thy ===== *)
theory Layers
  imports Compaction
begin

text \<open>
  The abstract side of the read path and of compaction: a store is a list of layers, newest
  first, each a finite map; a read takes the first layer that has the key, and a tombstone
  reads as absent.  Replacing adjacent layers by their merge, in place, changes no read, nor
  does dropping a tombstone behind which no layer has its key.  The locale states the merge
  over any key-value store; it is interpreted on the memtable, which is what compaction
  merges into.
\<close>

section \<open>First hit wins\<close>

fun first_hit :: "('k \<Rightarrow> 'v option) list \<Rightarrow> 'k \<Rightarrow> 'v option" where
  "first_hit [] k = None"
| "first_hit (m # ms) k = (case m k of Some v \<Rightarrow> Some v | None \<Rightarrow> first_hit ms k)"

definition visible :: "mem_entry option \<Rightarrow> bytes option" where
  "visible hit = (case hit of Some e \<Rightarrow> if me_tombstone e then None else Some (me_value e) | None \<Rightarrow> None)"

lemma first_hit_append:
  "first_hit (ms @ ns) k = (case first_hit ms k of Some v \<Rightarrow> Some v | None \<Rightarrow> first_hit ns k)"
  by (induction ms) (auto split: option.splits)

lemma first_hit_map_add: "first_hit (ms @ ns) = first_hit ns ++ first_hit ms"
  by (auto simp: fun_eq_iff first_hit_append map_add_def split: option.splits)

lemma first_hit_Cons: "first_hit (m # ms) = first_hit ms ++ m"
  by (auto simp: fun_eq_iff map_add_def split: option.splits)

lemma first_hit_replace:
  "first_hit ws = m \<Longrightarrow> first_hit (ts @ m # us) = first_hit (ts @ ws @ us)"
  by (auto simp: fun_eq_iff first_hit_append split: option.splits)

lemma first_hit_update: "first_hit ((m(k \<mapsto> v)) # ms) = (first_hit (m # ms))(k \<mapsto> v)"
  by (auto simp: fun_eq_iff)

lemma first_hit_empty_head [simp]: "first_hit ((\<lambda>_. None) # ms) = first_hit ms"
  by (simp add: fun_eq_iff)

text \<open>Dropping tombstones from one layer when nothing behind it has their keys.\<close>

lemma visible_drop_tombstones:
  assumes "\<And>k. n k = m k \<or> n k = None \<and> (\<exists>e. m k = Some e \<and> me_tombstone e) \<and> first_hit us k = None"
  shows "visible (first_hit (ts @ n # us) k) = visible (first_hit (ts @ m # us) k)"
  using assms [of k] by (auto simp: first_hit_append visible_def split: option.splits)

section \<open>Merging layers through a store\<close>

lemma map_of_rev_once: "distinct (map fst es) \<Longrightarrow> map_of (rev es) = map_of es"
  by (subst map_of_inject_set) (simp_all add: rev_map [symmetric])

locale layer_merge = kv_store lookup store invar
  for lookup :: "'s \<Rightarrow> 'k \<Rightarrow> 'v option" and store :: "'k \<Rightarrow> 'v \<Rightarrow> 's \<Rightarrow> 's" and invar :: "'s \<Rightarrow> bool" +
  fixes entries :: "'s \<Rightarrow> ('k \<times> 'v) list" and empty_store :: 's
  assumes entries_lookup: "invar s \<Longrightarrow> map_of (entries s) = lookup s"
    and entries_once: "invar s \<Longrightarrow> distinct (map fst (entries s))"
    and invar_empty: "invar empty_store"
    and lookup_empty: "lookup empty_store = Map.empty"
begin

text \<open>Oldest layer first, each entry by entry.\<close>

lemma merge_layers:
  assumes "invar s" and "\<forall>es \<in> set layers. distinct (map fst es)"
  shows "invar (fold (fold (\<lambda>(k, v). store k v)) layers s)"
    and "lookup (fold (fold (\<lambda>(k, v). store k v)) layers s) = lookup s ++ first_hit (map map_of (rev layers))"
proof -
  have "invar (fold (fold (\<lambda>(k, v). store k v)) layers s) \<and>
    lookup (fold (fold (\<lambda>(k, v). store k v)) layers s) = lookup s ++ first_hit (map map_of (rev layers))"
    using assms
  proof (induction layers arbitrary: s)
    case Nil
    have "first_hit [] = (Map.empty :: 'k \<Rightarrow> 'v option)" by (simp add: fun_eq_iff)
    with Nil show ?case by simp
  next
    case (Cons es layers)
    have "map_of (rev es) = map_of es" using Cons.prems(2) by (simp add: map_of_rev_once)
    then have "lookup (fold (\<lambda>(k, v). store k v) es s) = lookup s ++ map_of es"
      using lookup_replay [OF Cons.prems(1), of es] by simp
    moreover have "first_hit [map_of es] = map_of es"
      by (auto simp: fun_eq_iff split: option.splits)
    ultimately show ?case
      using Cons.IH [OF invar_replay [OF Cons.prems(1), of es]] Cons.prems(2)
      by (simp add: first_hit_map_add)
  qed
  then show "invar (fold (fold (\<lambda>(k, v). store k v)) layers s)"
    "lookup (fold (fold (\<lambda>(k, v). store k v)) layers s) = lookup s ++ first_hit (map map_of (rev layers))"
    by blast+
qed

lemma merge_stores:
  assumes "\<forall>s \<in> set ss. invar s"
  shows "lookup (fold (fold (\<lambda>(k, v). store k v)) (map entries (rev ss)) empty_store) = first_hit (map lookup ss)"
proof -
  have "map map_of (rev (map entries (rev ss))) = map lookup ss"
    using assms by (simp add: rev_map entries_lookup)
  then show ?thesis
    using merge_layers(2) [OF invar_empty, of "map entries (rev ss)"] assms
    by (auto simp: entries_once lookup_empty)
qed

end

lemma sorted_entries_map_of: "map_of (sorted_entries mt) = memtable_find mt"
  by (simp add: sorted_entries_def memtable_find_def [abs_def] map_find_eq_map_of)

interpretation memtable_merge: layer_merge memtable_find memtable_store memtable_ok sorted_entries "memtable_new h"
proof unfold_locales
  show "map_of (sorted_entries s) = memtable_find s" for s by (rule sorted_entries_map_of)
  show "distinct (map fst (sorted_entries s))" if "memtable_ok s" for s
    using memtable_ok_sorted [OF that] by (simp add: sorted_entries_def keys_ascending_distinct)
qed (simp_all add: fun_eq_iff)

lemma memtable_apply_all_fold: "memtable_apply_all = fold (\<lambda>(k, e). memtable_store k e)"
  by (simp add: memtable_apply_all_def fun_eq_iff)

section \<open>The merge of compaction\<close>

lemma merge_tables_fold:
  assumes "\<forall>t \<in> set ts. \<exists>bs. file (tm_file_name t) = Some bs \<and> scan_sstable bs = Inr (content t)"
  shows "merge_tables file ts (n, mem) =
    Inr (n + of_nat (length (concat (map content ts))), fold memtable_apply_all (map content ts) mem)"
  using assms
proof (induction ts arbitrary: n mem)
  case Nil
  then show ?case by simp
next
  case (Cons t ts)
  then obtain bs where "file (tm_file_name t) = Some bs" "scan_sstable bs = Inr (content t)" by auto
  with Cons show ?case by (simp add: add.assoc)
qed

lemma merge_tables_correct:
  assumes "\<forall>t \<in> set ts. \<exists>bs. file (tm_file_name t) = Some bs \<and> scan_sstable bs = Inr (content t)"
    and "\<forall>t \<in> set ts. distinct (map fst (content t))"
  shows "\<exists>mem. merge_tables file (rev ts) (0, memtable_new h) =
      Inr (of_nat (length (concat (map content ts))), mem) \<and> memtable_ok mem \<and>
      memtable_find mem = first_hit (map (\<lambda>t. map_of (content t)) ts)"
proof -
  let ?mem = "fold memtable_apply_all (map content (rev ts)) (memtable_new h)"
  have d: "\<forall>es \<in> set (map content (rev ts)). distinct (map fst es)" using assms(2) by auto
  have len: "length (concat (map content (rev ts))) = length (concat (map content ts))"
    by (simp add: length_concat comp_def flip: rev_map)
  have "memtable_ok ?mem"
    using memtable_merge.merge_layers(1) [OF memtable_ok_new [of h] d] by (simp add: memtable_apply_all_fold)
  moreover have "memtable_find ?mem = first_hit (map (\<lambda>t. map_of (content t)) ts)"
    using memtable_merge.merge_layers(2) [OF memtable_ok_new d, of h]
    by (simp add: memtable_apply_all_fold rev_map comp_def memtable_merge.lookup_empty)
  ultimately show ?thesis
    using merge_tables_fold [of "rev ts" "file" content 0 "memtable_new h"] assms(1) by (simp add: len)
qed

lemma memtable_entries_keys: "of_nat (card (dom (memtable_find mem))) = memtable_entries mem" if "memtable_ok mem"
proof -
  have "distinct (map fst (sorted_entries mem))"
    using that by (rule memtable_merge.entries_once)
  then have "card (dom (map_of (sorted_entries mem))) = length (sorted_entries mem)"
    by (metis distinct_card dom_map_of_conv_image_fst length_map list.set_map)
  then show ?thesis
    by (simp add: memtable_entries_def sorted_entries_map_of) (simp add: sorted_entries_def)
qed

section \<open>The filter of compaction\<close>

definition tombstones :: "(mem_entry \<Rightarrow> bool) \<Rightarrow> (bytes \<times> mem_entry) list \<Rightarrow> (bytes \<times> mem_entry) list" where
  "tombstones P es = filter (\<lambda>(k, e). me_tombstone e \<and> P e) es"

definition survivors :: "(mem_entry \<Rightarrow> bool) \<Rightarrow> (bytes \<times> mem_entry) list \<Rightarrow> (bytes \<times> mem_entry) list" where
  "survivors drp es = filter (\<lambda>(k, e). \<not> (me_tombstone e \<and> drp e)) es"

lemma tombstones_split:
  "length (tombstones (\<lambda>e. \<not> P e) es) + length (tombstones P es) = length (tombstones (\<lambda>_. True) es)"
  by (induction es) (auto simp: tombstones_def)

lemma map_of_filter_once:
  "distinct (map fst es) \<Longrightarrow>
     map_of (filter P es) = (\<lambda>k. case map_of es k of Some e \<Rightarrow> if P (k, e) then Some e else None | None \<Rightarrow> None)"
proof (induction es)
  case Nil
  then show ?case by (simp add: fun_eq_iff)
next
  case (Cons kv es)
  obtain a x where kv: "kv = (a, x)" by (cases kv)
  have "map_of es a = None" using Cons.prems by (simp add: kv map_of_eq_None_iff)
  with Cons show ?case by (auto simp: kv fun_eq_iff)
qed

lemma keys_ascending_map_of_eq:
  assumes "keys_ascending m" and "keys_ascending n" and "map_of m = map_of n"
  shows "m = n"
proof -
  have eta: "es = map (\<lambda>k. (k, the (map_of es k))) (map fst es)" if "keys_ascending es" for es :: "('a \<times> 'b) list"
    using keys_ascending_distinct [OF that] by (auto intro!: map_idI [symmetric])
  have "set m = set n"
    using assms by (metis keys_ascending_distinct map_of_inject_set)
  then have "map fst m = map fst n"
    using assms(1,2) by (intro strict_sorted_equal) (simp_all add: keys_ascending_def)
  then show ?thesis using eta [OF assms(1)] eta [OF assms(2)] assms(3) by metis
qed

lemma fold_filter_step:
  "fold (filter_step drp) es (kept, dropped, mem) =
     (kept + of_nat (length (tombstones (\<lambda>e. \<not> drp e) es)),
      dropped + of_nat (length (tombstones drp es)), memtable_apply_all (survivors drp es) mem)"
  by (induction es arbitrary: kept dropped mem)
    (auto simp: filter_step_def tombstones_def survivors_def memtable_store_def)

lemma filter_tombstones_correct:
  assumes "memtable_ok mem" and "filter_tombstones drp h mem = (kept, dropped, final)"
  shows "memtable_ok final"
    and "memtable_find final = (\<lambda>k. case memtable_find mem k of
        Some e \<Rightarrow> if me_tombstone e \<and> drp e then None else Some e | None \<Rightarrow> None)"
    and "kept + dropped = of_nat (length (tombstones (\<lambda>_. True) (sorted_entries mem)))"
    and "sorted_entries final = survivors drp (sorted_entries mem)"
proof -
  let ?es = "sorted_entries mem"
  have eq: "kept = of_nat (length (tombstones (\<lambda>e. \<not> drp e) ?es))"
    "dropped = of_nat (length (tombstones drp ?es))"
    "final = memtable_apply_all (survivors drp ?es) (memtable_new h)"
    using assms(2) by (simp_all add: filter_tombstones_def fold_filter_step)
  show ok: "memtable_ok final" unfolding eq(3) by (rule memtable_apply_all_ok) simp
  have asc: "keys_ascending (survivors drp ?es)"
    using memtable_ok_sorted [OF assms(1)] by (simp add: survivors_def sorted_entries_def keys_ascending_filter)
  have d: "distinct (map fst ?es)" using assms(1) by (rule memtable_merge.entries_once)
  have f: "memtable_find final = map_of (survivors drp ?es)"
    using memtable_find_apply_all [of "memtable_new h" "survivors drp ?es"] keys_ascending_distinct [OF asc]
    by (simp add: eq(3) memtable_merge.lookup_empty map_of_rev_once)
  then show "sorted_entries final = survivors drp ?es"
    using memtable_ok_sorted [OF ok] asc
    by (intro keys_ascending_map_of_eq) (simp_all add: sorted_entries_map_of, simp add: sorted_entries_def)
  show "memtable_find final = (\<lambda>k. case memtable_find mem k of
      Some e \<Rightarrow> if me_tombstone e \<and> drp e then None else Some e | None \<Rightarrow> None)"
    unfolding f survivors_def map_of_filter_once [OF d] sorted_entries_map_of
    by (auto simp: fun_eq_iff split: option.splits)
  show "kept + dropped = of_nat (length (tombstones (\<lambda>_. True) ?es))"
    unfolding eq(1,2) of_nat_add [symmetric] tombstones_split ..
qed

text \<open>A written table scans to its entries.\<close>

lemma written_scan: "written_ok t \<Longrightarrow> scan_sstable (wt_file t) = Inr (wt_entries t)"
  by (simp add: written_ok_def wt_file_def wt_entries_def scan_table_file)

lemma written_entries_once: "written_ok t \<Longrightarrow> distinct (map fst (wt_entries t))"
  by (simp add: written_ok_def keys_ascending_distinct)

section \<open>The drop rule\<close>

lemma outside_oldest_le: "t \<in> set live \<Longrightarrow> tm_id t \<notin> set ids \<Longrightarrow> outside_oldest ids live \<le> tm_min_seqno t"
proof -
  have fold_le: "fold (\<lambda>t m. if tm_id t \<in> set ids then m else min m (tm_min_seqno t)) ts m \<le> m" for ts m
  proof (induction ts arbitrary: m)
    case Nil
    then show ?case by simp
  next
    case (Cons u ts)
    show ?case
      using Cons [of m] Cons [of "min m (tm_min_seqno u)"] by (auto intro: order_trans [OF _ min.cobounded1])
  qed
  assume t: "t \<in> set live" "tm_id t \<notin> set ids"
  then obtain xs ys where "live = xs @ t # ys" by (auto simp: in_set_conv_decomp)
  then show ?thesis
    using t(2) order_trans [OF fold_le min.cobounded2] by (simp add: outside_oldest_def)
qed

text \<open>While the ranges of the tables descend, a tombstone is dropped only when no table is older
  than the inputs.\<close>

lemma drop_needs_oldest:
  assumes "ranges_descend (ts @ ws @ us)" and "w \<in> set ws" and "tm_min_seqno w \<le> me_seqno e"
    and "tm_id ` set us \<inter> set ids = {}"
    and "drop_tombstone parse now cfg ws (outside_oldest ids (ts @ ws @ us)) e"
  shows "us = []"
proof (cases us)
  case (Cons u us')
  have "outside_oldest ids (ts @ ws @ us) \<le> tm_min_seqno u"
    using assms(4) Cons by (intro outside_oldest_le) auto
  also have "tm_min_seqno u \<le> tm_max_seqno u"
    using assms(1) Cons by (auto simp: ranges_descend_def)
  also have "tm_max_seqno u < tm_min_seqno w"
    using assms(1,2) Cons by (auto simp: ranges_descend_append)
  finally show ?thesis
    using assms(3,5) by (auto simp: drop_tombstone_def)
qed simp

section \<open>Properties\<close>



end
