(* ===== verification/Engine.thy ===== *)
theory Engine
  imports Wal_Recovery Names Layers Manifest_Edits
begin

text \<open>
  The class \<open>Engine\<close> of \<open>include/lsm/engine.hpp\<close> and \<open>src/engine.cpp\<close>.  Memtables are objects
  that the engine and its published versions share by pointer, so they live in a store
  \<open>en_mem\<close> addressed by numbers; readers are shared the same way and are addressed by their
  table's id.  What the operating system, the clock and other threads answer to one operation is
  its argument \<open>engine_io\<close>; the JSON library and the floating-point formulas are \<open>engine_ctx\<close>.  Flush
  and compaction are given as their phases between two lock releases and as whole operations.
\<close>

section \<open>State\<close>

record version =
  ve_id :: u64
  ve_epoch :: u64
  ve_active :: nat
  ve_immutables :: "nat list"
  ve_tables :: "u64 list"

record bg_stats =
  bg_flush_running :: bool
  bg_flush_jobs_total :: u64
  bg_flush_last_ms :: u64
  bg_sst_bytes_written_total :: u64
  bg_compactions_total :: u64
  bg_compaction_last_ms :: u64
  bg_compaction_bytes_in_total :: u64
  bg_compaction_bytes_out_total :: u64
  bg_writes_total :: u64
  bg_write_stalls_total :: u64
  bg_stall_time_ms_total :: u64
  bg_versions_published_total :: u64

text \<open>\<open>en_held\<close> are the versions that reads in progress hold.  \<open>en_sst\<close>, \<open>en_manifest_file\<close>,
  \<open>en_jobs_file\<close>, \<open>en_paused\<close> and, before the log is opened, \<open>en_wal_dir\<close> are the disk.\<close>

record engine =
  en_config :: config
  en_wal :: "wal option"
  en_wal_dir :: wal_dir
  en_sst :: sst_dir
  en_manifest_file :: "bytes option"
  en_jobs_file :: "bytes option"
  en_paused :: bool
  en_mem :: "nat \<Rightarrow> memtable"
  en_next_mem :: nat
  en_active :: nat
  en_immutables :: "nat list"
  en_manifest :: manifest
  en_readers :: "u64 list"
  en_reader :: "u64 \<Rightarrow> reader"
  en_version :: "version option"
  en_held :: "version list"
  en_version_id :: u64
  en_flush_requested :: u64
  en_backpressure_warned :: bool
  en_workers_running :: bool
  en_stop_workers :: bool
  en_shutting_down :: bool
  en_cancel_compaction :: bool
  en_closed :: bool
  en_cache :: block_cache
  en_fds :: fd_pool
  en_read_stats :: read_stats
  en_bg :: bg_stats

record engine_ctx =
  cx_json :: json_api
  cx_jobs :: jobs_api
  cx_shape :: bloom_shape
  cx_similar :: size_test
  cx_parse_time :: "string \<Rightarrow> int"

record engine_io =
  eo_mkdir :: bool
  eo_wal :: wal_io
  eo_sst :: sst_io
  eo_manifest :: mf_io
  eo_manifest_open :: bool
  eo_open :: "u64 \<Rightarrow> bool"
  eo_busy :: "u64 \<Rightarrow> bool"
  eo_remove :: "string \<Rightarrow> bool"
  eo_now :: int
  eo_now_text :: string
  eo_took :: u64

section \<open>Construction and versions\<close>

definition no_bg :: bg_stats where
  "no_bg = \<lparr>bg_flush_running = False, bg_flush_jobs_total = 0, bg_flush_last_ms = 0, bg_sst_bytes_written_total = 0,
     bg_compactions_total = 0, bg_compaction_last_ms = 0, bg_compaction_bytes_in_total = 0, bg_compaction_bytes_out_total = 0,
     bg_writes_total = 0, bg_write_stalls_total = 0,
     bg_stall_time_ms_total = 0, bg_versions_published_total = 0\<rparr>"

record disk =
  dk_wal :: wal_dir
  dk_sst :: sst_dir
  dk_manifest :: "bytes option"
  dk_jobs :: "bytes option"
  dk_paused :: bool

definition engine_new :: "config \<Rightarrow> disk \<Rightarrow> engine" where
  "engine_new cfg d = \<lparr>en_config = cfg, en_wal = None, en_wal_dir = dk_wal d, en_sst = dk_sst d,
     en_manifest_file = dk_manifest d, en_jobs_file = dk_jobs d, en_paused = dk_paused d,
     en_mem = (\<lambda>_. memtable_new 0), en_next_mem = 0, en_active = 0, en_immutables = [],
     en_manifest = manifest_new, en_readers = [],
     en_reader = (\<lambda>_. reader_new (sample_meta 0 0)), en_version = None, en_held = [],
     en_version_id = 0, en_flush_requested = 0, en_backpressure_warned = False,
     en_workers_running = False, en_stop_workers = False, en_shutting_down = False,
     en_cancel_compaction = False, en_closed = False, en_cache = cache_new 0, en_fds = fd_pool_new 1,
     en_read_stats = no_stats, en_bg = no_bg\<rparr>"

definition disk_of :: "engine \<Rightarrow> disk" where
  "disk_of e = \<lparr>dk_wal = (case en_wal e of None \<Rightarrow> en_wal_dir e | Some w \<Rightarrow> w_dir w), dk_sst = en_sst e,
     dk_manifest = en_manifest_file e, dk_jobs = en_jobs_file e, dk_paused = en_paused e\<rparr>"

definition publish_version :: "engine \<Rightarrow> engine" where
  "publish_version e =
     (let vid = en_version_id e + 1 in
      e\<lparr>en_version_id := vid,
        en_version := Some \<lparr>ve_id = vid, ve_epoch = mf_epoch (en_manifest e), ve_active = en_active e,
          ve_immutables = en_immutables e, ve_tables = en_readers e\<rparr>,
        en_bg := (en_bg e)\<lparr>bg_versions_published_total := bg_versions_published_total (en_bg e) + 1\<rparr>\<rparr>)"

definition ensure_open :: "engine \<Rightarrow> unit result" where
  "ensure_open e =
     (if en_closed e \<or> en_shutting_down e then Inl (Thrown StoreClosed)
      else if en_wal e = None then Inl (Thrown StoreClosed)
      else Inr ())"

section \<open>Writing\<close>

definition table_count :: "engine \<Rightarrow> nat" where
  "table_count e = length (mf_tables (en_manifest e))"

definition active_bytes :: "engine \<Rightarrow> u64" where
  "active_bytes e = mt_bytes (en_mem e (en_active e))"

text \<open>What a stalled writer waits for, and how it goes on.\<close>

definition stall_over :: "engine \<Rightarrow> bool" where
  "stall_over e \<longleftrightarrow> en_shutting_down e \<or> en_stop_workers e \<or>
     length (en_immutables e) < unat (max_immutable_tables (en_config e))"

definition stall_result :: "engine \<Rightarrow> unit result" where
  "stall_result e = (if en_shutting_down e \<or> en_stop_workers e then Inl (Thrown StoreClosed) else Inr ())"

text \<open>\<open>None\<close>: the writer waits on the condition variable.\<close>

definition ensure_write_capacity :: "engine \<Rightarrow> unit result option \<times> engine" where
  "ensure_write_capacity e =
     (if table_count e > unat (l0_stop_writes (en_config e)) then (Some (Inl (Thrown Backpressure)), e)
      else if active_bytes e < memtable_max_bytes (en_config e)
        \<or> length (en_immutables e) < unat (max_immutable_tables (en_config e)) then (Some (Inr ()), e)
      else
        let e1 = e\<lparr>en_bg := (en_bg e)\<lparr>bg_write_stalls_total := bg_write_stalls_total (en_bg e) + 1\<rparr>\<rparr> in
        if \<not> en_workers_running e1 then (Some (Inl (Thrown Backpressure)), e1)
        else if stall_over e1 then (Some (stall_result e1), e1)
        else (None, e1))"

definition rotate :: "bool \<Rightarrow> engine \<Rightarrow> engine" where
  "rotate replaying e =
     (let e1 = e\<lparr>en_immutables := en_active e # en_immutables e,
                 en_active := en_next_mem e,
                 en_mem := (en_mem e)(en_next_mem e :=
                   memtable_new (memtable_size_overhead_bytes_per_entry (en_config e))),
                 en_next_mem := en_next_mem e + 1,
                 en_flush_requested := en_flush_requested e + 1\<rparr>
      in if replaying then e1 else publish_version e1)"

definition maybe_rotate :: "engine_io \<Rightarrow> bool \<Rightarrow> engine \<Rightarrow> unit result \<times> engine" where
  "maybe_rotate io replaying e =
     (if active_bytes e < memtable_max_bytes (en_config e) then (Inr (), e)
      else if length (en_immutables e) \<ge> unat (max_immutable_tables (en_config e))
      then (Inr (), if replaying then e\<lparr>en_backpressure_warned := True\<rparr> else e)
      else if replaying then (Inr (), rotate True e)
      else
        case en_wal e of
          None \<Rightarrow> (Inl Undefined, e)
        | Some w \<Rightarrow>
            (case wal_roll (eo_wal io) w of
               (Inl err, w1) \<Rightarrow> (Inl err, e\<lparr>en_wal := Some w1\<rparr>)
             | (Inr _, w1) \<Rightarrow> (Inr (), rotate False (e\<lparr>en_wal := Some w1\<rparr>))))"

definition apply_mutation :: "engine_io \<Rightarrow> bool \<Rightarrow> bytes \<Rightarrow> bytes \<Rightarrow> u64 \<Rightarrow> bool \<Rightarrow> engine \<Rightarrow>
    unit result \<times> engine" where
  "apply_mutation io replaying key value seqno tombstone e =
     maybe_rotate io replaying
       (e\<lparr>en_mem := (en_mem e)(en_active e :=
            memtable_apply key value seqno tombstone (en_mem e (en_active e)))\<rparr>)"

text \<open>The log first, then the memtable; behind the checks.\<close>

definition do_write :: "engine_io \<Rightarrow> bool \<Rightarrow> bytes \<Rightarrow> bytes \<Rightarrow> engine \<Rightarrow> u64 result \<times> engine" where
  "do_write io tombstone key value e =
     (case en_wal e of
        None \<Rightarrow> (Inl Undefined, e)
      | Some w \<Rightarrow>
          (case (if tombstone then append_del (eo_wal io) key w else append_put (eo_wal io) key value w) of
             (Inl err, w1) \<Rightarrow> (Inl err, e\<lparr>en_wal := Some w1\<rparr>)
           | (Inr seqno, w1) \<Rightarrow>
               bind_st (apply_mutation io False key value seqno tombstone
                   (e\<lparr>en_wal := Some w1,
                      en_bg := (en_bg e)\<lparr>bg_writes_total := bg_writes_total (en_bg e) + 1\<rparr>\<rparr>))
                 (\<lambda>_ e1. (Inr seqno, e1))))"

definition guarded_write :: "engine_io \<Rightarrow> bool \<Rightarrow> bytes \<Rightarrow> bytes \<Rightarrow> engine \<Rightarrow> u64 result option \<times> engine" where
  "guarded_write io tombstone key value e =
     (case ensure_open e of
        Inl err \<Rightarrow> (Some (Inl err), e)
      | Inr _ \<Rightarrow>
          if key = [] then (Some (Inl (Thrown InvalidArgument)), e)
          else
            case ensure_write_capacity e of
              (None, e1) \<Rightarrow> (None, e1)
            | (Some (Inl err), e1) \<Rightarrow> (Some (Inl err), e1)
            | (Some (Inr _), e1) \<Rightarrow>
                let (r, e2) = do_write io tombstone key value e1 in (Some r, e2))"

definition put :: "engine_io \<Rightarrow> bytes \<Rightarrow> bytes \<Rightarrow> engine \<Rightarrow> u64 result option \<times> engine" where
  "put io key value e = guarded_write io False key value e"

definition remove_key :: "engine_io \<Rightarrow> bytes \<Rightarrow> engine \<Rightarrow> u64 result option \<times> engine" where
  "remove_key io key e = guarded_write io True key [] e"

text \<open>A writer that waited and was woken.\<close>

definition resume_write :: "engine_io \<Rightarrow> bool \<Rightarrow> bytes \<Rightarrow> bytes \<Rightarrow> engine \<Rightarrow> u64 result option \<times> engine" where
  "resume_write io tombstone key value e =
     (if \<not> stall_over e then (None, e)
      else
        let e0 = e\<lparr>en_bg := (en_bg e)\<lparr>bg_stall_time_ms_total := bg_stall_time_ms_total (en_bg e) + eo_took io\<rparr>\<rparr> in
        case stall_result e0 of
          Inl err \<Rightarrow> (Some (Inl err), e0)
        | Inr _ \<Rightarrow> let (r, e1) = do_write io tombstone key value e0 in (Some r, e1))"

section \<open>Reading\<close>

definition table_file_of :: "engine \<Rightarrow> u64 \<Rightarrow> bytes option" where
  "table_file_of e i = map_find (en_sst e) (tm_file_name (rd_meta (en_reader e i)))"

text \<open>One table's reader together with what it shares.\<close>

definition get_env_of :: "engine \<Rightarrow> get_trace \<Rightarrow> u64 \<Rightarrow> get_env" where
  "get_env_of e tr i = \<lparr>ge_reader = en_reader e i, ge_cache = en_cache e, ge_fds = en_fds e,
     ge_stats = en_read_stats e, ge_trace = tr, ge_closed = []\<rparr>"

definition put_env :: "u64 \<Rightarrow> get_env \<Rightarrow> engine \<Rightarrow> engine" where
  "put_env i g e = e\<lparr>en_reader := fold (\<lambda>j f. f(j := close_file (f j))) (ge_closed g)
       ((en_reader e)(i := ge_reader g)),
     en_cache := ge_cache g, en_fds := ge_fds g, en_read_stats := ge_stats g\<rparr>"

definition table_lookup :: "engine_io \<Rightarrow> bytes \<Rightarrow> u64 \<Rightarrow> engine \<times> get_trace \<Rightarrow>
    table_hit option result \<times> engine \<times> get_trace" where
  "table_lookup io key i = (\<lambda>(e, tr).
     let tr1 = tr\<lparr>gt_sstables_consulted := gt_sstables_consulted tr + 1\<rparr>;
         e1 = e\<lparr>en_read_stats := (en_read_stats e)
                 \<lparr>rs_sstables_consulted_total := rs_sstables_consulted_total (en_read_stats e) + 1\<rparr>\<rparr>;
         (res, g) = table_get (en_config e) (eo_open io i \<and> table_file_of e i \<noteq> None)
                      (case table_file_of e i of Some bs \<Rightarrow> bs | None \<Rightarrow> []) (eo_busy io) key
                      (get_env_of e1 tr1 i)
     in (res, put_env i g e1, ge_trace g))"

fun get_tables :: "engine_io \<Rightarrow> bytes \<Rightarrow> u64 list \<Rightarrow> engine \<times> get_trace \<Rightarrow>
    bytes option result \<times> engine \<times> get_trace" where
  "get_tables io key [] st = (Inr None, st)"
| "get_tables io key (i # rest) st =
     bind_st (table_lookup io key i st) (\<lambda>hit st1.
     case hit of
       Some h \<Rightarrow> (Inr (if th_tombstone h then None else Some (th_value h)), st1)
     | None \<Rightarrow> get_tables io key rest st1)"

fun get_immutables :: "(nat \<Rightarrow> memtable) \<Rightarrow> bytes \<Rightarrow> nat list \<Rightarrow> get_trace \<Rightarrow> mem_entry option \<times> get_trace" where
  "get_immutables mem key [] tr = (None, tr)"
| "get_immutables mem key (a # rest) tr =
     (let tr1 = tr\<lparr>gt_immutables_consulted := gt_immutables_consulted tr + 1\<rparr> in
      case memtable_find (mem a) key of
        Some x \<Rightarrow> (Some x, tr1)
      | None \<Rightarrow> get_immutables mem key rest tr1)"

definition value_of :: "mem_entry \<Rightarrow> bytes option" where
  "value_of x = (if me_tombstone x then None else Some (me_value x))"

text \<open>The body of \<open>get\<close> behind the load of the version.\<close>

definition get_version :: "engine_io \<Rightarrow> version \<Rightarrow> bytes \<Rightarrow> engine \<Rightarrow> bytes option result \<times> engine \<times> get_trace" where
  "get_version io v key e =
     (let e1 = e\<lparr>en_read_stats := (en_read_stats e)\<lparr>rs_reads_total := rs_reads_total (en_read_stats e) + 1\<rparr>\<rparr>;
          hit = (\<lambda>e. e\<lparr>en_read_stats := (en_read_stats e)
                  \<lparr>rs_hit_memtable_total := rs_hit_memtable_total (en_read_stats e) + 1\<rparr>\<rparr>)
      in case memtable_find (en_mem e1 (ve_active v)) key of
           Some x \<Rightarrow> (Inr (value_of x), hit e1, no_trace\<lparr>gt_memtable_hit := True\<rparr>)
         | None \<Rightarrow>
             (case get_immutables (en_mem e1) key (ve_immutables v) no_trace of
                (Some x, tr) \<Rightarrow> (Inr (value_of x), hit e1, tr)
              | (None, tr) \<Rightarrow> get_tables io key (ve_tables v) (e1, tr)))"

definition get_begin :: "bytes \<Rightarrow> engine \<Rightarrow> version result" where
  "get_begin key e =
     and_then (ensure_open e) (\<lambda>_.
     if key = [] then Inl (Thrown InvalidArgument)
     else case en_version e of None \<Rightarrow> Inl Undefined | Some v \<Rightarrow> Inr v)"

definition get :: "engine_io \<Rightarrow> bytes \<Rightarrow> engine \<Rightarrow> bytes option result \<times> engine \<times> get_trace" where
  "get io key e =
     (case get_begin key e of
        Inl err \<Rightarrow> (Inl err, e, no_trace)
      | Inr v \<Rightarrow> get_version io v key e)"

section \<open>Flushing\<close>

text \<open>Under the creation mutex: the oldest immutable and the id of the table to write.\<close>

definition flush_pick :: "engine \<Rightarrow> (nat \<times> u64) option" where
  "flush_pick e = (if en_immutables e = [] then None
     else Some (last (en_immutables e), mf_next_sst_id (en_manifest e)))"

definition set_flush_running :: "bool \<Rightarrow> engine \<Rightarrow> engine" where
  "set_flush_running b e = e\<lparr>en_bg := (en_bg e)\<lparr>bg_flush_running := b\<rparr>\<rparr>"

definition flush_write :: "engine_ctx \<Rightarrow> engine_io \<Rightarrow> nat \<Rightarrow> u64 \<Rightarrow> engine \<Rightarrow> sst_build_result result \<times> engine" where
  "flush_write cx io target out_id e =
     (let e1 = set_flush_running True e in
      case write_sstable (eo_sst io) (cx_shape cx) out_id (en_mem e1 target) (en_config e1) (en_sst e1) of
        (Inl err, dir) \<Rightarrow> (Inl err, set_flush_running False (e1\<lparr>en_sst := dir\<rparr>))
      | (Inr r, dir) \<Rightarrow> (Inr r, e1\<lparr>en_sst := dir\<rparr>))"

definition flush_publish :: "engine_ctx \<Rightarrow> engine_io \<Rightarrow> sst_build_result \<Rightarrow> engine \<Rightarrow> unit result \<times> engine" where
  "flush_publish cx io r e =
     (let meta = meta_of r (eo_now_text io) in
      case add_table (cx_json cx) (eo_manifest io) meta (en_manifest e, en_manifest_file e) of
        (Inl err, m, file) \<Rightarrow> (Inl err, e\<lparr>en_manifest := m, en_manifest_file := file\<rparr>)
      | (Inr _, m, file) \<Rightarrow>
          (Inr (), publish_version (e\<lparr>en_manifest := m, en_manifest_file := file,
             en_readers := tm_id meta # en_readers e,
             en_reader := (en_reader e)(tm_id meta := reader_new meta),
             en_immutables := butlast (en_immutables e)\<rparr>)))"

definition flush_cleanup :: "engine_io \<Rightarrow> engine \<Rightarrow> unit result \<times> engine" where
  "flush_cleanup io e =
     (case en_wal e of
        None \<Rightarrow> (Inl Undefined, e)
      | Some w \<Rightarrow>
          (case remove_segments_covered (eo_wal io) (manifest_max_seqno (en_manifest e)) w of
             (Inl err, w1) \<Rightarrow> (Inl err, e\<lparr>en_wal := Some w1\<rparr>)
           | (Inr _, w1) \<Rightarrow> (Inr (), e\<lparr>en_wal := Some w1\<rparr>)))"

definition flush_count :: "engine_io \<Rightarrow> sst_build_result \<Rightarrow> engine \<Rightarrow> engine" where
  "flush_count io r e = e\<lparr>en_bg := (en_bg e)
     \<lparr>bg_flush_jobs_total := bg_flush_jobs_total (en_bg e) + 1, bg_flush_last_ms := eo_took io,
      bg_sst_bytes_written_total := bg_sst_bytes_written_total (en_bg e) + br_file_size r,
      bg_flush_running := False\<rparr>\<rparr>"

definition flush_one :: "engine_ctx \<Rightarrow> engine_io \<Rightarrow> engine \<Rightarrow> bool result \<times> engine" where
  "flush_one cx io e =
     (case flush_pick e of
        None \<Rightarrow> (Inr False, e)
      | Some (target, out_id) \<Rightarrow>
          bind_st (flush_write cx io target out_id e) (\<lambda>r e1.
          bind_st (flush_publish cx io r e1) (\<lambda>_ e2.
          bind_st (flush_cleanup io e2) (\<lambda>_ e3. (Inr True, flush_count io r e3)))))"

section \<open>Compaction\<close>

record merge_result =
  mr_ids :: "u64 list"
  mr_live :: "table_meta list"
  mr_state :: compaction_state
  mr_keys_in :: u64
  mr_merged :: memtable

definition file_in :: "engine \<Rightarrow> string \<Rightarrow> bytes option" where
  "file_in e name = map_find (en_sst e) name"

text \<open>The choice of the inputs and the merge; \<open>None\<close> when there is nothing to compact or the job
  was cancelled.\<close>

definition compact_merge :: "engine_ctx \<Rightarrow> u64 list option \<Rightarrow> engine \<Rightarrow> merge_result option result" where
  "compact_merge cx inputs e =
     and_then (ensure_open e) (\<lambda>_.
     let live = mf_tables (en_manifest e) in
     and_then (choose_inputs (cx_similar cx) (en_config e) live inputs) (\<lambda>chosen.
     case chosen of
       None \<Rightarrow> Inr None
     | Some ids \<Rightarrow>
         and_then (merge_tables (file_in e) (rev (input_metas ids live))
             (0, memtable_new (memtable_size_overhead_bytes_per_entry (en_config e)))) (\<lambda>(keys_in, merged).
         if en_cancel_compaction e then Inr None
         else Inr (Some \<lparr>mr_ids = ids, mr_live = live,
                mr_state = load_compaction_state (cx_jobs cx) (en_jobs_file e),
                mr_keys_in = keys_in, mr_merged = merged\<rparr>))))"

text \<open>What is kept of the merge, and the job's record so far.\<close>

definition compact_filter :: "engine_ctx \<Rightarrow> engine_io \<Rightarrow> config \<Rightarrow> merge_result \<Rightarrow> memtable \<times> compaction_job" where
  "compact_filter cx io cfg mr =
     (let inputs = input_metas (mr_ids mr) (mr_live mr);
          drp = drop_tombstone (cx_parse_time cx) (eo_now io) cfg inputs
                  (outside_oldest (mr_ids mr) (mr_live mr));
          (kept, dropped, final) = filter_tombstones drp (memtable_size_overhead_bytes_per_entry cfg) (mr_merged mr)
      in (final, \<lparr>cj_job_id = cs_next_job_id (mr_state mr), cj_input_ids = mr_ids mr, cj_output_file = [],
            cj_bytes_in = sum_list (map tm_file_size inputs), cj_bytes_out = 0, cj_keys_in = mr_keys_in mr,
            cj_keys_out = memtable_entries final, cj_keys_dropped = mr_keys_in mr - memtable_entries final,
            cj_tombstones_kept = kept, cj_tombstones_dropped = dropped, cj_duration_ms = 0\<rparr>))"

definition compact_output :: "engine_ctx \<Rightarrow> engine_io \<Rightarrow> memtable \<Rightarrow> engine \<Rightarrow> table_meta option result \<times> engine" where
  "compact_output cx io final e =
     (if memtable_entries final = 0 then (Inr None, e)
      else
        case write_sstable (eo_sst io) (cx_shape cx) (mf_next_sst_id (en_manifest e)) final (en_config e) (en_sst e) of
          (Inl err, dir) \<Rightarrow> (Inl err, e\<lparr>en_sst := dir\<rparr>)
        | (Inr r, dir) \<Rightarrow> (Inr (Some (meta_of r (eo_now_text io))), e\<lparr>en_sst := dir\<rparr>))"

text \<open>One manifest edit, the new reader list with untouched handles reused, the new version.\<close>

definition compact_publish :: "engine_ctx \<Rightarrow> engine_io \<Rightarrow> u64 list \<Rightarrow> table_meta option \<Rightarrow> engine \<Rightarrow>
    u64 list result \<times> engine" where
  "compact_publish cx io ids added e =
     (case apply_compaction (cx_json cx) (eo_manifest io) ids added (en_manifest e, en_manifest_file e) of
        (Inl err, m, file) \<Rightarrow> (Inl err, e\<lparr>en_manifest := m, en_manifest_file := file\<rparr>)
      | (Inr _, m, file) \<Rightarrow>
          (Inr (filter (\<lambda>i. i \<in> set ids) (en_readers e)),
           publish_version (e\<lparr>en_manifest := m, en_manifest_file := file,
             en_readers := map tm_id (mf_tables m),
             en_reader := fold (\<lambda>t f. if tm_id t \<in> set (en_readers e) then f else f(tm_id t := reader_new t))
               (mf_tables m) (en_reader e)\<rparr>)))"

text \<open>Whether a read in progress still references a table, and the deletion of the others.\<close>

definition table_held :: "engine \<Rightarrow> u64 \<Rightarrow> bool" where
  "table_held e i \<longleftrightarrow> (\<exists>v \<in> set (en_held e). i \<in> set (ve_tables v))"

definition delete_input :: "engine_io \<Rightarrow> u64 \<Rightarrow> engine \<Rightarrow> engine" where
  "delete_input io i e =
     (let name = tm_file_name (rd_meta (en_reader e i)) in
      if table_held e i then e
      else e\<lparr>en_fds := fd_on_close i (en_fds e),
             en_reader := (en_reader e)(i := close_file (en_reader e i)),
             en_sst := (if eo_remove io name then map_erase name (en_sst e) else en_sst e)\<rparr>)"

definition finish_job :: "engine_ctx \<Rightarrow> engine_io \<Rightarrow> compaction_state \<Rightarrow> compaction_job \<Rightarrow> engine \<Rightarrow> engine" where
  "finish_job cx io cs job e =
     e\<lparr>en_jobs_file := save_compaction_state (cx_jobs cx) (cs\<lparr>cs_next_job_id := cs_next_job_id cs + 1,
          cs_last_job := Some job, cs_last_job_finished_at := eo_now_text io\<rparr>),
       en_bg := (en_bg e)\<lparr>bg_compactions_total := bg_compactions_total (en_bg e) + 1, bg_compaction_last_ms := cj_duration_ms job,
          bg_compaction_bytes_in_total := bg_compaction_bytes_in_total (en_bg e) + cj_bytes_in job,
          bg_compaction_bytes_out_total := bg_compaction_bytes_out_total (en_bg e) + cj_bytes_out job\<rparr>\<rparr>"

definition discard_output :: "engine_io \<Rightarrow> table_meta option \<Rightarrow> engine \<Rightarrow> engine" where
  "discard_output io added e = (case added of
       Some t \<Rightarrow> if eo_remove io (tm_file_name t) then e\<lparr>en_sst := map_erase (tm_file_name t) (en_sst e)\<rparr> else e
     | None \<Rightarrow> e)"

definition run_compaction :: "engine_ctx \<Rightarrow> engine_io \<Rightarrow> u64 list option \<Rightarrow> engine \<Rightarrow>
    compaction_job option result \<times> engine" where
  "run_compaction cx io inputs e =
     (case compact_merge cx inputs e of
        Inl err \<Rightarrow> (Inl err, e)
      | Inr None \<Rightarrow> (Inr None, e)
      | Inr (Some mr) \<Rightarrow>
          let (final, job) = compact_filter cx io (en_config e) mr in
          bind_st (compact_output cx io final e) (\<lambda>added e1.
          if en_cancel_compaction e1 then (Inr None, discard_output io added e1)
          else
            let job1 = (case added of None \<Rightarrow> job
                  | Some t \<Rightarrow> job\<lparr>cj_bytes_out := tm_file_size t, cj_output_file := tm_file_name t\<rparr>)
                  \<lparr>cj_duration_ms := eo_took io\<rparr>
            in bind_st (compact_publish cx io (mr_ids mr) added e1) (\<lambda>removed e2.
               (Inr (Some job1), finish_job cx io (mr_state mr) job1 (fold (delete_input io) removed e2)))))"

section \<open>Flushing everything, and automatic compaction\<close>

text \<open>The result that \<open>flush_pending\<close> reports is read off the front of the manifest.\<close>

definition result_of_meta :: "table_meta \<Rightarrow> sst_build_result" where
  "result_of_meta t = \<lparr>br_id = tm_id t, br_file_name = tm_file_name t, br_file_size = tm_file_size t,
     br_min_key = tm_min_key t, br_max_key = tm_max_key t, br_min_seqno = tm_min_seqno t,
     br_max_seqno = tm_max_seqno t, br_entries = tm_entries t,
     br_bloom_bits_per_key = tm_bloom_bits_per_key t, br_bloom_hashes = tm_bloom_hashes t\<rparr>"

text \<open>One answer of the environment per round; every round that goes on shortens the queue, so its
  length is fuel enough.\<close>

primrec flush_loop :: "engine_ctx \<Rightarrow> (nat \<Rightarrow> engine_io) \<Rightarrow> nat \<Rightarrow> engine \<Rightarrow> sst_build_result list result \<times> engine" where
  "flush_loop cx ios 0 e = (Inr [], e)"
| "flush_loop cx ios (Suc n) e =
     (if en_immutables e = [] then (Inr [], e)
      else
        bind_st (flush_one cx (ios n) e) (\<lambda>more e1.
        if \<not> more then (Inr [], e1)
        else
          bind_st (flush_loop cx ios n e1) (\<lambda>rest e2.
          (Inr (result_of_meta (hd (mf_tables (en_manifest e1))) # rest), e2))))"

text \<open>The number of tables has to shrink from round to round.\<close>

primrec compact_loop :: "engine_ctx \<Rightarrow> (nat \<Rightarrow> engine_io) \<Rightarrow> nat \<Rightarrow> engine \<Rightarrow> unit result \<times> engine" where
  "compact_loop cx ios 0 e = (Inr (), e)"
| "compact_loop cx ios (Suc n) e =
     (if table_count e < unat (l0_compaction_trigger (en_config e)) then (Inr (), e)
      else
        bind_st (run_compaction cx (ios n) None e) (\<lambda>job e1.
        if job = None \<or> table_count e1 \<ge> table_count e then (Inr (), e1)
        else compact_loop cx ios n e1))"

definition maybe_auto_compact :: "engine_ctx \<Rightarrow> (nat \<Rightarrow> engine_io) \<Rightarrow> engine \<Rightarrow> unit result \<times> engine" where
  "maybe_auto_compact cx ios e =
     (if en_paused e then (Inr (), e) else compact_loop cx ios (table_count e + 1) e)"

definition flush_pending :: "engine_ctx \<Rightarrow> (nat \<Rightarrow> engine_io) \<Rightarrow> (nat \<Rightarrow> engine_io) \<Rightarrow> engine \<Rightarrow>
    sst_build_result list result \<times> engine" where
  "flush_pending cx ios compact_ios e =
     (case ensure_open e of
        Inl err \<Rightarrow> (Inl err, e)
      | Inr _ \<Rightarrow>
          bind_st (flush_loop cx ios (length (en_immutables e)) e) (\<lambda>results e1.
          bind_st (maybe_auto_compact cx compact_ios e1) (\<lambda>_ e2. (Inr results, e2))))"

definition set_compaction_paused :: "engine_io \<Rightarrow> bool \<Rightarrow> engine \<Rightarrow> engine" where
  "set_compaction_paused io b e = e\<lparr>en_paused := (if b then True else en_paused e \<and> \<not> eo_remove io ''compaction.paused'')\<rparr>"

section \<open>Opening\<close>

record engine_recovery =
  er_wal :: wal_recovery_report
  er_memtable_keys :: u64
  er_memtable_bytes :: u64
  er_sst_count :: nat
  er_tmp_files_removed :: nat
  er_epoch :: u64
  er_version_published :: u64

text \<open>Leftover temporary files, then files the manifest does not list, are deleted; a file that cannot
  be deleted stays.\<close>

definition drop_files :: "engine_io \<Rightarrow> (string \<Rightarrow> bool) \<Rightarrow> sst_dir \<Rightarrow> sst_dir" where
  "drop_files io doomed dir = filter (\<lambda>(name, _). \<not> (doomed name \<and> eo_remove io name)) dir"

definition is_tmp :: "string \<Rightarrow> bool" where
  "is_tmp name \<longleftrightarrow> extension name = ''.tmp''"

definition is_orphan :: "manifest \<Rightarrow> string \<Rightarrow> bool" where
  "is_orphan m name \<longleftrightarrow> extension name = ''.sst'' \<and> name \<notin> tm_file_name ` set (mf_tables m)"

text \<open>The readers of the manifest's tables, newest first, each with its footer checked.\<close>

fun open_readers :: "engine_io \<Rightarrow> table_meta list \<Rightarrow> engine \<Rightarrow> unit result \<times> engine" where
  "open_readers io [] e = (Inr (), e)"
| "open_readers io (t # rest) e =
     (case map_find (en_sst e) (tm_file_name t) of
        None \<Rightarrow> (Inl (Thrown CorruptionDetected), e)
      | Some bs \<Rightarrow>
          (case validate_footer (eo_open io (tm_id t)) bs (reader_new t) of
             (Inl err, _) \<Rightarrow> (Inl err, e)
           | (Inr _, r) \<Rightarrow>
               open_readers io rest (e\<lparr>en_readers := en_readers e @ [tm_id t],
                 en_reader := (en_reader e)(tm_id t := r)\<rparr>)))"

fun replay_all :: "engine_io \<Rightarrow> (nat \<times> wal_record) list \<Rightarrow> engine \<Rightarrow> unit result \<times> engine" where
  "replay_all io [] e = (Inr (), e)"
| "replay_all io ((sid, r) # rest) e =
     bind_st (apply_mutation io True (rec_key r) (rec_value r) (rec_seqno r) (rec_type r = kTypeDel) e)
       (\<lambda>_ e1. replay_all io rest e1)"

definition with_memtable :: "engine \<Rightarrow> engine" where
  "with_memtable e = e\<lparr>en_active := en_next_mem e,
     en_mem := (en_mem e)(en_next_mem e := memtable_new (memtable_size_overhead_bytes_per_entry (en_config e))),
     en_next_mem := en_next_mem e + 1\<rparr>"

definition open_wal :: "engine_io \<Rightarrow> engine \<Rightarrow> wal_recovery_report result \<times> engine" where
  "open_wal io e =
     (case wal_open (eo_wal io) (wal_new (en_wal_dir e) (wal_fsync_every_n (en_config e))
             (wal_segment_roll_bytes (en_config e))) of
        (Inl err, w) \<Rightarrow> (Inl err, e\<lparr>en_wal := Some w\<rparr>)
      | (Inr (rep, records), w) \<Rightarrow>
          bind_st (replay_all io records (e\<lparr>en_wal := Some w\<rparr>)) (\<lambda>_ e1. (Inr rep, e1)))"

definition bump_engine_seqno :: "engine \<Rightarrow> engine" where
  "bump_engine_seqno e = e\<lparr>en_wal := map_option (bump_seqno (manifest_max_seqno (en_manifest e))) (en_wal e)\<rparr>"

definition engine_open :: "engine_ctx \<Rightarrow> engine_io \<Rightarrow> engine \<Rightarrow> engine_recovery result \<times> engine" where
  "engine_open cx io e =
     (if \<not> eo_mkdir io then (Inl (Thrown IOFailure), e)
      else
        let e1 = e\<lparr>en_sst := drop_files io is_tmp (en_sst e)\<rparr>;
            tmps = length (filter (is_tmp \<circ> fst) (en_sst e))
        in case load_or_create (cx_json cx) (eo_manifest_open io) (en_manifest_file e1) of
             Inl err \<Rightarrow> (Inl err, e1)
           | Inr m \<Rightarrow>
               let e2 = e1\<lparr>en_manifest := m, en_sst := drop_files io (is_orphan m) (en_sst e1),
                          en_version_id := mf_epoch m,
                          en_cache := cache_new (ucast (block_cache_mb (en_config e1)) * 1024 * 1024),
                          en_fds := fd_pool_new (max_open_files (en_config e1))\<rparr>
               in bind_st (open_readers io (mf_tables m) e2) (\<lambda>_ e3.
                  bind_st (open_wal io (with_memtable e3)) (\<lambda>rep e4.
                  let e5 = publish_version (bump_engine_seqno e4);
                      mt = en_mem e4 (en_active e4)
                  in (Inr \<lparr>er_wal = rep\<lparr>rr_last_seqno := max (rr_last_seqno rep) (manifest_max_seqno m)\<rparr>,
                          er_memtable_keys = memtable_entries mt, er_memtable_bytes = mt_bytes mt,
                          er_sst_count = length (mf_tables m), er_tmp_files_removed = tmps,
                          er_epoch = mf_epoch m, er_version_published = en_version_id e5\<rparr>, e5))))"

section \<open>Background work, shutdown, reads in progress\<close>

definition start_background :: "engine \<Rightarrow> engine" where
  "start_background e = (if en_workers_running e then e
     else e\<lparr>en_stop_workers := False, en_workers_running := True\<rparr>)"

definition stop_workers :: "engine \<Rightarrow> engine" where
  "stop_workers e = (if \<not> en_workers_running e then e
     else e\<lparr>en_stop_workers := True, en_workers_running := False\<rparr>)"

text \<open>One round of the workers: an \<open>Error\<close> is reported and the work retried later; any other
  exception leaves the thread function and ends the process.\<close>

definition catch_error :: "'a result \<times> engine \<Rightarrow> unit result \<times> engine" where
  "catch_error st = (case st of (Inl (Thrown _), e) \<Rightarrow> (Inr (), e) | (Inl f, e) \<Rightarrow> (Inl f, e) | (Inr _, e) \<Rightarrow> (Inr (), e))"

definition flush_worker_round :: "engine_ctx \<Rightarrow> engine_io \<Rightarrow> engine \<Rightarrow> unit result \<times> engine" where
  "flush_worker_round cx io e =
     (if en_immutables e = [] then (Inr (), e) else catch_error (flush_one cx io e))"

definition compaction_worker_round :: "engine_ctx \<Rightarrow> engine_io \<Rightarrow> engine \<Rightarrow> unit result \<times> engine" where
  "compaction_worker_round cx io e =
     (if en_stop_workers e \<or> en_cancel_compaction e \<or> en_paused e then (Inr (), e)
      else if en_immutables e \<noteq> [] then (Inr (), e)
      else
        case pick_compaction (cx_similar cx) (mf_tables (en_manifest e)) (en_config e) of
          None \<Rightarrow> (Inr (), e)
        | Some p \<Rightarrow>
            if table_count e < unat (l0_compaction_trigger (en_config e)) \<and> pk_reason p \<noteq> ''size-similar window''
            then (Inr (), e)
            else catch_error (run_compaction cx io None e))"

primrec drain :: "engine_ctx \<Rightarrow> (nat \<Rightarrow> engine_io) \<Rightarrow> nat \<Rightarrow> engine \<Rightarrow> unit result \<times> engine" where
  "drain cx ios 0 e = (Inr (), e)"
| "drain cx ios (Suc n) e =
     bind_st (flush_one cx (ios n) e) (\<lambda>more e1. if more then drain cx ios n e1 else (Inr (), e1))"

definition close :: "engine_ctx \<Rightarrow> engine_io \<Rightarrow> (nat \<Rightarrow> engine_io) \<Rightarrow> bool \<Rightarrow> engine \<Rightarrow> unit result \<times> engine" where
  "close cx io ios graceful e =
     (if en_closed e then (Inr (), e)
      else
        let e1 = e\<lparr>en_shutting_down := True\<rparr>;
            drained = (if \<not> en_workers_running e1 then (Inr (), e1)
              else if graceful then bind_st (drain cx ios (length (en_immutables e1) + 1) e1) (\<lambda>_ e2. (Inr (), stop_workers e2))
              else (Inr (), stop_workers (e1\<lparr>en_cancel_compaction := True\<rparr>)))
        in bind_st drained (\<lambda>_ e2.
           case en_wal e2 of
             None \<Rightarrow> (Inr (), e2\<lparr>en_closed := True\<rparr>)
           | Some w \<Rightarrow>
               (case wal_close (eo_wal io) w of
                  (Inl err, w1) \<Rightarrow> (Inl err, e2\<lparr>en_wal := Some w1\<rparr>)
                | (Inr _, w1) \<Rightarrow> (Inr (), e2\<lparr>en_wal := Some w1, en_closed := True\<rparr>))))"

text \<open>A read in progress takes a version and lets it go; the last reference to a version destroys the
  readers only it had, which close their files.\<close>

definition grab_version :: "version \<Rightarrow> engine \<Rightarrow> engine" where
  "grab_version v e = e\<lparr>en_held := v # en_held e\<rparr>"

definition release_version :: "version \<Rightarrow> engine \<Rightarrow> engine" where
  "release_version v e =
     (let held = remove1 v (en_held e);
          gone = filter (\<lambda>i. i \<notin> set (en_readers e) \<and> (\<forall>u \<in> set held. i \<notin> set (ve_tables u))) (ve_tables v)
      in e\<lparr>en_held := held, en_fds := fold fd_on_close gone (en_fds e),
           en_reader := fold (\<lambda>i f. f(i := close_file (f i))) gone (en_reader e)\<rparr>)"

section \<open>Statistics\<close>

record memtable_stats =
  ms_active_entries :: u64
  ms_active_bytes :: u64
  ms_immutables_count :: nat
  ms_immutables_bytes_total :: u64
  ms_flush_requested :: u64

definition engine_memtable_stats :: "engine \<Rightarrow> memtable_stats result" where
  "engine_memtable_stats e =
     and_then (ensure_open e) (\<lambda>_. Inr \<lparr>ms_active_entries = memtable_entries (en_mem e (en_active e)),
       ms_active_bytes = active_bytes e, ms_immutables_count = length (en_immutables e),
       ms_immutables_bytes_total = sum_list (map (\<lambda>a. mt_bytes (en_mem e a)) (en_immutables e)),
       ms_flush_requested = en_flush_requested e\<rparr>)"

record sst_stats =
  ss_sst_count :: nat
  ss_sst_total_bytes :: u64
  ss_newest_id :: u64

definition engine_sst_stats :: "engine \<Rightarrow> sst_stats" where
  "engine_sst_stats e = \<lparr>ss_sst_count = table_count e, ss_sst_total_bytes = total_bytes (en_manifest e),
     ss_newest_id = (case mf_tables (en_manifest e) of [] \<Rightarrow> 0 | t # _ \<Rightarrow> tm_id t)\<rparr>"

end
