(* ===== verification/Engine_View.thy ===== *)
theory Engine_View
  imports Engine
begin

text \<open>
  What the engine's state means: the memtables and tables of a version, newest first, the first hit
  visible; and what a read through a version returns and changes.  A table is known by the entries
  it was written from (the ghost argument \<open>T\<close>).
\<close>

section \<open>Tables, layers, views\<close>

definition table_ok :: "engine \<Rightarrow> (u64 \<Rightarrow> written) \<Rightarrow> u64 \<Rightarrow> bool" where
  "table_ok e T i \<longleftrightarrow> written_ok (T i) \<and> table_file_of e i = Some (wt_file (T i)) \<and>
     reader_ok (T i) (en_reader e i) \<and> tm_id (rd_meta (en_reader e i)) = i \<and>
     tm_file_name (rd_meta (en_reader e i)) = sst_file_name i \<and> cache_ok i (T i) (en_cache e)"

definition table_map :: "(u64 \<Rightarrow> written) \<Rightarrow> u64 \<Rightarrow> bytes \<Rightarrow> mem_entry option" where
  "table_map T i = map_of (wt_entries (T i))"

definition layers :: "engine \<Rightarrow> (u64 \<Rightarrow> written) \<Rightarrow> version \<Rightarrow> (bytes \<Rightarrow> mem_entry option) list" where
  "layers e T v = map (\<lambda>a. memtable_find (en_mem e a)) (ve_active v # ve_immutables v) @ map (table_map T) (ve_tables v)"

definition view :: "engine \<Rightarrow> (u64 \<Rightarrow> written) \<Rightarrow> version \<Rightarrow> bytes \<Rightarrow> bytes option" where
  "view e T v key = visible (first_hit (layers e T v) key)"

definition current :: "engine \<Rightarrow> version" where
  "current e = \<lparr>ve_id = en_version_id e, ve_epoch = mf_epoch (en_manifest e), ve_active = en_active e,
     ve_immutables = en_immutables e, ve_tables = en_readers e\<rparr>"

text \<open>What the store means: the value of every key.\<close>

definition contents :: "engine \<Rightarrow> (u64 \<Rightarrow> written) \<Rightarrow> bytes \<Rightarrow> bytes option" where
  "contents e T = view e T (current e)"

section \<open>A lookup in one table\<close>

text \<open>What a read that consults the tables \<open>ids\<close> changes.\<close>

definition reads_only :: "u64 set \<Rightarrow> engine \<Rightarrow> engine \<Rightarrow> bool" where
  "reads_only ids e e' \<longleftrightarrow>
     (\<exists>rd c f s. e' = e\<lparr>en_reader := rd, en_cache := c, en_fds := f, en_read_stats := s\<rparr>) \<and>
     (\<forall>i. rd_meta (en_reader e' i) = rd_meta (en_reader e i)) \<and>
     (\<forall>T i. table_ok e T i \<longrightarrow> table_ok e' T i) \<and>
     (\<forall>i u. i \<notin> ids \<longrightarrow> cache_ok i u (en_cache e) \<longrightarrow> cache_ok i u (en_cache e'))"

lemma engine_eta: "e\<lparr>en_reader := en_reader e, en_cache := en_cache e, en_fds := en_fds e, en_read_stats := en_read_stats e\<rparr> = e"
  by simp

lemma reads_only_refl: "reads_only ids e e"
  unfolding reads_only_def by (metis engine_eta)

lemma reads_only_trans: "reads_only ids e e1 \<Longrightarrow> reads_only ids e1 e2 \<Longrightarrow> reads_only ids e e2"
  unfolding reads_only_def by (elim conjE exE) (intro conjI; force)

lemma reads_only_mono: "reads_only ids e e' \<Longrightarrow> ids \<subseteq> ids' \<Longrightarrow> reads_only ids' e e'"
  unfolding reads_only_def by blast

lemma reads_only_stats: "reads_only ids e (e\<lparr>en_read_stats := s\<rparr>)"
  unfolding reads_only_def
proof (intro conjI allI impI)
  show "\<exists>rd c f s'. e\<lparr>en_read_stats := s\<rparr> = e\<lparr>en_reader := rd, en_cache := c, en_fds := f, en_read_stats := s'\<rparr>"
    by (intro exI [of _ "en_reader e"] exI [of _ "en_cache e"] exI [of _ "en_fds e"] exI [of _ s]) simp
qed (auto simp: table_ok_def table_file_of_def)

lemma reads_only_keeps:
  assumes "reads_only ids e e'"
  shows "en_mem e' = en_mem e" "en_active e' = en_active e" "en_immutables e' = en_immutables e"
    "en_readers e' = en_readers e" "en_manifest e' = en_manifest e" "en_version e' = en_version e"
    "en_sst e' = en_sst e" "en_wal e' = en_wal e" "en_config e' = en_config e" "en_held e' = en_held e"
    "en_next_mem e' = en_next_mem e" "en_version_id e' = en_version_id e"
    "en_manifest_file e' = en_manifest_file e"
    "rd_meta (en_reader e' i) = rd_meta (en_reader e i)"
  using assms by (auto simp: reads_only_def)

lemma close_all_readers:
  "fold (\<lambda>j f. f(j := close_file (f j))) js f i = (if i \<in> set js then close_file (f i) else f i)"
  by (induction js arbitrary: f) (auto simp: close_file_def)

lemma table_lookup_step:
  assumes ok: "table_ok e T i" and run: "table_lookup io key i (e, tr) = (res, e', tr')"
  shows "res = Inr (map_option hit_of (table_map T i key)) \<or> \<not> eo_open io i \<and> res = Inl (Thrown IOFailure)"
    and "reads_only {i} e e'"
proof -
  let ?e1 = "e\<lparr>en_read_stats := (en_read_stats e)
      \<lparr>rs_sstables_consulted_total := rs_sstables_consulted_total (en_read_stats e) + 1\<rparr>\<rparr>"
    and ?tr1 = "tr\<lparr>gt_sstables_consulted := gt_sstables_consulted tr + 1\<rparr>"
  let ?g = "get_env_of ?e1 ?tr1 i"
  have W: "written_ok (T i)" and F: "table_file_of e i = Some (wt_file (T i))"
    and R: "reader_ok (T i) (ge_reader ?g)" and I: "tm_id (rd_meta (ge_reader ?g)) = i"
    and C: "cache_ok (tm_id (rd_meta (ge_reader ?g))) (T i) (ge_cache ?g)"
    using ok by (simp_all add: table_ok_def get_env_of_def)
  obtain g where g: "table_get (en_config e) (eo_open io i \<and> table_file_of e i \<noteq> None)
      (case table_file_of e i of Some bs \<Rightarrow> bs | None \<Rightarrow> []) (eo_busy io) key ?g = (res, g)"
    and e': "e' = put_env i g ?e1"
    using run by (auto simp: table_lookup_def Let_def split: prod.splits)
  have g': "table_get (en_config e) (eo_open io i) (wt_file (T i)) (eo_busy io) key ?g = (res, g)"
    using g by (simp add: F)
  note S = table_get_step [OF W R C g']
  show "res = Inr (map_option hit_of (table_map T i key)) \<or> \<not> eo_open io i \<and> res = Inl (Thrown IOFailure)"
    using S(1) by (simp add: table_map_def map_find_eq_map_of)
  have inv: "reader_ok (T i) (ge_reader g)" "rd_meta (ge_reader g) = rd_meta (en_reader e i)"
    "cache_ok i (T i) (ge_cache g)" "\<And>j u. j \<noteq> i \<Longrightarrow> cache_ok j u (en_cache e) \<Longrightarrow> cache_ok j u (ge_cache g)"
    using S(2) I by (auto simp: get_inv_def get_env_of_def)
  have rd: "en_reader e' j = (let r = (if j = i then ge_reader g else en_reader e j) in
      if j \<in> set (ge_closed g) then close_file r else r)" for j
    by (simp add: e' put_env_def close_all_readers)
  show "reads_only {i} e e'"
    unfolding reads_only_def
  proof (intro conjI allI impI)
    show "\<exists>rd c f s. e' = e\<lparr>en_reader := rd, en_cache := c, en_fds := f, en_read_stats := s\<rparr>"
      by (auto simp: e' put_env_def)
    show "rd_meta (en_reader e' j) = rd_meta (en_reader e j)" for j
      by (simp add: rd inv(2) Let_def)
    show "cache_ok j u (en_cache e')" if "j \<notin> {i}" "cache_ok j u (en_cache e)" for j u
      using inv(4) that by (simp add: e' put_env_def)
    fix T' j
    assume ok': "table_ok e T' j"
    have files: "table_file_of e' j = table_file_of e j"
      by (simp add: table_file_of_def rd inv(2) Let_def) (simp add: e' put_env_def)
    have meta: "rd_meta (en_reader e' j) = rd_meta (en_reader e j)"
      by (simp add: rd inv(2) Let_def)
    have cache: "en_cache e' = ge_cache g" by (simp add: e' put_env_def)
    have both: "reader_ok (T' j) (en_reader e' j) \<and> cache_ok j (T' j) (en_cache e')"
    proof (cases "j = i")
      case True
      note S' = table_get_step(2) [of "T' i" ?g "en_config e" "eo_open io i" "eo_busy io" key res g]
      have "wt_file (T' i) = wt_file (T i)" using ok' F True by (simp add: table_ok_def)
      then have "get_inv (T' i) ?g g"
        using ok' g' True I by (intro S') (simp_all add: table_ok_def get_env_of_def)
      then show ?thesis
        using True I cache by (auto simp: get_inv_def get_env_of_def rd reader_ok_closed Let_def)
    next
      case False
      then show ?thesis
        using ok' inv(4) [OF False] False by (auto simp: table_ok_def rd cache reader_ok_closed Let_def)
    qed
    then show "table_ok e' T' j"
      using ok' files meta by (simp add: table_ok_def)
  qed
qed

lemma visible_hit: "visible (map_option f x) = (case x of None \<Rightarrow> None | Some y \<Rightarrow> visible (Some (f y)))"
  by (cases x) (simp_all add: visible_def)

lemma get_tables_step:
  assumes "\<forall>i \<in> set ids. table_ok e T i" and "get_tables io key ids (e, tr) = (res, e', tr')"
  shows "(res = Inr (visible (first_hit (map (table_map T) ids) key)) \<or>
      (\<exists>i \<in> set ids. \<not> eo_open io i) \<and> res = Inl (Thrown IOFailure)) \<and> reads_only (set ids) e e'"
  using assms
proof (induction ids arbitrary: e tr)
  case Nil
  then show ?case by (simp add: visible_def reads_only_refl)
next
  case (Cons i rest)
  obtain r1 e1 tr1 where 1: "table_lookup io key i (e, tr) = (r1, e1, tr1)" by (metis prod_cases3)
  have ok: "table_ok e T i" using Cons.prems(1) by simp
  note S = table_lookup_step [OF ok 1]
  have S2: "reads_only (set (i # rest)) e e1" using S(2) by (rule reads_only_mono) simp
  show ?case
  proof (cases r1)
    case (Inl err)
    then show ?thesis using Cons.prems(2) S(1) S2 1 by auto
  next
    case (Inr hit)
    then have hit: "hit = map_option hit_of (table_map T i key)" using S(1) by simp
    show ?thesis
    proof (cases "table_map T i key")
      case None
      have "\<forall>j \<in> set rest. table_ok e1 T j" using Cons.prems(1) S(2) by (simp add: reads_only_def)
      moreover have "get_tables io key rest (e1, tr1) = (res, e', tr')"
        using Cons.prems(2) Inr hit None 1 by simp
      ultimately have "(res = Inr (visible (first_hit (map (table_map T) rest) key)) \<or>
          (\<exists>i \<in> set rest. \<not> eo_open io i) \<and> res = Inl (Thrown IOFailure)) \<and> reads_only (set rest) e1 e'"
        by (rule Cons.IH)
      then show ?thesis
        using reads_only_trans [OF S2] reads_only_mono [of "set rest" e1 e' "set (i # rest)"] None by auto
    next
      case (Some x)
      then show ?thesis
        using Cons.prems(2) Inr hit S2 1 by (auto simp: visible_def hit_of_def)
    qed
  qed
qed

lemma get_immutables_hit:
  "fst (get_immutables mem key as tr) = first_hit (map (\<lambda>a. memtable_find (mem a)) as) key"
  by (induction as arbitrary: tr) (auto simp: Let_def split: option.splits)

text \<open>Reading through a version.\<close>

lemma get_version_step:
  assumes ok: "\<forall>i \<in> set (ve_tables v). table_ok e T i" and run: "get_version io v key e = (res, e', tr)"
  shows "(res = Inr (view e T v key) \<or> (\<exists>i \<in> set (ve_tables v). \<not> eo_open io i) \<and> res = Inl (Thrown IOFailure)) \<and>
    reads_only (set (ve_tables v)) e e'"
proof -
  define e1 where "e1 = e\<lparr>en_read_stats := (en_read_stats e)\<lparr>rs_reads_total := rs_reads_total (en_read_stats e) + 1\<rparr>\<rparr>"
  have R1: "reads_only (set (ve_tables v)) e e1" unfolding e1_def by (rule reads_only_stats)
  have mem: "en_mem e1 = en_mem e" by (simp add: e1_def)
  have val: "visible (Some x) = value_of x" for x by (simp add: visible_def value_of_def)
  show ?thesis
  proof (cases "memtable_find (en_mem e (ve_active v)) key")
    case (Some x)
    then show ?thesis
      using run reads_only_trans [OF R1 reads_only_stats]
      by (auto simp: get_version_def Let_def view_def layers_def val mem simp flip: e1_def)
  next
    case None
    obtain imm tr1 where 1: "get_immutables (en_mem e) key (ve_immutables v) no_trace = (imm, tr1)" by fastforce
    have imm: "imm = first_hit (map (\<lambda>a. memtable_find (en_mem e a)) (ve_immutables v)) key"
      using get_immutables_hit [of "en_mem e" key "ve_immutables v" no_trace] 1 by simp
    show ?thesis
    proof (cases imm)
      case (Some x)
      then show ?thesis
        using run reads_only_trans [OF R1 reads_only_stats] None imm 1
        by (auto simp: get_version_def Let_def view_def layers_def first_hit_append val mem simp flip: e1_def)
    next
      case absent: None
      have run': "get_tables io key (ve_tables v) (e1, tr1) = (res, e', tr)"
        using run None absent 1 by (simp add: get_version_def Let_def mem flip: e1_def)
      have ok1: "\<forall>i \<in> set (ve_tables v). table_ok e1 T i" using ok R1 by (simp add: reads_only_def)
      have "view e T v key = visible (first_hit (map (table_map T) (ve_tables v)) key)"
        using None absent imm by (simp add: view_def layers_def first_hit_append)
      then show ?thesis
        using get_tables_step [OF ok1 run'] reads_only_trans [OF R1] by auto
    qed
  qed
qed

end
