(* ===== verification/Engine_Inv.thy ===== *)
theory Engine_Inv
  imports Engine_View
begin

text \<open>
  The invariant of the engine in two parts.  \<open>base_inv\<close> is what reads, writes and flushes need: the
  published version is the current one, memtables are well formed, every table's file and reader
  belong to it.  \<open>order_inv\<close> is what compaction needs: sequence numbers descend from layer to layer.
  It does not survive a restart that replays records which a table already has.
\<close>

section \<open>Definitions\<close>

definition memtables :: "engine \<Rightarrow> nat list" where
  "memtables e = en_active e # en_immutables e"

definition mem_inv :: "engine \<Rightarrow> bool" where
  "mem_inv e \<longleftrightarrow> distinct (memtables e) \<and> (\<forall>a \<in> set (memtables e). memtable_ok (en_mem e a) \<and> a < en_next_mem e)"

text \<open>The tables that are live or that a read still holds.\<close>

definition live_ids :: "engine \<Rightarrow> u64 set" where
  "live_ids e = set (en_readers e) \<union> (\<Union>v \<in> set (en_held e). set (ve_tables v))"

text \<open>The manifest's tables, their readers and files.  An id that was not given out yet has left
  nothing in the cache, and is small enough to be printed whole in a file name.\<close>

definition tab_inv :: "engine \<Rightarrow> (u64 \<Rightarrow> written) \<Rightarrow> bool" where
  "tab_inv e T \<longleftrightarrow>
     en_readers e = map tm_id (mf_tables (en_manifest e)) \<and> ids_ok (en_manifest e) \<and>
     unat (mf_next_sst_id (en_manifest e)) \<le> 10 ^ 11 \<and>
     (\<forall>t \<in> set (mf_tables (en_manifest e)). rd_meta (en_reader e (tm_id t)) = t) \<and>
     (\<forall>i \<in> live_ids e. table_ok e T i \<and> i < mf_next_sst_id (en_manifest e)) \<and>
     keys_ascending (en_sst e) \<and>
     (\<forall>j u. mf_next_sst_id (en_manifest e) \<le> j \<longrightarrow> cache_ok j u (en_cache e))"

text \<open>Versions that reads hold: their memtables exist, the active one is not among the immutable
  ones, and while the engine has not rotated they see what the engine sees.\<close>

definition held_inv :: "engine \<Rightarrow> (u64 \<Rightarrow> written) \<Rightarrow> bool" where
  "held_inv e T \<longleftrightarrow> (\<forall>v \<in> set (en_held e). ve_active v < en_next_mem e \<and>
     (\<forall>a \<in> set (ve_immutables v). a < en_next_mem e \<and> a \<noteq> en_active e) \<and>
     (ve_active v = en_active e \<longrightarrow> view e T v = contents e T))"

definition base_inv :: "engine \<Rightarrow> (u64 \<Rightarrow> written) \<Rightarrow> bool" where
  "base_inv e T \<longleftrightarrow> en_version e = Some (current e) \<and> en_wal e \<noteq> None \<and> mem_inv e \<and> tab_inv e T \<and> held_inv e T"

lemma base_invD:
  assumes "base_inv e T"
  shows "en_version e = Some (current e)" "en_wal e \<noteq> None" "mem_inv e" "tab_inv e T" "held_inv e T"
  using assms by (simp_all only: base_inv_def) blast+

lemma tab_invD:
  assumes "tab_inv e T"
  shows "en_readers e = map tm_id (mf_tables (en_manifest e))" "ids_ok (en_manifest e)"
    "unat (mf_next_sst_id (en_manifest e)) \<le> 10 ^ 11" "keys_ascending (en_sst e)"
    "\<And>t. t \<in> set (mf_tables (en_manifest e)) \<Longrightarrow> rd_meta (en_reader e (tm_id t)) = t"
    "\<And>i. i \<in> live_ids e \<Longrightarrow> table_ok e T i"
    "\<And>i. i \<in> live_ids e \<Longrightarrow> i < mf_next_sst_id (en_manifest e)"
    "\<And>j u. mf_next_sst_id (en_manifest e) \<le> j \<Longrightarrow> cache_ok j u (en_cache e)"
    "\<And>t. t \<in> set (mf_tables (en_manifest e)) \<Longrightarrow> tm_id t \<in> live_ids e"
  using assms unfolding tab_inv_def live_ids_def by (blast, blast, blast, blast, blast, blast, blast, blast, simp)

lemma live_idsI: "i \<in> set (en_readers e) \<Longrightarrow> i \<in> live_ids e" "v \<in> set (en_held e) \<Longrightarrow> i \<in> set (ve_tables v) \<Longrightarrow> i \<in> live_ids e"
  by (auto simp: live_ids_def)

section \<open>What the invariant depends on\<close>

lemma current_publish [simp]: "en_version (publish_version e) = Some (current (publish_version e))"
  by (simp add: publish_version_def current_def Let_def)

lemma publish_keeps [simp]:
  "en_mem (publish_version e) = en_mem e" "en_active (publish_version e) = en_active e"
  "en_immutables (publish_version e) = en_immutables e" "en_readers (publish_version e) = en_readers e"
  "en_reader (publish_version e) = en_reader e" "en_manifest (publish_version e) = en_manifest e"
  "en_sst (publish_version e) = en_sst e" "en_cache (publish_version e) = en_cache e"
  "en_wal (publish_version e) = en_wal e" "en_held (publish_version e) = en_held e"
  "en_next_mem (publish_version e) = en_next_mem e" "en_config (publish_version e) = en_config e"
  "en_closed (publish_version e) = en_closed e" "en_shutting_down (publish_version e) = en_shutting_down e"
  "en_manifest_file (publish_version e) = en_manifest_file e" "en_jobs_file (publish_version e) = en_jobs_file e"
  "en_paused (publish_version e) = en_paused e"
  by (simp_all add: publish_version_def Let_def)

lemma contents_layers:
  "contents e T k = visible (first_hit (map (\<lambda>a. memtable_find (en_mem e a)) (memtables e) @
     map (table_map T) (en_readers e)) k)"
  by (simp add: contents_def view_def layers_def current_def memtables_def)

definition same_tables :: "engine \<Rightarrow> engine \<Rightarrow> bool" where
  "same_tables e e' \<longleftrightarrow> en_readers e' = en_readers e \<and> en_manifest e' = en_manifest e \<and>
     en_reader e' = en_reader e \<and> en_sst e' = en_sst e \<and> en_cache e' = en_cache e \<and> en_held e' = en_held e"

definition same_mem :: "engine \<Rightarrow> engine \<Rightarrow> bool" where
  "same_mem e e' \<longleftrightarrow> en_mem e' = en_mem e \<and> en_active e' = en_active e \<and> en_immutables e' = en_immutables e \<and>
     en_next_mem e' = en_next_mem e"

lemma same_memD:
  assumes "same_mem e e'"
  shows "en_mem e' = en_mem e" "en_active e' = en_active e" "en_immutables e' = en_immutables e"
    "en_next_mem e' = en_next_mem e" "memtables e' = memtables e"
  using assms by (simp_all add: same_mem_def memtables_def)

lemma same_tablesD:
  assumes "same_tables e e'"
  shows "en_readers e' = en_readers e" "en_manifest e' = en_manifest e" "en_reader e' = en_reader e"
    "en_sst e' = en_sst e" "en_cache e' = en_cache e" "en_held e' = en_held e"
  using assms by (simp_all add: same_tables_def)

lemma mem_inv_same: "same_mem e e' \<Longrightarrow> mem_inv e' = mem_inv e"
  by (simp add: mem_inv_def same_memD)

lemma table_ok_cong:
  assumes "en_sst e' = en_sst e" "en_reader e' = en_reader e" "en_cache e' = en_cache e"
  shows "table_ok e' = table_ok e"
  unfolding table_ok_def [abs_def] table_file_of_def assms ..

lemma tab_inv_same:
  assumes "same_tables e e'"
  shows "tab_inv e' T = tab_inv e T"
proof -
  note S = same_tablesD [OF assms]
  show ?thesis unfolding tab_inv_def live_ids_def table_ok_cong [OF S(4,3,5)] S ..
qed

lemma view_cong: "en_mem e' = en_mem e \<Longrightarrow> view e' = view e"
  by (intro ext) (simp only: view_def layers_def)

lemma contents_same: "same_mem e e' \<Longrightarrow> en_readers e' = en_readers e \<Longrightarrow> contents e' = contents e"
  by (intro ext) (simp add: contents_layers same_memD)

lemma held_inv_same:
  assumes M: "same_mem e e'" and "en_readers e' = en_readers e" "en_held e' = en_held e"
  shows "held_inv e' T = held_inv e T"
  unfolding held_inv_def contents_same [OF assms(1,2)] view_cong [OF same_memD(1) [OF M]] same_memD [OF M] assms(3) ..

lemma base_inv_same:
  assumes "base_inv e T" "same_mem e e'" "same_tables e e'" "en_wal e' \<noteq> None" "en_version e' = Some (current e')"
  shows "base_inv e' T"
  unfolding base_inv_def mem_inv_same [OF assms(2)] tab_inv_same [OF assms(3)]
    held_inv_same [OF assms(2) same_tablesD(1,6) [OF assms(3)]]
  using assms(4,5) base_invD [OF assms(1)] by blast

lemma current_same:
  assumes "en_version e = Some (current e)" "en_version e' = en_version e" "en_version_id e' = en_version_id e"
    and M: "same_mem e e'" and S: "same_tables e e'"
  shows "en_version e' = Some (current e')"
  unfolding current_def assms(2,3) same_memD [OF M] same_tablesD [OF S] using assms(1) by (simp only: current_def)

section \<open>Reading\<close>

lemma reads_only_same: "reads_only ids e e' \<Longrightarrow> same_mem e e'"
  by (simp add: same_mem_def reads_only_keeps)

lemma reads_only_inv:
  assumes inv: "base_inv e T" and ro: "reads_only ids e e'" and ids: "ids \<subseteq> live_ids e"
  shows "base_inv e' T" and "contents e' T = contents e T" and "view e' T u = view e T u"
proof -
  note K = reads_only_keeps [OF ro] and M = reads_only_same [OF ro]
  note B = base_invD [OF inv]
  note D = tab_invD [OF B(4)]
  show "contents e' T = contents e T" by (simp only: contents_same [OF M K(4)])
  show "view e' T u = view e T u" by (simp only: view_cong [OF K(1)])
  have "j \<notin> ids" if "mf_next_sst_id (en_manifest e) \<le> j" for j
    using D(7) ids that by (meson leD subsetD)
  then have "cache_ok j u (en_cache e')" if "mf_next_sst_id (en_manifest e) \<le> j" for j u
    using ro D(8) that unfolding reads_only_def by blast
  moreover have "table_ok e' T i" if "i \<in> live_ids e" for i
    using D(6) [OF that] ro by (simp only: reads_only_def)
  moreover have "live_ids e' = live_ids e" by (simp only: live_ids_def K)
  moreover have "rd_meta (en_reader e' (tm_id t)) = t" if "t \<in> set (mf_tables (en_manifest e))" for t
    using D(5) [OF that] K(14) by simp
  ultimately have "tab_inv e' T"
    unfolding tab_inv_def K(4,5,7) using D(1,2,3,4,7) by blast
  moreover have "en_version e' = Some (current e')"
    unfolding current_def K using B(1) by (simp only: current_def)
  ultimately show "base_inv e' T"
    unfolding base_inv_def K(8) mem_inv_same [OF M] held_inv_same [OF M K(4,10)] using B by blast
qed

text \<open>A read through the published version or a held one.\<close>

lemma get_version_inv:
  assumes inv: "base_inv e T" and v: "v = current e \<or> v \<in> set (en_held e)"
    and run: "get_version io v key e = (res, e', tr)"
  shows "base_inv e' T" and "contents e' T = contents e T" and "view e' T u = view e T u"
    and "res = Inr (view e T v key) \<or> (\<exists>i \<in> set (ve_tables v). \<not> eo_open io i) \<and> res = Inl (Thrown IOFailure)"
proof -
  have ids: "set (ve_tables v) \<subseteq> live_ids e" using v by (auto simp: live_ids_def current_def)
  have "\<forall>i \<in> set (ve_tables v). table_ok e T i" using tab_invD(6) [OF base_invD(4) [OF inv]] ids by blast
  from get_version_step [OF this run]
  have S: "res = Inr (view e T v key) \<or> (\<exists>i \<in> set (ve_tables v). \<not> eo_open io i) \<and> res = Inl (Thrown IOFailure)"
    "reads_only (set (ve_tables v)) e e'" by blast+
  show "base_inv e' T" "contents e' T = contents e T" "view e' T u = view e T u"
    using reads_only_inv [OF inv S(2) ids] by blast+
  show "res = Inr (view e T v key) \<or> (\<exists>i \<in> set (ve_tables v). \<not> eo_open io i) \<and> res = Inl (Thrown IOFailure)"
    by (rule S(1))
qed

end
