(* ===== verification/Engine_Write.thy ===== *)
theory Engine_Write
  imports Engine_Inv
begin

text \<open>
  Writes: an acknowledged \<open>put\<close> or \<open>remove\<close> changes what the store means at its key and nowhere else;
  rotation changes nothing.  Versions that reads hold see the write while their active memtable is
  the engine's, and never change afterwards.
\<close>

definition written_value :: "bool \<Rightarrow> bytes \<Rightarrow> bytes option" where
  "written_value tombstone value = (if tombstone then None else Some value)"

section \<open>The memtable\<close>

definition mem_write :: "bytes \<Rightarrow> bytes \<Rightarrow> u64 \<Rightarrow> bool \<Rightarrow> engine \<Rightarrow> engine" where
  "mem_write key value seqno tombstone e = e\<lparr>en_mem := (en_mem e)(en_active e :=
     memtable_apply key value seqno tombstone (en_mem e (en_active e)))\<rparr>"

lemma mem_write_keeps [simp]:
  "en_active (mem_write k v s d e) = en_active e" "en_immutables (mem_write k v s d e) = en_immutables e"
  "en_next_mem (mem_write k v s d e) = en_next_mem e" "en_readers (mem_write k v s d e) = en_readers e"
  "en_held (mem_write k v s d e) = en_held e" "en_manifest (mem_write k v s d e) = en_manifest e"
  "en_wal (mem_write k v s d e) = en_wal e" "en_config (mem_write k v s d e) = en_config e"
  "en_version (mem_write k v s d e) = en_version e" "memtables (mem_write k v s d e) = memtables e"
  "current (mem_write k v s d e) = current e" "same_tables e (mem_write k v s d e)"
  by (simp_all add: mem_write_def memtables_def current_def same_tables_def)

lemma mem_write_find:
  "memtable_find (en_mem (mem_write k v s d e) a) =
     (if a = en_active e then (memtable_find (en_mem e a))(k \<mapsto> \<lparr>me_value = v, me_seqno = s, me_tombstone = d\<rparr>)
      else memtable_find (en_mem e a))"
  by (auto simp: mem_write_def memtable_find_apply fun_eq_iff)

lemma mem_write_layers:
  "a \<notin> set as \<Longrightarrow> a = en_active e \<Longrightarrow>
     map (\<lambda>a. memtable_find (en_mem (mem_write k v s d e) a)) as = map (\<lambda>a. memtable_find (en_mem e a)) as"
  by (auto simp: mem_write_find)

lemma mem_write_view:
  assumes "en_active e \<notin> set (ve_immutables u)"
  shows "view (mem_write k v s d e) T u =
    (if ve_active u = en_active e then (view e T u)(k := written_value d v) else view e T u)"
proof (rule ext)
  fix key
  let ?ls = "map (\<lambda>a. memtable_find (en_mem e a)) (ve_immutables u) @ map (table_map T) (ve_tables u)"
  have "layers (mem_write k v s d e) T u = memtable_find (en_mem (mem_write k v s d e) (ve_active u)) # ?ls"
    by (simp add: layers_def mem_write_layers [OF assms refl])
  moreover have "layers e T u = memtable_find (en_mem e (ve_active u)) # ?ls" by (simp add: layers_def)
  ultimately show "view (mem_write k v s d e) T u key =
    (if ve_active u = en_active e then (view e T u)(k := written_value d v) else view e T u) key"
    by (simp add: view_def mem_write_find visible_def written_value_def)
qed

lemma mem_write_contents:
  assumes "mem_inv e"
  shows "contents (mem_write k v s d e) T = (contents e T)(k := written_value d v)"
proof -
  have "en_active e \<notin> set (ve_immutables (current e))"
    using assms by (simp add: mem_inv_def memtables_def current_def)
  moreover have "ve_active (current e) = en_active e" by (simp add: current_def)
  ultimately show ?thesis by (simp add: contents_def mem_write_view)
qed

lemma held_not_active: "held_inv e T \<Longrightarrow> u \<in> set (en_held e) \<Longrightarrow> en_active e \<notin> set (ve_immutables u)"
  by (auto simp: held_inv_def)

lemma mem_write_mem_inv: "mem_inv e \<Longrightarrow> mem_inv (mem_write k v s d e)"
  by (auto simp: mem_inv_def) (auto simp: mem_write_def memtable_ok_apply)

lemma mem_write_inv:
  assumes inv: "base_inv e T"
  shows "base_inv (mem_write k v s d e) T"
    and "u \<in> set (en_held e) \<Longrightarrow> view (mem_write k v s d e) T u \<in> {view e T u, contents (mem_write k v s d e) T}"
proof -
  note B = base_invD [OF inv]
  note V = mem_write_view [OF held_not_active [OF B(5)]]
  note C = mem_write_contents [OF B(3)]
  have M: "mem_inv (mem_write k v s d e)" using B(3) by (rule mem_write_mem_inv)
  have H: "held_inv (mem_write k v s d e) T"
    using B(5) by (simp add: held_inv_def V C)
  show "base_inv (mem_write k v s d e) T"
    unfolding base_inv_def tab_inv_same [OF mem_write_keeps(12)] using B M H by simp
  show "u \<in> set (en_held e) \<Longrightarrow> view (mem_write k v s d e) T u \<in> {view e T u, contents (mem_write k v s d e) T}"
    using B(5) by (simp add: held_inv_def V C)
qed

section \<open>Rotation\<close>

lemma rotate_keeps [simp]:
  "en_readers (rotate b e) = en_readers e" "en_held (rotate b e) = en_held e"
  "en_manifest (rotate b e) = en_manifest e" "en_wal (rotate b e) = en_wal e" "en_config (rotate b e) = en_config e"
  "en_next_mem (rotate b e) = en_next_mem e + 1" "en_active (rotate b e) = en_next_mem e"
  "memtables (rotate b e) = en_next_mem e # memtables e" "same_tables e (rotate b e)"
  "en_mem (rotate b e) = (en_mem e)(en_next_mem e := memtable_new (memtable_size_overhead_bytes_per_entry (en_config e)))"
  by (simp_all add: rotate_def Let_def memtables_def same_tables_def)

lemma view_new_memtable:
  assumes "ve_active u < en_next_mem e" "\<forall>a \<in> set (ve_immutables u). a < en_next_mem e"
    and "en_mem e' = (en_mem e)(en_next_mem e := mt)"
  shows "view e' T u = view e T u"
proof -
  have "map (\<lambda>a. memtable_find (en_mem e' a)) (ve_active u # ve_immutables u) =
      map (\<lambda>a. memtable_find (en_mem e a)) (ve_active u # ve_immutables u)"
    using assms by (intro map_cong) auto
  then show ?thesis by (intro ext) (simp only: view_def layers_def)
qed

lemma rotate_contents:
  assumes "mem_inv e"
  shows "contents (rotate b e) T = contents e T"
proof -
  have "map (\<lambda>a. memtable_find (en_mem (rotate b e) a)) (memtables e) = map (\<lambda>a. memtable_find (en_mem e a)) (memtables e)"
    using assms by (intro map_cong) (auto simp: mem_inv_def)
  moreover have "memtable_find (en_mem (rotate b e) (en_next_mem e)) = (\<lambda>_. None)" by (simp add: fun_eq_iff)
  ultimately have "map (\<lambda>a. memtable_find (en_mem (rotate b e) a)) (memtables (rotate b e)) =
      (\<lambda>_. None) # map (\<lambda>a. memtable_find (en_mem e a)) (memtables e)"
    by (simp only: rotate_keeps(8) list.map)
  then show ?thesis
    by (intro ext) (simp only: contents_layers rotate_keeps(1) append_Cons first_hit_empty_head)
qed

lemma rotate_view: "held_inv e T \<Longrightarrow> u \<in> set (en_held e) \<Longrightarrow> view (rotate b e) T u = view e T u"
  by (rule view_new_memtable) (auto simp: held_inv_def)

lemma rotate_inv:
  assumes inv: "base_inv e T"
  shows "base_inv (rotate False e) T"
proof -
  note B = base_invD [OF inv]
  have "mem_inv (rotate False e)" using B(3) by (auto simp: mem_inv_def)
  moreover have "held_inv (rotate False e) T"
    using B(5) rotate_view [OF B(5)] by (force simp: held_inv_def)
  moreover have "en_version (rotate False e) = Some (current (rotate False e))"
    by (simp add: rotate_def Let_def)
  ultimately show ?thesis
    unfolding base_inv_def tab_inv_same [OF rotate_keeps(9)] using B by simp
qed

section \<open>Bookkeeping\<close>

text \<open>Counters, flags and the log.\<close>

definition bookkeeping :: "engine \<Rightarrow> engine \<Rightarrow> bool" where
  "bookkeeping e e' \<longleftrightarrow> same_mem e e' \<and> same_tables e e' \<and> en_version e' = en_version e \<and>
     en_version_id e' = en_version_id e \<and> en_config e' = en_config e \<and> (en_wal e \<noteq> None \<longrightarrow> en_wal e' \<noteq> None)"

lemma bookkeepingI [simp]:
  "bookkeeping e (e\<lparr>en_wal := Some w\<rparr>)" "bookkeeping e (e\<lparr>en_bg := b\<rparr>)" "bookkeeping e e"
  "bookkeeping e (e\<lparr>en_wal := Some w, en_bg := b\<rparr>)"
  by (simp_all add: bookkeeping_def same_mem_def same_tables_def)

lemma bookkeeping_inv:
  assumes "bookkeeping e e'" and inv: "base_inv e T"
  shows "base_inv e' T" and "contents e' T = contents e T" and "view e' T u = view e T u"
    and "en_held e' = en_held e"
proof -
  have K: "same_mem e e'" "same_tables e e'" "en_version e' = en_version e"
    "en_version_id e' = en_version_id e" "en_wal e' \<noteq> None"
    using assms base_invD(2) [OF inv] by (auto simp: bookkeeping_def)
  show "base_inv e' T"
    using inv K(1,2,5) current_same [OF base_invD(1) [OF inv] K(3,4,1,2)] by (rule base_inv_same)
  show "contents e' T = contents e T"
    by (simp only: contents_same [OF K(1) same_tablesD(1) [OF K(2)]])
  show "view e' T u = view e T u" by (simp only: view_cong [OF same_memD(1) [OF K(1)]])
  show "en_held e' = en_held e" using K(2) by (rule same_tablesD)
qed

section \<open>The write\<close>

lemma maybe_rotate_inv:
  assumes inv: "base_inv e T" and run: "maybe_rotate io False e = (r, e')"
  shows "base_inv e' T" and "contents e' T = contents e T" and "en_held e' = en_held e"
    and "u \<in> set (en_held e) \<Longrightarrow> view e' T u = view e T u"
proof -
  obtain w where w: "en_wal e = Some w" using base_invD(2) [OF inv] by blast
  define step where "step e' \<longleftrightarrow> base_inv e' T \<and> contents e' T = contents e T \<and> en_held e' = en_held e \<and>
    (\<forall>u \<in> set (en_held e). view e' T u = view e T u)" for e'
  have bk: "step e1" if "bookkeeping e e1" for e1
    using bookkeeping_inv [OF that inv] by (simp add: step_def)
  have rot: "step (rotate False e1)" if "bookkeeping e e1" for e1
  proof -
    note K = bookkeeping_inv [OF that inv]
    note B = base_invD [OF K(1)]
    show ?thesis
      using rotate_inv [OF K(1)] rotate_contents [OF B(3), of False T] rotate_view [OF B(5), of _ False] K(2,3,4)
      by (simp add: step_def)
  qed
  have "e' = e \<or> (\<exists>w1. e' = e\<lparr>en_wal := Some w1\<rparr> \<or> e' = rotate False (e\<lparr>en_wal := Some w1\<rparr>))"
    using run w by (auto simp: maybe_rotate_def split: if_splits prod.splits sum.splits)
  then have "step e'"
    using bk [OF bookkeepingI(1)] bk [OF bookkeepingI(3)] rot [OF bookkeepingI(1)] by blast
  then show "base_inv e' T" "contents e' T = contents e T" "en_held e' = en_held e"
    "u \<in> set (en_held e) \<Longrightarrow> view e' T u = view e T u" by (simp_all add: step_def)
qed

text \<open>What a write may do: it takes effect, or it fails and nothing changed.  It may fail having taken
  effect, when the rotation after it fails.\<close>

definition write_effect :: "bool \<Rightarrow> bytes \<Rightarrow> bytes \<Rightarrow> (u64 \<Rightarrow> written) \<Rightarrow> engine \<Rightarrow> bool \<Rightarrow> engine \<Rightarrow> bool" where
  "write_effect tombstone key value T e acked e' \<longleftrightarrow> base_inv e' T \<and> en_held e' = en_held e \<and>
     (contents e' T = (contents e T)(key := written_value tombstone value) \<and>
        (\<forall>u \<in> set (en_held e). view e' T u \<in> {view e T u, contents e' T}) \<or>
      \<not> acked \<and> contents e' T = contents e T \<and> (\<forall>u \<in> set (en_held e). view e' T u = view e T u))"

text \<open>The append fails, or the record goes into the memtable, which may be rotated.\<close>

lemma do_write_cases:
  assumes run: "do_write io d k v e = (r, e')" and w: "en_wal e = Some w"
  obtains (not_logged) err w1 where "(if d then append_del (eo_wal io) k w else append_put (eo_wal io) k v w) = (Inl err, w1)"
      "r = Inl err" "e' = e\<lparr>en_wal := Some w1\<rparr>"
  | (logged) s w1 e0 q where "(if d then append_del (eo_wal io) k w else append_put (eo_wal io) k v w) = (Inr s, w1)"
      "bookkeeping e e0" "en_wal e0 = Some w1" "maybe_rotate io False (mem_write k v s d e0) = (q, e')"
      "case q of Inl err \<Rightarrow> r = Inl err | Inr _ \<Rightarrow> r = Inr s"
proof -
  obtain a w1 where app: "(if d then append_del (eo_wal io) k w else append_put (eo_wal io) k v w) = (a, w1)"
    by fastforce
  show ?thesis
  proof (cases a)
    case (Inl err)
    have "r = Inl err" "e' = e\<lparr>en_wal := Some w1\<rparr>" using run w app Inl by (auto simp: do_write_def)
    then show ?thesis using not_logged app Inl by blast
  next
    case (Inr s)
    define e0 where "e0 = e\<lparr>en_wal := Some w1, en_bg := (en_bg e)\<lparr>bg_writes_total := bg_writes_total (en_bg e) + 1\<rparr>\<rparr>"
    obtain q e2 where q: "maybe_rotate io False (mem_write k v s d e0) = (q, e2)" by fastforce
    then have "e2 = e' \<and> (case q of Inl err \<Rightarrow> r = Inl err | Inr _ \<Rightarrow> r = Inr s)"
      using run w app Inr by (cases q) (auto simp: do_write_def apply_mutation_def mem_write_def e0_def)
    moreover have "bookkeeping e e0" "en_wal e0 = Some w1" by (simp_all add: e0_def)
    ultimately show ?thesis using logged app Inr q by blast
  qed
qed

lemma do_write_inv:
  assumes inv: "base_inv e T" and run: "do_write io tombstone key value e = (r, e')"
  shows "write_effect tombstone key value T e (\<exists>s. r = Inr s) e'"
proof -
  obtain w where w: "en_wal e = Some w" using base_invD(2) [OF inv] by blast
  show ?thesis
    using run w
  proof (cases rule: do_write_cases)
    case (not_logged err w1)
    then show ?thesis using bookkeeping_inv [OF bookkeepingI(1) inv] by (simp add: write_effect_def)
  next
    case (logged s w1 e0 q)
    note K = bookkeeping_inv [OF logged(2) inv]
    note M = mem_write_inv [OF K(1), where k = key and v = "value" and s = s and d = tombstone]
    have C: "contents (mem_write key value s tombstone e0) T = (contents e T)(key := written_value tombstone value)"
      by (simp only: mem_write_contents [OF base_invD(3) [OF K(1)]] K(2))
    note R = maybe_rotate_inv [OF M(1) logged(4)]
    have "en_held (mem_write key value s tombstone e0) = en_held e" by (simp add: K(4))
    then show ?thesis
      using R M(2) C K(3,4) by (auto simp: write_effect_def)
  qed
qed

lemma ensure_write_capacity_bookkeeping: "bookkeeping e (snd (ensure_write_capacity e))"
  by (simp add: ensure_write_capacity_def Let_def)

lemma write_effect_bookkeeping:
  assumes "bookkeeping e e1" "base_inv e T" "write_effect d k v T e1 a e'"
  shows "write_effect d k v T e a e'"
  using assms(3) bookkeeping_inv [OF assms(1,2)] by (simp add: write_effect_def)

lemma write_effect_none: "base_inv e T \<Longrightarrow> bookkeeping e e' \<Longrightarrow> write_effect d k v T e False e'"
  using bookkeeping_inv [of e e' T] by (simp add: write_effect_def)

lemma guarded_write_inv:
  assumes inv: "base_inv e T" and run: "guarded_write io tombstone key value e = (r, e')"
  shows "write_effect tombstone key value T e (\<exists>s. r = Some (Inr s)) e'"
proof (cases "ensure_open e")
  case (Inl err)
  then show ?thesis using run write_effect_none [OF inv bookkeepingI(3)] by (auto simp: guarded_write_def)
next
  case (Inr u)
  show ?thesis
  proof (cases "key = []")
    case True
    then show ?thesis using run Inr write_effect_none [OF inv bookkeepingI(3)] by (auto simp: guarded_write_def)
  next
    case False
    obtain c e1 where c: "ensure_write_capacity e = (c, e1)" by fastforce
    have bk: "bookkeeping e e1" using ensure_write_capacity_bookkeeping [of e] c by simp
    obtain q e2 where q: "do_write io tombstone key value e1 = (q, e2)" by fastforce
    have "write_effect tombstone key value T e (\<exists>s. q = Inr s) e2"
      using bk inv do_write_inv [OF bookkeeping_inv(1) [OF bk inv] q] by (rule write_effect_bookkeeping)
    then show ?thesis
      using run Inr False c q write_effect_none [OF inv bk]
      by (auto simp: guarded_write_def split: option.splits sum.splits)
  qed
qed

end
