(* ===== verification/Engine_Flush.thy ===== *)
theory Engine_Flush
  imports Engine_Write
begin

text \<open>
  A flush moves the oldest frozen memtable to the front of the tables, which is where it stood among
  the layers: it changes no read, neither through the published version nor through a held one.
\<close>

section \<open>A new file\<close>

lemma table_names_differ:
  assumes "unat i < 10 ^ 11" "unat j < 10 ^ 11"
  shows "tmp_name (sst_file_name i) \<noteq> sst_file_name j" "i \<noteq> j \<Longrightarrow> sst_file_name i \<noteq> sst_file_name j"
  using assms by (auto simp: tmp_name_def sst_name_whole pad6_inject)

text \<open>What \<open>write_sstable\<close> left, as a table.\<close>

lemma write_sstable_written:
  assumes args: "table_args_ok shape mem cfg" and asc: "keys_ascending dir"
    and run: "write_sstable io shape i mem cfg dir = (Inr r, dir')"
  obtains t where "written_ok t" "wt_entries t = sorted_entries mem" "map_find dir' (sst_file_name i) = Some (wt_file t)"
    "\<forall>kv \<in> set (wt_entries t). br_min_key r \<le> fst kv \<and> fst kv \<le> br_max_key r"
    "br_id r = i" "br_file_name r = sst_file_name i"
    "br_min_seqno r = entries_min_seqno (sorted_entries mem)" "br_max_seqno r = entries_max_seqno (sorted_entries mem)"
proof -
  have E: "map_find dir' (sst_file_name i) = Some (fst (encode_sstable shape i mem cfg))"
    "r = snd (encode_sstable shape i mem cfg)"
    using write_sstable_effect(2) [OF asc run] by simp_all
  have enc: "encode_sstable shape i mem cfg = (fst (encode_sstable shape i mem cfg), r)" by (simp add: E(2))
  obtain cs bl n res where "encode_sstable shape i mem cfg = (table_file (unat (restart_interval cfg)) cs bl n, res)"
    "br_id res = i" "br_file_name res = sst_file_name i"
    "br_min_seqno res = entries_min_seqno (sorted_entries mem)" "br_max_seqno res = entries_max_seqno (sorted_entries mem)"
    by (rule encode_sstable_table [OF args, of i]) blast
  then have R: "br_id r = i" "br_file_name r = sst_file_name i"
    "br_min_seqno r = entries_min_seqno (sorted_entries mem)" "br_max_seqno r = entries_max_seqno (sorted_entries mem)"
    using E(2) by simp_all
  obtain t where t: "written_ok t" "wt_file t = fst (encode_sstable shape i mem cfg)" "wt_entries t = sorted_entries mem"
    "\<forall>kv \<in> set (wt_entries t). br_min_key r \<le> fst kv \<and> fst kv \<le> br_max_key r"
    by (rule encode_sstable_written [OF args enc])
  show ?thesis
    using t(1,3) E(1) [folded t(2)] t(4) R by (rule that)
qed

text \<open>Changing only files that no table has.\<close>

definition new_file :: "u64 \<Rightarrow> engine \<Rightarrow> engine \<Rightarrow> bool" where
  "new_file i e e' \<longleftrightarrow> (\<exists>dir b. e' = e\<lparr>en_sst := dir, en_bg := b\<rparr> \<and> keys_ascending dir \<and>
     (\<forall>name. name \<noteq> sst_file_name i \<longrightarrow> name \<noteq> tmp_name (sst_file_name i) \<longrightarrow> map_find dir name = map_find (en_sst e) name))"

lemma new_file_keeps:
  assumes "new_file i e e'"
  shows "en_mem e' = en_mem e" "en_active e' = en_active e" "en_immutables e' = en_immutables e"
    "en_next_mem e' = en_next_mem e" "en_readers e' = en_readers e" "en_reader e' = en_reader e"
    "en_manifest e' = en_manifest e" "en_cache e' = en_cache e" "en_held e' = en_held e" "en_wal e' = en_wal e"
    "en_version e' = en_version e" "en_version_id e' = en_version_id e" "en_config e' = en_config e"
    "en_manifest_file e' = en_manifest_file e" "keys_ascending (en_sst e')" "en_cancel_compaction e' = en_cancel_compaction e"
  using assms by (auto simp: new_file_def)

lemma new_file_table_ok:
  assumes "new_file i e e'" "unat i < 10 ^ 11" "unat j < 10 ^ 11" "i \<noteq> j" "table_ok e T j"
  shows "table_ok e' T j"
proof -
  have name: "tm_file_name (rd_meta (en_reader e j)) = sst_file_name j" using assms(5) by (simp add: table_ok_def)
  have "map_find (en_sst e') (sst_file_name j) = map_find (en_sst e) (sst_file_name j)"
    using assms(1) table_names_differ [OF assms(2,3)] assms(4) by (auto simp: new_file_def)
  then show ?thesis
    using assms(5) name by (simp add: table_ok_def table_file_of_def new_file_keeps [OF assms(1)])
qed

lemma new_file_inv:
  assumes inv: "base_inv e T" and nf: "new_file (mf_next_sst_id (en_manifest e)) e e'"
    and small: "unat (mf_next_sst_id (en_manifest e)) < 10 ^ 11"
  shows "base_inv e' T" and "contents e' T = contents e T" and "view e' T u = view e T u"
proof -
  note K = new_file_keeps [OF nf] and B = base_invD [OF inv]
  note D = tab_invD [OF B(4)]
  have M: "same_mem e e'" by (simp add: same_mem_def K)
  have "table_ok e' T j" if "j \<in> live_ids e" for j
    using D(7) [OF that] small
    by (intro new_file_table_ok [OF nf small _ _ D(6) [OF that]]) (auto simp: word_less_nat_alt)
  moreover have "live_ids e' = live_ids e" by (simp only: live_ids_def K)
  ultimately have "tab_inv e' T"
    unfolding tab_inv_def K(5,6,7,8) using D(1,2,3,5,7,8) K(15) by blast
  moreover have "en_version e' = Some (current e')"
    unfolding current_def K using B(1) by (simp only: current_def)
  ultimately show "base_inv e' T"
    unfolding base_inv_def K(10) mem_inv_same [OF M] held_inv_same [OF M K(5,9)] using B by blast
  show "contents e' T = contents e T" by (simp only: contents_same [OF M K(5)])
  show "view e' T u = view e T u" by (simp only: view_cong [OF K(1)])
qed

lemma flush_write_new_file:
  assumes "keys_ascending (en_sst e)" "flush_write cx io target i e = (res, e')"
  shows "new_file i e e'"
    and "res = Inr r \<Longrightarrow> write_sstable (eo_sst io) (cx_shape cx) i (en_mem e target) (en_config e) (en_sst e) = (Inr r, en_sst e')"
proof -
  obtain q dir where q: "write_sstable (eo_sst io) (cx_shape cx) i (en_mem e target) (en_config e) (en_sst e) = (q, dir)"
    by fastforce
  note W = write_sstable_effect [OF assms(1) q]
  have "e' = e\<lparr>en_sst := dir, en_bg := en_bg e'\<rparr>"
    using assms(2) q by (cases q) (auto simp: flush_write_def set_flush_running_def)
  then show "new_file i e e'"
    unfolding new_file_def using W(1,3) by blast
  show "res = Inr r \<Longrightarrow> write_sstable (eo_sst io) (cx_shape cx) i (en_mem e target) (en_config e) (en_sst e) = (Inr r, en_sst e')"
    using assms(2) q by (cases q) (auto simp: flush_write_def set_flush_running_def)
qed

section \<open>Publishing a table in front\<close>

lemma flush_publish_front:
  assumes "flush_publish cx io r e = (Inr (), e')" "br_id r = i"
  obtains m tx where "add_table (cx_json cx) (eo_manifest io) (meta_of r (eo_now_text io)) (en_manifest e, en_manifest_file e) = (Inr (), m, tx)"
    "mf_tables m = meta_of r (eo_now_text io) # mf_tables (en_manifest e)"
    "mf_next_sst_id m = max (mf_next_sst_id (en_manifest e)) (i + 1)"
    "e' = publish_version (e\<lparr>en_manifest := m, en_manifest_file := tx, en_readers := i # en_readers e,
       en_reader := (en_reader e)(i := reader_new (meta_of r (eo_now_text io))),
       en_immutables := butlast (en_immutables e)\<rparr>)"
proof -
  have i: "tm_id (meta_of r (eo_now_text io)) = i" using assms(2) by (simp add: meta_of_def)
  obtain q m tx where a: "add_table (cx_json cx) (eo_manifest io) (meta_of r (eo_now_text io)) (en_manifest e, en_manifest_file e) = (q, m, tx)"
    by (metis prod_cases3)
  have q: "q = Inr ()" using assms(1) a by (cases q) (auto simp: flush_publish_def Let_def)
  have m: "mf_tables m = meta_of r (eo_now_text io) # mf_tables (en_manifest e)"
    "mf_next_sst_id m = max (mf_next_sst_id (en_manifest e)) (i + 1)"
    using a i by (auto simp: add_table_def Let_def split: prod.splits)
  show ?thesis
    using that [OF a [unfolded q] m] assms(1) a q i by (auto simp: flush_publish_def Let_def)
qed

lemma table_map_upd: "table_map (T(i := t)) j = (if j = i then map_of (wt_entries t) else table_map T j)"
  by (simp add: table_map_def)

lemma view_new_table:
  assumes "i \<notin> set (ve_tables u)" "en_mem e' = en_mem e"
  shows "view e' (T(i := t)) u = view e T u"
proof -
  have "map (table_map (T(i := t))) (ve_tables u) = map (table_map T) (ve_tables u)"
    using assms(1) by (intro map_cong) (auto simp: table_map_upd)
  then show ?thesis by (intro ext) (simp only: view_def layers_def assms(2))
qed

lemma table_ok_new_id: "j \<noteq> i \<Longrightarrow> table_ok e (T(i := t)) j = table_ok e T j"
  by (simp add: table_ok_def)

lemma table_ok_old_id:
  assumes "j \<noteq> i" "en_sst e' = en_sst e" "en_reader e' j = en_reader e j" "en_cache e' = en_cache e"
  shows "table_ok e' (T(i := t)) j = table_ok e T j"
  unfolding table_ok_new_id [OF assms(1)] by (simp only: table_ok_def table_file_of_def assms)

text \<open>The id after the last one.\<close>

lemma next_id_step:
  assumes "unat (i :: u64) < 10 ^ 11"
  shows "unat (i + 1) = unat i + 1" "max i (i + 1) = i + 1" "i < i + 1" "j < i \<Longrightarrow> j < i + 1"
proof -
  have "(10 :: nat) ^ 11 < 2 ^ 64" by simp
  then have "unat i + 1 < 2 ^ 64" using assms by linarith
  then show u: "unat (i + 1) = unat i + 1" by (simp add: unat_word_ariths)
  then show "i < i + 1" by (simp add: word_less_nat_alt)
  then show "max i (i + 1) = i + 1" "j < i \<Longrightarrow> j < i + 1" by (auto simp: max_def)
qed

lemma flush_publish_inv:
  assumes inv: "base_inv e T" and run: "flush_publish cx io r e = (Inr (), e')"
    and i: "i = mf_next_sst_id (en_manifest e)" "unat i < 10 ^ 11"
    and r: "br_id r = i" "br_file_name r = sst_file_name i"
    and t: "written_ok t" "map_find (en_sst e) (sst_file_name i) = Some (wt_file t)"
      "\<forall>kv \<in> set (wt_entries t). br_min_key r \<le> fst kv \<and> fst kv \<le> br_max_key r"
    and imm: "en_immutables e \<noteq> []" "wt_entries t = sorted_entries (en_mem e (last (en_immutables e)))"
  shows "base_inv e' (T(i := t))" and "contents e' (T(i := t)) = contents e T"
    and "u \<in> set (en_held e) \<Longrightarrow> view e' (T(i := t)) u = view e T u" and "en_held e' = en_held e"
    and "en_immutables e' = butlast (en_immutables e)" and "en_readers e' = i # en_readers e"
proof -
  note B = base_invD [OF inv]
  note D = tab_invD [OF B(4)]
  let ?meta = "meta_of r (eo_now_text io)" and ?T = "T(i := t)"
  obtain m tx where m: "mf_tables m = ?meta # mf_tables (en_manifest e)"
      "mf_next_sst_id m = max (mf_next_sst_id (en_manifest e)) (i + 1)"
    and e': "e' = publish_version (e\<lparr>en_manifest := m, en_manifest_file := tx, en_readers := i # en_readers e,
       en_reader := (en_reader e)(i := reader_new ?meta), en_immutables := butlast (en_immutables e)\<rparr>)"
    by (rule flush_publish_front [OF run r(1)])
  have next_id: "mf_next_sst_id m = i + 1" using m(2) i next_id_step(2) [OF i(2)] by simp
  have K: "en_mem e' = en_mem e" "en_active e' = en_active e" "en_next_mem e' = en_next_mem e"
    "en_sst e' = en_sst e" "en_cache e' = en_cache e" "en_wal e' = en_wal e" "en_manifest e' = m"
    "en_reader e' = (en_reader e)(i := reader_new ?meta)"
    by (simp_all add: e')
  show H: "en_held e' = en_held e" and I: "en_immutables e' = butlast (en_immutables e)"
    and R: "en_readers e' = i # en_readers e" by (simp_all add: e')
  have meta: "tm_id ?meta = i" "tm_file_name ?meta = sst_file_name i" "tm_min_key ?meta = br_min_key r"
    "tm_max_key ?meta = br_max_key r" "rd_meta (reader_new ?meta) = ?meta"
    using r by (simp_all add: meta_of_def reader_new_def)
  have old: "j \<noteq> i" if "j \<in> live_ids e" for j using D(7) [OF that] i by auto
  have mts: "memtables e' @ [last (en_immutables e)] = memtables e"
    using imm(1) by (simp add: memtables_def K I)
  have live: "live_ids e' = insert i (live_ids e)" by (auto simp: live_ids_def R H)
  show C: "contents e' ?T = contents e T"
  proof -
    have "map (table_map ?T) (en_readers e) = map (table_map T) (en_readers e)"
      using old live_idsI(1) by (intro map_cong) (auto simp: table_map_upd)
    moreover have "table_map ?T i = memtable_find (en_mem e (last (en_immutables e)))"
      by (simp add: table_map_upd imm(2) sorted_entries_map_of)
    ultimately have "map (\<lambda>a. memtable_find (en_mem e' a)) (memtables e') @ map (table_map ?T) (en_readers e') =
        map (\<lambda>a. memtable_find (en_mem e a)) (memtables e) @ map (table_map T) (en_readers e)"
      unfolding R K mts [symmetric] by simp
    then show ?thesis by (intro ext) (simp only: contents_layers)
  qed
  show V: "u \<in> set (en_held e) \<Longrightarrow> view e' ?T u = view e T u" for u
    using old live_idsI(2) by (intro view_new_table K) blast
  have "mem_inv e'"
  proof -
    have "distinct (memtables e')" "set (memtables e') \<subseteq> set (memtables e)"
      using B(3) unfolding mem_inv_def mts [symmetric] by auto
    then show ?thesis using B(3) by (auto simp: mem_inv_def K)
  qed
  moreover have "held_inv e' ?T"
    using B(5) V C by (simp add: held_inv_def H K)
  moreover have "tab_inv e' ?T"
    unfolding tab_inv_def K live
  proof (intro conjI)
    show "en_readers e' = map tm_id (mf_tables m)" using D(1) by (simp add: R m meta)
    show "ids_ok m"
      using D(2) next_id_step [OF i(2)] i by (force simp: ids_ok_def m next_id meta)
    show "unat (mf_next_sst_id m) \<le> 10 ^ 11" using next_id_step(1) [OF i(2)] i(2) by (simp add: next_id)
    show "\<forall>ta \<in> set (mf_tables m). rd_meta (((en_reader e)(i := reader_new ?meta)) (tm_id ta)) = ta"
      using D(5,9) old by (auto simp: m meta)
    show "keys_ascending (en_sst e)" by (rule D(4))
    show "\<forall>j u. mf_next_sst_id m \<le> j \<longrightarrow> cache_ok j u (en_cache e)"
      using D(8) next_id_step(3) [OF i(2)] by (auto simp: next_id i(1))
    show "\<forall>j \<in> insert i (live_ids e). table_ok e' ?T j \<and> j < mf_next_sst_id m"
    proof
      fix j assume j: "j \<in> insert i (live_ids e)"
      show "table_ok e' ?T j \<and> j < mf_next_sst_id m"
      proof (cases "j = i")
        case True
        have "reader_ok t (reader_new ?meta)" using t(3) by (intro reader_ok_new) (simp add: meta)
        moreover have "cache_ok i t (en_cache e)" using D(8) i(1) by simp
        ultimately show ?thesis
          using True t(1,2) next_id_step(3) [OF i(2)]
          by (simp add: table_ok_def table_file_of_def K meta next_id)
      next
        case False
        then have l: "j \<in> live_ids e" using j by simp
        have "table_ok e' ?T j = table_ok e T j"
          using False by (intro table_ok_old_id) (simp_all add: K)
        then show ?thesis
          using D(6,7) [OF l] next_id_step(4) [OF i(2)] i(1) by (simp add: next_id)
      qed
    qed
  qed
  moreover have "en_version e' = Some (current e')" unfolding e' by (rule current_publish)
  ultimately show "base_inv e' ?T" using B(2) by (simp add: base_inv_def K)
qed

lemma flush_cleanup_bookkeeping: "flush_cleanup io e = (r, e') \<Longrightarrow> bookkeeping e e'"
  by (auto simp: flush_cleanup_def split: option.splits prod.splits sum.splits)

lemma flush_count_bookkeeping: "bookkeeping e (flush_count io r e)"
  by (simp add: flush_count_def)

end
