(* ===== verification/Engine_Order.thy ===== *)
theory Engine_Order
  imports Engine_Flush
begin

text \<open>
  Sequence numbers descend from layer to layer: what a memtable has is newer than every table and
  than every memtable behind it, and no newer than the log's counter; the ranges of the tables
  descend and hold what their files hold.
\<close>

definition mem_seqnos :: "engine \<Rightarrow> nat \<Rightarrow> u64 set" where
  "mem_seqnos e a = me_seqno ` ran (memtable_find (en_mem e a))"

definition table_ranges :: "engine \<Rightarrow> (u64 \<Rightarrow> written) \<Rightarrow> bool" where
  "table_ranges e T \<longleftrightarrow> ranges_descend (mf_tables (en_manifest e)) \<and>
     (\<forall>t \<in> set (mf_tables (en_manifest e)). \<forall>kx \<in> set (wt_entries (T (tm_id t))).
        tm_min_seqno t \<le> me_seqno (snd kx) \<and> me_seqno (snd kx) \<le> tm_max_seqno t)"

definition mem_order :: "engine \<Rightarrow> bool" where
  "mem_order e \<longleftrightarrow>
     sorted_wrt (\<lambda>a b. \<forall>x \<in> mem_seqnos e a. \<forall>y \<in> mem_seqnos e b. y < x) (memtables e) \<and>
     (\<forall>a \<in> set (memtables e). \<forall>x \<in> mem_seqnos e a. manifest_max_seqno (en_manifest e) < x)"

definition log_seqno :: "engine \<Rightarrow> u64 option" where
  "log_seqno e = map_option w_last_seqno (en_wal e)"

definition log_order :: "engine \<Rightarrow> bool" where
  "log_order e \<longleftrightarrow> (\<exists>n. log_seqno e = Some n \<and> manifest_max_seqno (en_manifest e) \<le> n \<and>
     (\<forall>a \<in> set (memtables e). \<forall>x \<in> mem_seqnos e a. x \<le> n))"

definition order_inv :: "engine \<Rightarrow> (u64 \<Rightarrow> written) \<Rightarrow> bool" where
  "order_inv e T \<longleftrightarrow> table_ranges e T \<and> mem_order e \<and> log_order e"

lemma manifest_max_ge: "t \<in> set (mf_tables m) \<Longrightarrow> tm_max_seqno t \<le> manifest_max_seqno m"
proof -
  have ge: "v \<le> fold (\<lambda>t v. max v (tm_max_seqno t)) ts v" for ts and v :: u64
  proof (induction ts arbitrary: v)
    case (Cons u ts)
    show ?case using order_trans [OF max.cobounded1 Cons [of "max v (tm_max_seqno u)"]] by simp
  qed simp
  have "t \<in> set ts \<Longrightarrow> tm_max_seqno t \<le> fold (\<lambda>t v. max v (tm_max_seqno t)) ts v" for ts and v :: u64
  proof (induction ts arbitrary: v)
    case (Cons u ts)
    then show ?case using order_trans [OF max.cobounded2 ge [of "max v (tm_max_seqno u)" ts]] by auto
  qed simp
  then show "t \<in> set (mf_tables m) \<Longrightarrow> ?thesis" unfolding manifest_max_seqno_def by blast
qed

lemma manifest_max_le:
  "(\<forall>t \<in> set (mf_tables m). tm_max_seqno t \<le> n) \<Longrightarrow> manifest_max_seqno m \<le> n"
proof -
  have "\<forall>t \<in> set ts. tm_max_seqno t \<le> n \<Longrightarrow> v \<le> n \<Longrightarrow> fold (\<lambda>t v. max v (tm_max_seqno t)) ts v \<le> n" for ts and v :: u64
    by (induction ts arbitrary: v) auto
  then show "(\<forall>t \<in> set (mf_tables m). tm_max_seqno t \<le> n) \<Longrightarrow> ?thesis"
    unfolding manifest_max_seqno_def using word_zero_le by blast
qed

section \<open>The log's counter\<close>

lemma open_active_last_seqno: "open_active_segment io i fresh w = (r, w') \<Longrightarrow> w_last_seqno w' = w_last_seqno w"
  by (auto simp: open_active_segment_def Let_def split: if_splits)

lemma roll_last_seqno: "roll_segment io w = (r, w') \<Longrightarrow> w_last_seqno w' = w_last_seqno w"
  by (cases "open_active_segment io (w_active_id w + 1) True
      (w\<lparr>w_dir := sync_file (w_active_id w) (w_dir w), w_open := False\<rparr>)"; cases "fst (open_active_segment io (w_active_id w + 1) True
      (w\<lparr>w_dir := sync_file (w_active_id w) (w_dir w), w_open := False\<rparr>))")
    (auto simp: roll_segment_def Let_def dest: open_active_last_seqno split: if_splits)

lemma wal_roll_last_seqno: "wal_roll io w = (r, w') \<Longrightarrow> w_last_seqno w' = w_last_seqno w"
  by (cases "roll_segment io w"; cases "fst (roll_segment io w)") (auto simp: wal_roll_def dest: roll_last_seqno split: if_splits)

lemma append_bytes_last_seqno:
  "append_bytes io rec s w = (r, w') \<Longrightarrow> (case r of Inr q \<Rightarrow> s = q \<and> w_last_seqno w' = s | Inl _ \<Rightarrow> w_last_seqno w' = w_last_seqno w)"
  by (auto simp: append_bytes_def Let_def split: if_splits)

lemma wal_append_last_seqno:
  assumes "wal_append io ty k v w = (r, w')"
  shows "case r of Inr q \<Rightarrow> w_last_seqno w + 1 = q \<and> w_last_seqno w' = q | Inl _ \<Rightarrow> w_last_seqno w' = w_last_seqno w"
proof -
  obtain q w1 where "roll_segment io w = (q, w1)" by fastforce
  then show ?thesis
    using assms roll_last_seqno [of io w q w1] append_bytes_last_seqno [of io _ "w_last_seqno w + 1" w r w']
      append_bytes_last_seqno [of io _ "w_last_seqno w + 1" w1 r w']
    by (cases q) (auto simp: wal_append_def Let_def split: if_splits sum.splits)
qed

lemma remove_loop_last_seqno: "remove_loop io m fs w del = (r, w') \<Longrightarrow> w_last_seqno w' = w_last_seqno w"
  by (induction io m fs w del rule: remove_loop.induct) (auto split: if_splits option.splits)

lemma wal_sync_last_seqno: "wal_sync io w = (r, w') \<Longrightarrow> w_last_seqno w' = w_last_seqno w"
  by (auto simp: wal_sync_def Let_def split: if_splits)

section \<open>What keeps the order\<close>

lemma order_inv_same:
  assumes M: "same_mem e e'" and "en_manifest e' = en_manifest e" "log_seqno e' = log_seqno e"
  shows "order_inv e' T = order_inv e T"
  unfolding order_inv_def table_ranges_def mem_order_def log_order_def mem_seqnos_def same_memD [OF M] assms(2,3) ..

lemma mem_seqnos_write:
  "mem_seqnos (mem_write k v s d e) a \<subseteq> (if a = en_active e then insert s (mem_seqnos e a) else mem_seqnos e a)"
proof (cases "a = en_active e")
  case True
  have "x \<in> insert \<lparr>me_value = v, me_seqno = s, me_tombstone = d\<rparr> (ran (memtable_find (en_mem e a)))"
    if "x \<in> ran ((memtable_find (en_mem e a))(k \<mapsto> \<lparr>me_value = v, me_seqno = s, me_tombstone = d\<rparr>))" for x
    using that by (auto simp: ran_def split: if_splits)
  then have "me_seqno ` ran ((memtable_find (en_mem e a))(k \<mapsto> \<lparr>me_value = v, me_seqno = s, me_tombstone = d\<rparr>)) \<subseteq>
      insert s (me_seqno ` ran (memtable_find (en_mem e a)))" by force
  then show ?thesis using True by (simp add: mem_seqnos_def mem_write_find)
qed (simp add: mem_seqnos_def mem_write_find)

text \<open>A write with a newer sequence number.\<close>

lemma mem_write_mem_order:
  assumes ord: "mem_order e" and mem: "mem_inv e"
    and new: "\<forall>a \<in> set (memtables e). \<forall>x \<in> mem_seqnos e a. x < s"
    and above: "manifest_max_seqno (en_manifest e) < s"
  shows "mem_order (mem_write k v s d e)"
    and "a \<in> set (memtables e) \<Longrightarrow> x \<in> mem_seqnos (mem_write k v s d e) a \<Longrightarrow> x \<le> s"
proof -
  let ?w = "mem_write k v s d e"
  have O: "\<And>a x. a \<in> set (memtables e) \<Longrightarrow> x \<in> mem_seqnos e a \<Longrightarrow> manifest_max_seqno (en_manifest e) < x"
    "sorted_wrt (\<lambda>a b. \<forall>x \<in> mem_seqnos e a. \<forall>y \<in> mem_seqnos e b. y < x) (memtables e)"
    using ord by (auto simp: mem_order_def)
  have active: "memtables e = en_active e # en_immutables e" "en_active e \<notin> set (en_immutables e)"
    using mem by (simp_all add: memtables_def mem_inv_def)
  note sub = mem_seqnos_write [of k v s d e]
  have other: "mem_seqnos ?w a \<subseteq> mem_seqnos e a" if "a \<in> set (en_immutables e)" for a
    using sub [of a] that active(2) by (auto split: if_splits)
  have first: "mem_seqnos ?w (en_active e) \<subseteq> insert s (mem_seqnos e (en_active e))"
    using sub [of "en_active e"] by simp
  have "y < x" if "x \<in> mem_seqnos ?w (en_active e)" "a \<in> set (en_immutables e)" "y \<in> mem_seqnos ?w a" for x y a
  proof -
    have y: "y \<in> mem_seqnos e a" using other [OF that(2)] that(3) by blast
    show ?thesis
    proof (cases "x = s")
      case True
      then show ?thesis using y that(2) new by (simp add: active(1))
    next
      case False
      then have "x \<in> mem_seqnos e (en_active e)" using that(1) first by blast
      then show ?thesis using O(2) that(2) y by (simp add: active(1))
    qed
  qed
  moreover have "sorted_wrt (\<lambda>a b. \<forall>x \<in> mem_seqnos ?w a. \<forall>y \<in> mem_seqnos ?w b. y < x) (en_immutables e)"
    by (rule sorted_wrt_mono_rel [of _ "\<lambda>a b. \<forall>x \<in> mem_seqnos e a. \<forall>y \<in> mem_seqnos e b. y < x"])
      (use O(2) other in \<open>auto simp: active(1)\<close>)
  moreover have "\<forall>a \<in> set (memtables e). \<forall>x \<in> mem_seqnos ?w a. manifest_max_seqno (en_manifest e) < x"
    using sub O(1) above by (fastforce split: if_splits)
  ultimately show "mem_order ?w"
    unfolding mem_order_def mem_write_keeps by (simp add: active(1))
  assume a: "a \<in> set (memtables e)" "x \<in> mem_seqnos ?w a"
  then have "x = s \<or> x \<in> mem_seqnos e a" using sub [of a] by (auto split: if_splits)
  then show "x \<le> s" using new a(1) less_imp_le by blast
qed

lemma mem_write_order:
  assumes ord: "order_inv e T" and mem: "mem_inv e" and n: "log_seqno e = Some n" "n \<noteq> - 1"
    and log: "log_seqno e' = Some (n + 1)" and e': "en_mem e' = en_mem e" "memtables e' = memtables e"
      "en_active e' = en_active e" "en_manifest e' = en_manifest e" and mem': "mem_inv e'"
  shows "order_inv (mem_write k v (n + 1) d e') T"
proof -
  have less: "x < n + 1" if "x \<le> n" for x
    using that word_less_succ [OF n(2)] by (rule le_less_trans)
  have seqs: "mem_seqnos e' = mem_seqnos e" by (simp add: fun_eq_iff mem_seqnos_def e')
  have O: "manifest_max_seqno (en_manifest e) \<le> n" "\<And>a x. a \<in> set (memtables e) \<Longrightarrow> x \<in> mem_seqnos e a \<Longrightarrow> x \<le> n"
    "mem_order e'" "table_ranges e T"
    using ord n(1) by (auto simp: order_inv_def log_order_def mem_order_def seqs e')
  have new: "\<forall>a \<in> set (memtables e'). \<forall>x \<in> mem_seqnos e' a. x < n + 1"
    using O(2) less by (simp add: e' seqs)
  have above: "manifest_max_seqno (en_manifest e') < n + 1" using less [OF O(1)] by (simp add: e')
  note W = mem_write_mem_order [OF O(3) mem' new above]
  have "log_order (mem_write k v (n + 1) d e')"
    unfolding log_order_def mem_write_keeps
    using W(2) less_imp_le [OF above] log by (intro exI [of _ "n + 1"]) (simp add: log_seqno_def)
  then show ?thesis using W(1) O(4) by (simp add: order_inv_def table_ranges_def e')
qed

lemma rotate_mem_seqnos:
  assumes mem: "mem_inv e"
  shows "a \<in> set (memtables e) \<Longrightarrow> mem_seqnos (rotate b e) a = mem_seqnos e a"
    and "mem_seqnos (rotate b e) (en_next_mem e) = {}"
  using mem by (auto simp: mem_seqnos_def mem_inv_def ran_def)

lemma rotate_mem_order:
  assumes ord: "mem_order e" and mem: "mem_inv e"
  shows "mem_order (rotate b e)"
proof -
  note S = rotate_mem_seqnos [OF mem]
  have "sorted_wrt (\<lambda>a b'. \<forall>x \<in> mem_seqnos (rotate b e) a. \<forall>y \<in> mem_seqnos (rotate b e) b'. y < x) (memtables e)"
    by (rule sorted_wrt_mono_rel [of _ "\<lambda>a b. \<forall>x \<in> mem_seqnos e a. \<forall>y \<in> mem_seqnos e b. y < x"])
      (use ord S(1) in \<open>auto simp: mem_order_def\<close>)
  then show ?thesis using ord S by (simp add: mem_order_def)
qed

lemma rotate_order:
  assumes ord: "order_inv e T" and mem: "mem_inv e"
  shows "order_inv (rotate b e) T"
  using ord rotate_mem_order [OF _ mem] rotate_mem_seqnos [OF mem]
  by (simp add: order_inv_def table_ranges_def log_order_def log_seqno_def)

lemma maybe_rotate_order:
  assumes ord: "order_inv e T" and mem: "mem_inv e" and run: "maybe_rotate io False e = (r, e')"
  shows "order_inv e' T"
proof -
  have upd: "order_inv (e\<lparr>en_wal := Some w1\<rparr>) T \<and> mem_inv (e\<lparr>en_wal := Some w1\<rparr>)" if "en_wal e = Some w" "w_last_seqno w1 = w_last_seqno w" for w w1
    using ord mem order_inv_same [of e "e\<lparr>en_wal := Some w1\<rparr>" T] mem_inv_same [of e "e\<lparr>en_wal := Some w1\<rparr>"] that
    by (simp add: same_mem_def log_seqno_def)
  show ?thesis
  proof (cases "en_wal e")
    case None
    then show ?thesis using run ord by (auto simp: maybe_rotate_def split: if_splits)
  next
    case (Some w)
    obtain q w1 where q: "wal_roll (eo_wal io) w = (q, w1)" by fastforce
    note U = upd [OF Some wal_roll_last_seqno [OF q]]
    have "e' = e \<or> e' = e\<lparr>en_wal := Some w1\<rparr> \<or> e' = rotate False (e\<lparr>en_wal := Some w1\<rparr>)"
      using run Some q by (auto simp: maybe_rotate_def split: if_splits sum.splits)
    then show ?thesis using ord U rotate_order [of "e\<lparr>en_wal := Some w1\<rparr>" T False] by blast
  qed
qed

lemma do_write_order:
  assumes ord: "order_inv e T" and mem: "mem_inv e" and room: "log_seqno e \<noteq> Some (- 1)"
    and run: "do_write io tombstone key value e = (r, e')"
  shows "order_inv e' T"
proof -
  obtain n where n: "log_seqno e = Some n" using ord by (auto simp: order_inv_def log_order_def)
  then obtain w where w: "en_wal e = Some w" "w_last_seqno w = n" by (auto simp: log_seqno_def)
  have last: "case a of Inr q \<Rightarrow> n + 1 = q \<and> w_last_seqno w1 = q | Inl _ \<Rightarrow> w_last_seqno w1 = n"
    if "(if tombstone then append_del (eo_wal io) key w else append_put (eo_wal io) key value w) = (a, w1)" for a w1
    using that wal_append_last_seqno w(2) by (auto simp: append_del_def append_put_def split: if_splits)
  show ?thesis
    using run w(1)
  proof (cases rule: do_write_cases)
    case (not_logged err w1)
    then show ?thesis
      using ord last [OF not_logged(1)] w order_inv_same [of e e' T] by (simp add: same_mem_def log_seqno_def)
  next
    case (logged s w1 e0 q)
    have s: "s = n + 1" "w_last_seqno w1 = n + 1" using last [OF logged(1)] by simp_all
    have S: "same_mem e e0" "same_tables e e0" using logged(2) by (simp_all add: bookkeeping_def)
    have M0: "mem_inv e0" using mem by (simp add: mem_inv_same [OF S(1)])
    have "order_inv (mem_write key value s tombstone e0) T"
      unfolding s(1) using room n M0
      by (intro mem_write_order [OF ord mem n])
        (auto simp: log_seqno_def s logged(3) same_memD [OF S(1)] same_tablesD [OF S(2)])
    then show ?thesis using maybe_rotate_order [OF _ mem_write_mem_inv [OF M0] logged(4)] by blast
  qed
qed

section \<open>The order of a new table\<close>

lemma mem_seqnos_entries:
  assumes "memtable_ok (en_mem e a)"
  shows "mem_seqnos e a = (\<lambda>kx. me_seqno (snd kx)) ` set (sorted_entries (en_mem e a))"
proof -
  have "distinct (map fst (sorted_entries (en_mem e a)))" using assms by (rule memtable_merge.entries_once)
  then have "ran (map_of (sorted_entries (en_mem e a))) = snd ` set (sorted_entries (en_mem e a))"
    by (rule ran_distinct)
  then show ?thesis by (simp add: mem_seqnos_def image_image flip: sorted_entries_map_of)
qed

lemma manifest_max_attained: "mf_tables m \<noteq> [] \<Longrightarrow> \<exists>t \<in> set (mf_tables m). manifest_max_seqno m = tm_max_seqno t"
proof -
  have att: "fold (\<lambda>t v. max v (tm_max_seqno t)) ts v \<in> insert v (tm_max_seqno ` set ts)" for ts and v :: u64
  proof (induction ts arbitrary: v)
    case (Cons u ts)
    show ?case using Cons [of "max v (tm_max_seqno u)"] by (auto simp: max_def split: if_splits)
  qed simp
  assume ne: "mf_tables m \<noteq> []"
  have "manifest_max_seqno m = 0 \<or> (\<exists>t \<in> set (mf_tables m). manifest_max_seqno m = tm_max_seqno t)"
    using att [of "mf_tables m" 0] by (auto simp: manifest_max_seqno_def)
  then show ?thesis
  proof
    assume "manifest_max_seqno m = 0"
    moreover obtain t where "t \<in> set (mf_tables m)" using ne by (cases "mf_tables m") auto
    moreover have "tm_max_seqno t = 0" using manifest_max_ge [OF \<open>t \<in> set (mf_tables m)\<close>] calculation(1) by simp
    ultimately show ?thesis by metis
  qed
qed

lemma manifest_max_less:
  "mf_tables m \<noteq> [] \<Longrightarrow> (\<forall>t \<in> set (mf_tables m). tm_max_seqno t < n) \<Longrightarrow> manifest_max_seqno m < n"
  using manifest_max_attained by metis

lemma flush_order:
  assumes ord: "order_inv e T" and mem: "memtable_ok (en_mem e target)"
    and tgt: "target = last (en_immutables e)" "en_immutables e \<noteq> []"
    and es: "wt_entries t = sorted_entries (en_mem e target)" "wt_entries t \<noteq> []"
    and meta: "tm_id meta = i" "tm_min_seqno meta = entries_min_seqno (wt_entries t)"
      "tm_max_seqno meta = entries_max_seqno (wt_entries t)"
    and fresh: "\<forall>u \<in> set (mf_tables (en_manifest e)). tm_id u \<noteq> i"
    and e': "mf_tables (en_manifest e') = meta # mf_tables (en_manifest e)" "en_mem e' = en_mem e"
      "en_active e' = en_active e" "en_immutables e' = butlast (en_immutables e)" "log_seqno e' = log_seqno e"
  shows "order_inv e' (T(i := t))"
proof -
  let ?M = "manifest_max_seqno (en_manifest e)"
  obtain n where n: "log_seqno e = Some n" "?M \<le> n" "\<forall>a \<in> set (memtables e). \<forall>x \<in> mem_seqnos e a. x \<le> n"
    using ord by (auto simp: order_inv_def log_order_def)
  have split: "memtables e = memtables e' @ [target]" using tgt by (simp add: memtables_def e')
  have ms: "mem_seqnos e' = mem_seqnos e" by (simp add: fun_eq_iff mem_seqnos_def e')
  have seqs: "mem_seqnos e target = (\<lambda>kx. me_seqno (snd kx)) ` set (wt_entries t)"
    unfolding es(1) using mem by (rule mem_seqnos_entries)
  have att: "tm_min_seqno meta \<in> mem_seqnos e target" "tm_max_seqno meta \<in> mem_seqnos e target"
    using entries_seqno_attained [OF es(2)] unfolding seqs meta by force+
  have bnd: "tm_min_seqno meta \<le> me_seqno (snd kx) \<and> me_seqno (snd kx) \<le> tm_max_seqno meta" if "kx \<in> set (wt_entries t)" for kx
    using entries_seqno_bounds [of "fst kx" "snd kx" "wt_entries t"] that unfolding meta by simp
  have W: "sorted_wrt (\<lambda>a b. \<forall>x \<in> mem_seqnos e a. \<forall>y \<in> mem_seqnos e b. y < x) (memtables e' @ [target])"
    "\<forall>a \<in> set (memtables e). \<forall>x \<in> mem_seqnos e a. ?M < x"
    using ord split by (simp_all add: order_inv_def mem_order_def)
  have newer: "tm_max_seqno meta < x" if "a \<in> set (memtables e')" "x \<in> mem_seqnos e a" for a x
    using W(1) that att(2) by (simp add: sorted_wrt_append)
  have above: "?M < tm_min_seqno meta" "tm_max_seqno meta \<le> n"
    using W(2) n(3) att unfolding split by simp_all
  have range: "ranges_descend (mf_tables (en_manifest e))"
    "\<forall>u \<in> set (mf_tables (en_manifest e)). \<forall>kx \<in> set (wt_entries (T (tm_id u))).
        tm_min_seqno u \<le> me_seqno (snd kx) \<and> me_seqno (snd kx) \<le> tm_max_seqno u"
    using ord by (simp_all add: order_inv_def table_ranges_def)
  have "tm_max_seqno u < tm_min_seqno meta" if "u \<in> set (mf_tables (en_manifest e))" for u
    using manifest_max_ge [OF that] above(1) by (rule le_less_trans)
  moreover have "tm_min_seqno meta \<le> tm_max_seqno meta"
    using bnd es(2) by (meson hd_in_set order_trans)
  ultimately have "table_ranges e' (T(i := t))"
    using range fresh bnd by (simp add: table_ranges_def e' ranges_descend_Cons meta(1))
  moreover have "mem_order e'"
  proof -
    have "manifest_max_seqno (en_manifest e') < x" if "a \<in> set (memtables e')" "x \<in> mem_seqnos e a" for a x
    proof (rule manifest_max_less)
      have "tm_max_seqno u < x" if "u \<in> set (mf_tables (en_manifest e))" for u
        using manifest_max_ge [OF that] W(2) \<open>a \<in> set (memtables e')\<close> \<open>x \<in> mem_seqnos e a\<close> split by (auto intro: le_less_trans)
      then show "\<forall>u \<in> set (mf_tables (en_manifest e')). tm_max_seqno u < x"
        using newer [OF that] by (simp add: e')
    qed (simp add: e')
    then show ?thesis using W(1) by (simp add: mem_order_def ms sorted_wrt_append)
  qed
  moreover have "log_order e'"
  proof -
    have "manifest_max_seqno (en_manifest e') \<le> n"
      using manifest_max_ge [of _ "en_manifest e", THEN order_trans, OF _ n(2)] above(2)
      by (intro manifest_max_le) (auto simp: e')
    then show ?thesis using n(1,3) split by (simp add: log_order_def e'(5) ms)
  qed
  ultimately show ?thesis by (simp add: order_inv_def)
qed

end
