(* ===== verification/Engine_Compact.thy ===== *)
theory Engine_Compact
  imports Engine_Order
begin

text \<open>
  Compaction replaces adjacent tables by their merge, in place, and drops only tombstones that hide
  nothing: it changes no read.  Deleting the inputs afterwards touches no table that is live or held.
\<close>

section \<open>The inputs are adjacent tables\<close>

lemma adjacent_interval:
  assumes "adjacent ps" "ps \<noteq> []"
  shows "ps = [hd ps..<hd ps + length ps]"
proof (rule nth_equalityI)
  fix j assume "j < length ps"
  then show "ps ! j = [hd ps..<hd ps + length ps] ! j"
  proof (induction j)
    case 0
    then show ?case using assms(2) by (simp add: hd_conv_nth)
  next
    case (Suc j)
    then have "ps ! Suc j = ps ! j + 1" using assms(1) by (simp add: adjacent_def)
    then show ?case using Suc by simp
  qed
qed simp

lemma nth_interval: "s + n \<le> length xs \<Longrightarrow> map (\<lambda>p. f (xs ! p)) [s..<s + n] = map f (take n (drop s xs))"
  by (intro nth_equalityI) auto

lemma pick_compaction_window:
  assumes "pick_compaction similar ts cfg = Some p"
  obtains pre w post where "ts = pre @ w @ post" "pk_ids p = map tm_id w" "w \<noteq> []"
proof -
  let ?ws = "windows (fan_in cfg) ts"
  obtain best fallback where st: "fold (pick_step similar cfg) ?ws (None, None) = (best, fallback)" by fastforce
  note L = fold_pick_step [of similar cfg ?ws, unfolded st fst_conv snd_conv]
  have len: "fan_in cfg \<le> length ts" and p: "p = the best \<and> best \<noteq> None \<or> fallback = Some p"
    using assms st by (auto simp: pick_compaction_def split: if_splits option.splits)
  then obtain w reason where w: "w \<in> set ?ws" "p = pick_of reason w"
    using L by (auto simp: lightest_def split: option.splits)
  then obtain pre post where "ts = pre @ w @ post" and k: "length w = fan_in cfg"
    using windows_adjacent [OF w(1) len] by blast
  moreover have "0 < fan_in cfg" by (simp add: fan_in_def)
  then have "w \<noteq> []" using k by auto
  ultimately show ?thesis using that [of pre w post] w(2) by (simp add: pick_of_def)
qed

lemma choose_inputs_window:
  assumes "choose_inputs similar cfg live inputs = Inr (Some ids)"
  obtains ts ws us where "live = ts @ ws @ us" "ids = map tm_id ws" "ws \<noteq> []"
proof (cases inputs)
  case None
  then obtain p where "pick_compaction similar live cfg = Some p" "ids = pk_ids p"
    using assms by (auto simp: choose_inputs_def)
  then show ?thesis using that pick_compaction_window by metis
next
  case (Some given)
  let ?ps = "live_positions given live"
  have adj: "adjacent ?ps" and ids: "ids = map (\<lambda>p. tm_id (live ! p)) ?ps"
    and given: "2 \<le> length given" "\<forall>i \<in> set given. i \<in> tm_id ` set live"
    using assms Some by (auto simp: choose_inputs_def split: if_splits)
  have "?ps \<noteq> []"
  proof -
    obtain i where i: "i \<in> set given" using given(1) by (cases given) auto
    then obtain t where "t \<in> set live" "tm_id t = i" using given(2) by auto
    then obtain p where "p < length live" "tm_id (live ! p) = i" by (auto simp: in_set_conv_nth)
    then show ?thesis using i by (auto simp: live_positions_def filter_empty_conv)
  qed
  then have iv: "?ps = [hd ?ps..<hd ?ps + length ?ps]" using adj by (intro adjacent_interval)
  have "hd ?ps + length ?ps \<le> length live"
  proof -
    have "last ?ps \<in> set ?ps" using \<open>?ps \<noteq> []\<close> by simp
    moreover have "last ?ps = hd ?ps + length ?ps - 1" using iv \<open>?ps \<noteq> []\<close> by (metis last_upt length_0_conv less_add_same_cancel1 neq0_conv)
    moreover have "0 < length ?ps" using \<open>?ps \<noteq> []\<close> by simp
    ultimately show ?thesis by (auto simp: live_positions_def)
  qed
  let ?ws = "take (length ?ps) (drop (hd ?ps) live)"
  have "ids = map tm_id ?ws"
    unfolding ids by (subst iv) (rule nth_interval [OF \<open>hd ?ps + length ?ps \<le> length live\<close>])
  moreover have "live = take (hd ?ps) live @ ?ws @ drop (length ?ps) (drop (hd ?ps) live)"
    by (simp only: append_take_drop_id)
  moreover have "0 < length ?ps" using \<open>?ps \<noteq> []\<close> by simp
  then have "hd ?ps < length live" using \<open>hd ?ps + length ?ps \<le> length live\<close> by linarith
  then have "?ws \<noteq> []" using \<open>?ps \<noteq> []\<close> by simp
  ultimately show ?thesis
    using that [of "take (hd ?ps) live" ?ws "drop (length ?ps) (drop (hd ?ps) live)"] by blast
qed

lemma input_metas_window:
  assumes "distinct (map tm_id (ts @ ws @ us))"
  shows "input_metas (map tm_id ws) (ts @ ws @ us) = ws"
proof -
  have "find (\<lambda>t. tm_id t = tm_id w) live = Some w" if "distinct (map tm_id live)" "w \<in> set live" for w live
    using that by (induction live) auto
  then have "the (find (\<lambda>t. tm_id t = tm_id w) (ts @ ws @ us)) = w" if "w \<in> set ws" for w
    using that by (subst \<open>\<And>w live. distinct (map tm_id live) \<Longrightarrow> w \<in> set live \<Longrightarrow> find (\<lambda>t. tm_id t = tm_id w) live = Some w\<close> [OF assms]) simp_all
  then show ?thesis by (auto simp: input_metas_def comp_def intro!: map_idI)
qed

section \<open>The merge of the inputs\<close>

definition hits :: "(u64 \<Rightarrow> written) \<Rightarrow> table_meta list \<Rightarrow> bytes \<Rightarrow> mem_entry option" where
  "hits T ws = first_hit (map (\<lambda>t. table_map T (tm_id t)) ws)"

text \<open>A memtable that holds the newest entries of the tables \<open>ws\<close>, less some tombstones if no table
  lies behind them.\<close>

definition merge_of :: "(u64 \<Rightarrow> written) \<Rightarrow> table_meta list \<Rightarrow> table_meta list \<Rightarrow> memtable \<Rightarrow> bool" where
  "merge_of T ws us final \<longleftrightarrow> memtable_ok final \<and>
     (\<forall>k. memtable_find final k = hits T ws k \<or>
        memtable_find final k = None \<and> us = [] \<and> (\<exists>x. hits T ws k = Some x \<and> me_tombstone x))"

lemma manifest_table_file:
  assumes "tab_inv e T" "t \<in> set (mf_tables (en_manifest e))"
  shows "file_in e (tm_file_name t) = Some (wt_file (T (tm_id t)))" "written_ok (T (tm_id t))"
proof -
  have "table_ok e T (tm_id t)" by (rule tab_invD(6) [OF assms(1) tab_invD(9) [OF assms]])
  then show "written_ok (T (tm_id t))" "file_in e (tm_file_name t) = Some (wt_file (T (tm_id t)))"
    unfolding table_ok_def table_file_of_def file_in_def tab_invD(5) [OF assms] by blast+
qed

lemma merge_inputs:
  assumes inv: "tab_inv e T" and tabs: "set ws \<subseteq> set (mf_tables (en_manifest e))"
  shows "\<exists>n mem. merge_tables (file_in e) (rev ws) (0, memtable_new h) = Inr (n, mem) \<and> memtable_ok mem \<and>
    memtable_find mem = hits T ws"
proof -
  have "\<forall>t \<in> set ws. \<exists>bs. file_in e (tm_file_name t) = Some bs \<and> scan_sstable bs = Inr (wt_entries (T (tm_id t)))"
    using manifest_table_file [OF inv] tabs written_scan by blast
  moreover have "\<forall>t \<in> set ws. distinct (map fst (wt_entries (T (tm_id t))))"
    using manifest_table_file(2) [OF inv] tabs written_entries_once by blast
  ultimately show ?thesis
    using merge_tables_correct [of ws "file_in e" "\<lambda>t. wt_entries (T (tm_id t))" h]
    by (force simp: hits_def table_map_def)
qed

lemma compact_merge_step:
  assumes inv: "tab_inv e T" and run: "compact_merge cx inputs e = Inr (Some mr)"
  obtains ts ws us where "mf_tables (en_manifest e) = ts @ ws @ us" "ws \<noteq> []" "mr_ids mr = map tm_id ws"
    "mr_live mr = mf_tables (en_manifest e)" "memtable_ok (mr_merged mr)" "memtable_find (mr_merged mr) = hits T ws"
proof -
  let ?live = "mf_tables (en_manifest e)"
  obtain ids where ids: "choose_inputs (cx_similar cx) (en_config e) ?live inputs = Inr (Some ids)"
    using run by (auto simp: compact_merge_def Let_def and_then_Inr_iff split: option.splits)
  obtain ts ws us where w: "?live = ts @ ws @ us" "ids = map tm_id ws" "ws \<noteq> []"
    by (rule choose_inputs_window [OF ids])
  have "distinct (map tm_id (ts @ ws @ us))" using tab_invD(2) [OF inv] w(1) by (simp add: ids_ok_def)
  then have im: "input_metas ids ?live = ws" unfolding w(1,2) by (rule input_metas_window)
  have "set ws \<subseteq> set ?live" by (auto simp: w(1))
  then obtain n mem where m: "merge_tables (file_in e) (rev ws)
      (0, memtable_new (memtable_size_overhead_bytes_per_entry (en_config e))) = Inr (n, mem)"
    "memtable_ok mem" "memtable_find mem = hits T ws"
    using merge_inputs [OF inv] by blast
  have "mr_ids mr = ids" "mr_live mr = ?live" "mr_merged mr = mem"
    using run ids im m(1)
    by (auto simp: compact_merge_def Let_def and_then_Inr_iff split: if_splits)
  then show ?thesis using that w m by simp
qed

lemma hits_from: "hits T ws k = Some x \<Longrightarrow> \<exists>w \<in> set ws. (k, x) \<in> set (wt_entries (T (tm_id w)))"
  by (induction ws) (auto simp: hits_def table_map_def split: option.splits dest: map_of_SomeD)

lemma compact_filter_step:
  assumes ord: "table_ranges e T" and ids: "ids_ok (en_manifest e)"
    and tabs: "mf_tables (en_manifest e) = ts @ ws @ us" "mr_ids mr = map tm_id ws" "mr_live mr = mf_tables (en_manifest e)"
    and merged: "memtable_ok (mr_merged mr)" "memtable_find (mr_merged mr) = hits T ws"
    and run: "compact_filter cx io cfg mr = (final, job)"
  shows "merge_of T ws us final"
proof -
  have d: "distinct (map tm_id (ts @ ws @ us))" using ids tabs(1) by (simp add: ids_ok_def)
  have im: "input_metas (mr_ids mr) (mr_live mr) = ws" unfolding tabs by (rule input_metas_window [OF d])
  let ?drp = "drop_tombstone (cx_parse_time cx) (eo_now io) cfg ws (outside_oldest (map tm_id ws) (ts @ ws @ us))"
  obtain kept dropped where f: "filter_tombstones ?drp (memtable_size_overhead_bytes_per_entry cfg) (mr_merged mr) = (kept, dropped, final)"
    using run im tabs by (auto simp: compact_filter_def Let_def split: prod.splits)
  note F = filter_tombstones_correct [OF merged(1) f]
  have oldest: "us = []" if "hits T ws k = Some x" "?drp x" for k x
  proof -
    obtain w where w: "w \<in> set ws" "(k, x) \<in> set (wt_entries (T (tm_id w)))" using hits_from [OF \<open>hits T ws k = Some x\<close>] by blast
    then have "tm_min_seqno w \<le> me_seqno x" using ord tabs(1) by (force simp: table_ranges_def)
    moreover have "ranges_descend (ts @ ws @ us)" using ord tabs(1) by (simp add: table_ranges_def)
    moreover have "tm_id ` set us \<inter> set (map tm_id ws) = {}" using d by auto
    ultimately show ?thesis using w(1) that(2) by (intro drop_needs_oldest)
  qed
  then show ?thesis
    using F(1,2) merged(2) by (auto simp: merge_of_def split: option.splits)
qed

lemma merge_of_entries:
  assumes "merge_of T ws us final" "kx \<in> set (sorted_entries final)"
  shows "\<exists>w \<in> set ws. kx \<in> set (wt_entries (T (tm_id w)))"
proof -
  obtain k x where kx: "kx = (k, x)" by (cases kx)
  have "distinct (map fst (sorted_entries final))"
    using assms(1) by (intro memtable_merge.entries_once) (simp add: merge_of_def)
  then have "memtable_find final k = Some x"
    using assms(2) by (simp add: kx flip: sorted_entries_map_of)
  then have "hits T ws k = Some x" using assms(1) unfolding merge_of_def by (metis option.distinct(1))
  then show ?thesis unfolding kx by (rule hits_from)
qed

text \<open>The merge in the place of its inputs.\<close>

lemma merge_of_view:
  assumes m: "merge_of T ws us final"
  shows "visible (first_hit (newer @ memtable_find final # map (\<lambda>t. table_map T (tm_id t)) us) k) =
    visible (first_hit (newer @ map (\<lambda>t. table_map T (tm_id t)) (ws @ us)) k)"
proof -
  let ?us = "map (\<lambda>t. table_map T (tm_id t)) us"
  have "visible (first_hit (newer @ memtable_find final # ?us) k) = visible (first_hit (newer @ hits T ws # ?us) k)"
  proof (rule visible_drop_tombstones)
    fix k
    show "memtable_find final k = hits T ws k \<or>
      memtable_find final k = None \<and> (\<exists>e. hits T ws k = Some e \<and> me_tombstone e) \<and> first_hit ?us k = None"
      using m by (auto simp: merge_of_def)
  qed
  also have "first_hit (newer @ hits T ws # ?us) = first_hit (newer @ map (\<lambda>t. table_map T (tm_id t)) ws @ ?us)"
    by (rule first_hit_replace) (simp add: hits_def)
  finally show ?thesis by simp
qed

lemma table_args_entries:
  assumes "table_args_ok shape mem cfg"
  shows "memtable_entries mem \<noteq> 0"
proof -
  obtain cs bl n res where E: "concat cs = sorted_entries mem"
    "length (table_file (unat (restart_interval cfg)) cs bl n) < 2 ^ 63"
    by (rule encode_sstable_table [OF assms, of 0]) blast
  have "length (sorted_entries mem) < 2 ^ 64"
    using E(2) concat_data_blocks [of cs "unat (restart_interval cfg)"] unfolding E(1) [symmetric]
    by (simp add: length_table_file)
  then have "unat (memtable_entries mem) = length (sorted_entries mem)"
    by (simp add: memtable_entries_def sorted_entries_def unat_of_nat_u64)
  moreover have "sorted_entries mem \<noteq> []" using assms by (simp add: table_args_ok_def)
  ultimately show ?thesis by auto
qed

section \<open>The output\<close>

lemma compact_output_step:
  assumes asc: "keys_ascending (en_sst e)" and i: "i = mf_next_sst_id (en_manifest e)"
    and run: "compact_output cx io final e = (res, e')"
  shows "new_file i e e'"
    and "res = Inr added \<Longrightarrow> added = None \<and> memtable_entries final = 0 \<or>
      (\<exists>r. added = Some (meta_of r (eo_now_text io)) \<and>
        write_sstable (eo_sst io) (cx_shape cx) i final (en_config e) (en_sst e) = (Inr r, en_sst e'))"
proof -
  obtain q dir where q: "write_sstable (eo_sst io) (cx_shape cx) i final (en_config e) (en_sst e) = (q, dir)" by fastforce
  note W = write_sstable_effect [OF asc q]
  have "e' = e \<or> e' = e\<lparr>en_sst := dir\<rparr>"
    using run q i by (cases q) (auto simp: compact_output_def split: if_splits)
  moreover have "e = e\<lparr>en_sst := en_sst e, en_bg := en_bg e\<rparr>" by simp
  moreover have "e\<lparr>en_sst := dir\<rparr> = e\<lparr>en_sst := dir, en_bg := en_bg e\<rparr>" by simp
  ultimately show "new_file i e e'"
    unfolding new_file_def using W(1,3) asc by metis
  show "res = Inr added \<Longrightarrow> added = None \<and> memtable_entries final = 0 \<or>
      (\<exists>r. added = Some (meta_of r (eo_now_text io)) \<and>
        write_sstable (eo_sst io) (cx_shape cx) i final (en_config e) (en_sst e) = (Inr r, en_sst e'))"
    using run q i by (cases q) (auto simp: compact_output_def split: if_splits)
qed

text \<open>The table to publish, and its file.\<close>

definition output_for :: "sst_dir \<Rightarrow> u64 \<Rightarrow> memtable \<Rightarrow> written \<Rightarrow> table_meta option \<Rightarrow> bool" where
  "output_for dir i final t added \<longleftrightarrow> (case added of
     None \<Rightarrow> sorted_entries final = []
   | Some a \<Rightarrow> tm_id a = i \<and> tm_file_name a = sst_file_name i \<and> written_ok t \<and>
       wt_entries t = sorted_entries final \<and> wt_entries t \<noteq> [] \<and>
       map_find dir (sst_file_name i) = Some (wt_file t) \<and>
       (\<forall>kv \<in> set (wt_entries t). tm_min_key a \<le> fst kv \<and> fst kv \<le> tm_max_key a) \<and>
       tm_min_seqno a = entries_min_seqno (wt_entries t) \<and> tm_max_seqno a = entries_max_seqno (wt_entries t))"

lemma output_forD:
  assumes "output_for dir i final t (Some a)"
  shows "tm_id a = i" "tm_file_name a = sst_file_name i" "written_ok t"
    "wt_entries t = sorted_entries final" "wt_entries t \<noteq> []" "map_find dir (sst_file_name i) = Some (wt_file t)"
    "\<forall>kv \<in> set (wt_entries t). tm_min_key a \<le> fst kv \<and> fst kv \<le> tm_max_key a"
    "tm_min_seqno a = entries_min_seqno (wt_entries t)" "tm_max_seqno a = entries_max_seqno (wt_entries t)"
  using assms unfolding output_for_def option.case by blast+

lemma compact_output_for:
  assumes asc: "keys_ascending (en_sst e)" and i: "i = mf_next_sst_id (en_manifest e)"
    and args: "sorted_entries final = [] \<or> table_args_ok (cx_shape cx) final (en_config e)"
    and run: "compact_output cx io final e = (Inr added, e')"
  obtains t where "output_for (en_sst e') i final t added"
proof (cases "sorted_entries final = []")
  case True
  then have "added = None" using run by (simp add: compact_output_def memtable_entries_def sorted_entries_def)
  then show ?thesis using True that by (simp add: output_for_def)
next
  case False
  then have args': "table_args_ok (cx_shape cx) final (en_config e)" using args by simp
  obtain r where r: "added = Some (meta_of r (eo_now_text io))"
    "write_sstable (eo_sst io) (cx_shape cx) i final (en_config e) (en_sst e) = (Inr r, en_sst e')"
    using compact_output_step(2) [OF asc i run refl] table_args_entries [OF args'] by blast
  obtain t where t: "written_ok t" "wt_entries t = sorted_entries final" "map_find (en_sst e') (sst_file_name i) = Some (wt_file t)"
    "\<forall>kv \<in> set (wt_entries t). br_min_key r \<le> fst kv \<and> fst kv \<le> br_max_key r"
    "br_id r = i" "br_file_name r = sst_file_name i"
    "br_min_seqno r = entries_min_seqno (sorted_entries final)" "br_max_seqno r = entries_max_seqno (sorted_entries final)"
    by (rule write_sstable_written [OF args' asc r(2)])
  show ?thesis
    using t False by (intro that [of t]) (simp add: output_for_def r(1) meta_of_def)
qed

section \<open>Publishing the output\<close>

lemma fold_readers_same:
  "i \<in> S \<or> i \<notin> tm_id ` set ts \<Longrightarrow>
     fold (\<lambda>t f. if tm_id t \<in> S then f else f(tm_id t := reader_new t)) ts f i = f i"
  by (induction ts arbitrary: f) auto

lemma fold_readers_new:
  "distinct (map tm_id ts) \<Longrightarrow> t \<in> set ts \<Longrightarrow> tm_id t \<notin> S \<Longrightarrow>
     fold (\<lambda>t f. if tm_id t \<in> S then f else f(tm_id t := reader_new t)) ts f (tm_id t) = reader_new t"
proof (induction ts arbitrary: f)
  case (Cons u ts)
  show ?case
  proof (cases "u = t")
    case True
    then have "tm_id t \<notin> tm_id ` set ts" using Cons.prems(1) by auto
    then show ?thesis using fold_readers_same [of "tm_id t" S ts] True Cons.prems(3) by simp
  next
    case False
    then show ?thesis using Cons by simp
  qed
qed simp

lemma contents_tables:
  assumes "tab_inv e T"
  shows "contents e T k = visible (first_hit (map (\<lambda>a. memtable_find (en_mem e a)) (memtables e) @
     map (\<lambda>t. table_map T (tm_id t)) (mf_tables (en_manifest e))) k)"
  using tab_invD(1) [OF assms] by (simp add: contents_layers comp_def)

text \<open>The output's sequence numbers lie within the inputs' ranges.\<close>

lemma output_range:
  assumes ord: "table_ranges e T" and tabs: "set ws \<subseteq> set (mf_tables (en_manifest e))"
    and m: "merge_of T ws us final" and out: "output_for dir i final t (Some a)"
  shows "tm_min_seqno a \<le> tm_max_seqno a" "\<exists>w \<in> set ws. tm_min_seqno w \<le> tm_min_seqno a"
    "\<exists>w \<in> set ws. tm_max_seqno a \<le> tm_max_seqno w"
    "kx \<in> set (wt_entries t) \<Longrightarrow> tm_min_seqno a \<le> me_seqno (snd kx) \<and> me_seqno (snd kx) \<le> tm_max_seqno a"
proof -
  note es = output_forD(4,5) [OF out] and seq = output_forD(8,9) [OF out]
  have bnd: "tm_min_seqno a \<le> me_seqno (snd kx) \<and> me_seqno (snd kx) \<le> tm_max_seqno a" if "kx \<in> set (wt_entries t)" for kx
    using entries_seqno_bounds [of "fst kx" "snd kx" "wt_entries t"] that unfolding seq by simp
  then show "kx \<in> set (wt_entries t) \<Longrightarrow> tm_min_seqno a \<le> me_seqno (snd kx) \<and> me_seqno (snd kx) \<le> tm_max_seqno a" .
  show "tm_min_seqno a \<le> tm_max_seqno a" using bnd es(2) by (meson hd_in_set order_trans)
  have from_input: "\<exists>w \<in> set ws. tm_min_seqno w \<le> me_seqno (snd kx) \<and> me_seqno (snd kx) \<le> tm_max_seqno w"
    if kx: "kx \<in> set (wt_entries t)" for kx
  proof -
    obtain w where "w \<in> set ws" "kx \<in> set (wt_entries (T (tm_id w)))"
      using merge_of_entries [OF m] kx es(1) by metis
    then show ?thesis using ord tabs by (auto simp: table_ranges_def)
  qed
  obtain kx ky where "kx \<in> set (wt_entries t)" "me_seqno (snd kx) = tm_min_seqno a"
    "ky \<in> set (wt_entries t)" "me_seqno (snd ky) = tm_max_seqno a"
    using entries_seqno_attained [OF es(2)] unfolding seq by force
  then show "\<exists>w \<in> set ws. tm_min_seqno w \<le> tm_min_seqno a" "\<exists>w \<in> set ws. tm_max_seqno a \<le> tm_max_seqno w"
    using from_input by metis+
qed

definition output_list :: "table_meta option \<Rightarrow> table_meta list" where
  "output_list added = (case added of None \<Rightarrow> [] | Some a \<Rightarrow> [a])"

lemma compact_publish_effect:
  assumes inv: "tab_inv e T" and ord: "table_ranges e T" and ne: "ws \<noteq> []"
    and tabs: "mf_tables (en_manifest e) = ts @ ws @ us" and m: "merge_of T ws us final"
    and i: "i = mf_next_sst_id (en_manifest e)" "unat i < 10 ^ 11" and out: "output_for (en_sst e) i final t added"
    and run: "compact_publish cx io (map tm_id ws) added e = (Inr removed, e')"
  obtains tx m' rd where "mf_tables m' = ts @ output_list added @ us" "ranges_descend (mf_tables m')" "ids_ok m'"
    "mf_next_sst_id m' = (if added = None then i else i + 1)" "removed = map tm_id ws"
    "\<forall>j. j \<noteq> i \<longrightarrow> rd j = en_reader e j" "\<forall>a. added = Some a \<longrightarrow> rd i = reader_new a"
    "e' = publish_version (e\<lparr>en_manifest := m', en_manifest_file := tx, en_readers := map tm_id (mf_tables m'), en_reader := rd\<rparr>)"
proof -
  note D = tab_invD [OF inv]
  let ?live = "mf_tables (en_manifest e)"
  obtain q m' tx where a: "apply_compaction (cx_json cx) (eo_manifest io) (map tm_id ws) added (en_manifest e, en_manifest_file e) = (q, m', tx)"
    by (metis prod_cases3)
  define rd where "rd = fold (\<lambda>t f. if tm_id t \<in> set (en_readers e) then f else f(tm_id t := reader_new t)) (mf_tables m') (en_reader e)"
  have q: "q = Inr ()" using run a by (cases q) (auto simp: compact_publish_def)
  have e': "e' = publish_version (e\<lparr>en_manifest := m', en_manifest_file := tx, en_readers := map tm_id (mf_tables m'), en_reader := rd\<rparr>)"
    and rem: "removed = filter (\<lambda>i. i \<in> set (map tm_id ws)) (en_readers e)"
    using run a q by (simp_all add: compact_publish_def rd_def)
  have "i \<noteq> - 1" using next_id_step(3) [OF i(2)] by auto
  moreover have "set ws \<subseteq> set ?live" by (auto simp: tabs)
  ultimately have "case added of None \<Rightarrow> True | Some a \<Rightarrow> tm_id a = mf_next_sst_id (en_manifest e) \<and> tm_id a \<noteq> - 1 \<and>
      tm_min_seqno a \<le> tm_max_seqno a \<and> (\<exists>w \<in> set ws. tm_min_seqno w \<le> tm_min_seqno a) \<and>
      (\<exists>w \<in> set ws. tm_max_seqno a \<le> tm_max_seqno w)"
    using output_range [OF ord _ m] out output_forD(1) i(1) by (cases added) fastforce+
  note A = apply_compaction_window [OF a tabs D(2) _ ne this]
  have desc: "ranges_descend ?live" using ord by (simp add: table_ranges_def)
  have tabs': "mf_tables m' = ts @ output_list added @ us" using A(1) desc by (simp add: output_list_def)
  have next_id: "mf_next_sst_id m' = (if added = None then i else i + 1)"
    using a out output_forD(1) next_id_step(2) [OF i(2)] i(1)
    by (cases added) (fastforce simp: apply_compaction_def Let_def split: prod.splits)+
  have d: "distinct (map tm_id (ts @ ws @ us))" using D(2) tabs by (simp add: ids_ok_def)
  have "removed = map tm_id ws"
  proof -
    have "filter (\<lambda>i. i \<in> tm_id ` set ws) (map tm_id ts) = []" "filter (\<lambda>i. i \<in> tm_id ` set ws) (map tm_id us) = []"
      using d by (auto simp: filter_empty_conv)
    then show ?thesis by (simp add: rem D(1) tabs)
  qed
  moreover have old: "j \<in> set (en_readers e)" if "j \<in> tm_id ` set (ts @ us)" for j
    using that by (auto simp: D(1) tabs)
  have rd_old: "rd j = en_reader e j" if "j \<noteq> i" for j
  proof -
    have "j \<in> set (en_readers e) \<or> j \<notin> tm_id ` set (mf_tables m')"
      using old [of j] that out output_forD(1) by (cases added) (force simp: tabs' output_list_def)+
    then show ?thesis unfolding rd_def by (rule fold_readers_same)
  qed
  moreover have "rd i = reader_new a" if a: "added = Some a" for a
  proof -
    have "tm_id a = i" using out a output_forD(1) by blast
    moreover have "i \<notin> set (en_readers e)" using D(7) i(1) live_idsI(1) by fastforce
    moreover have "distinct (map tm_id (mf_tables m'))" using A(3) desc by (simp add: ids_ok_def)
    moreover have "a \<in> set (mf_tables m')" by (simp add: tabs' a output_list_def)
    ultimately show ?thesis unfolding rd_def using fold_readers_new [of "mf_tables m'" a "set (en_readers e)"] by blast
  qed
  ultimately show ?thesis using that tabs' A(2,3) desc next_id e' by blast
qed

lemma first_hit_skip: "first_hit (xs @ (\<lambda>_. None) # ys) k = first_hit (xs @ ys) k"
  by (induction xs) (auto split: option.splits)

lemma compact_publish_inv:
  assumes inv: "base_inv e T" and ord: "order_inv e T" and ne: "ws \<noteq> []"
    and tabs: "mf_tables (en_manifest e) = ts @ ws @ us" and m: "merge_of T ws us final"
    and i: "i = mf_next_sst_id (en_manifest e)" "unat i < 10 ^ 11" and out: "output_for (en_sst e) i final t added"
    and run: "compact_publish cx io (map tm_id ws) added e = (Inr removed, e')"
  shows "base_inv e' (T(i := t))" and "order_inv e' (T(i := t))" and "contents e' (T(i := t)) = contents e T"
    and "u \<in> set (en_held e) \<Longrightarrow> view e' (T(i := t)) u = view e T u" and "en_held e' = en_held e"
    and "removed = map tm_id ws" and "same_mem e e'"
    and "j \<in> set removed \<Longrightarrow> j \<notin> set (en_readers e') \<and> en_reader e' j = en_reader e j"
    and "i \<le> mf_next_sst_id (en_manifest e')"
proof -
  note B = base_invD [OF inv]
  note D = tab_invD [OF B(4)]
  let ?T = "T(i := t)"
  have ranges: "table_ranges e T" using ord by (simp add: order_inv_def)
  obtain tx m' rd where M: "mf_tables m' = ts @ output_list added @ us" "ranges_descend (mf_tables m')" "ids_ok m'"
      "mf_next_sst_id m' = (if added = None then i else i + 1)" and rem: "removed = map tm_id ws"
    and rd: "\<forall>j. j \<noteq> i \<longrightarrow> rd j = en_reader e j" "\<forall>a. added = Some a \<longrightarrow> rd i = reader_new a"
    and e': "e' = publish_version (e\<lparr>en_manifest := m', en_manifest_file := tx, en_readers := map tm_id (mf_tables m'), en_reader := rd\<rparr>)"
    by (rule compact_publish_effect [OF B(4) ranges ne tabs m i out run])
  have K: "en_mem e' = en_mem e" "en_active e' = en_active e" "en_immutables e' = en_immutables e"
    "en_next_mem e' = en_next_mem e" "en_sst e' = en_sst e" "en_cache e' = en_cache e" "en_wal e' = en_wal e"
    "en_manifest e' = m'" "en_reader e' = rd" "en_readers e' = map tm_id (mf_tables m')"
    by (simp_all add: e')
  show H: "en_held e' = en_held e" by (simp add: e')
  show S: "same_mem e e'" by (simp add: same_mem_def K)
  show "removed = map tm_id ws" by (rule rem)
  have old: "j \<noteq> i" if "j \<in> live_ids e" for j using D(7) [OF that] i by auto
  have old_tab: "tm_id u \<noteq> i" if "u \<in> set (ts @ ws @ us)" for u using D(9) old that by (simp add: tabs)
  have T_old: "map (table_map ?T \<circ> tm_id) ts = map (\<lambda>t. table_map T (tm_id t)) ts"
    "map (table_map ?T \<circ> tm_id) us = map (\<lambda>t. table_map T (tm_id t)) us"
    using old_tab by (auto simp: table_map_upd intro!: map_cong)
  have live: "live_ids e' \<subseteq> live_ids e \<union> (if added = None then {} else {i})"
    using out output_forD(1) by (cases added) (fastforce simp: live_ids_def K H M(1) D(1) tabs output_list_def)+
  have next_le: "i \<le> mf_next_sst_id m'" "j < i \<Longrightarrow> j < mf_next_sst_id m'" for j
    using next_id_step(3,4) [OF i(2)] by (auto simp: M(4))
  then show "i \<le> mf_next_sst_id (en_manifest e')" by (simp add: K)
  show "j \<in> set removed \<Longrightarrow> j \<notin> set (en_readers e') \<and> en_reader e' j = en_reader e j"
  proof -
    assume "j \<in> set removed"
    then obtain w where w: "w \<in> set ws" "j = tm_id w" by (auto simp: rem)
    have "distinct (map tm_id (ts @ ws @ us))" using D(2) tabs by (simp add: ids_ok_def)
    then have "j \<notin> tm_id ` set ts" "j \<notin> tm_id ` set us" using w by auto
    moreover have ji: "j \<noteq> i" using old_tab w by auto
    then have "j \<notin> tm_id ` set (output_list added)"
      using out output_forD(1) by (cases added) (auto simp: output_list_def)
    ultimately show ?thesis using rd(1) ji by (simp add: K M(1) image_Un)
  qed
  have final: "map (table_map ?T \<circ> tm_id) (output_list added) = (if added = None then [] else [memtable_find final])"
  proof (cases added)
    case (Some a)
    then show ?thesis
      using output_forD(1,4) [of _ _ _ _ a] out by (simp add: output_list_def table_map_upd sorted_entries_map_of [symmetric])
  qed (simp add: output_list_def)
  have none: "memtable_find final = (\<lambda>_. None)" if "added = None"
    using out that by (simp add: output_for_def fun_eq_iff flip: sorted_entries_map_of)
  show C: "contents e' ?T = contents e T"
  proof
    fix k
    let ?mems = "map (\<lambda>a. memtable_find (en_mem e a)) (memtables e)" and ?map = "map (\<lambda>t. table_map T (tm_id t))"
    have "contents e' ?T k = visible (first_hit (?mems @ ?map ts @ (if added = None then [] else [memtable_find final]) @ ?map us) k)"
      by (simp only: contents_layers K M(1) same_memD(5) [OF S] map_append map_map final T_old)
    also have "\<dots> = visible (first_hit ((?mems @ ?map ts) @ memtable_find final # ?map us) k)"
      using none first_hit_skip [of "?mems @ ?map ts" "?map us" k] by (cases added) simp_all
    also have "\<dots> = visible (first_hit ((?mems @ ?map ts) @ ?map (ws @ us)) k)" using m by (rule merge_of_view)
    also have "\<dots> = contents e T k" by (simp add: contents_tables [OF B(4)] tabs)
    finally show "contents e' ?T k = contents e T k" .
  qed
  show V: "u \<in> set (en_held e) \<Longrightarrow> view e' ?T u = view e T u" for u
    using old live_idsI(2) by (intro view_new_table K) blast
  have "held_inv e' ?T"
    using B(5) V C by (simp add: held_inv_def H K)
  moreover have "tab_inv e' ?T"
    unfolding tab_inv_def K(5,6,8,9,10)
  proof (intro conjI)
    show "map tm_id (mf_tables m') = map tm_id (mf_tables m')" ..
    show "ids_ok m'" by (rule M(3))
    show "unat (mf_next_sst_id m') \<le> 10 ^ 11" using next_id_step(1) [OF i(2)] i(2) by (simp add: M(4))
    show "keys_ascending (en_sst e)" by (rule D(4))
    show "\<forall>j u. mf_next_sst_id m' \<le> j \<longrightarrow> cache_ok j u (en_cache e)"
      using D(8) next_le(1) i(1) by (meson order_trans)
    show "\<forall>u \<in> set (mf_tables m'). rd_meta (rd (tm_id u)) = u"
    proof
      fix u assume "u \<in> set (mf_tables m')"
      then have "u \<in> set (ts @ ws @ us) \<or> added = Some u"
        by (auto simp: M(1) output_list_def split: option.splits)
      then show "rd_meta (rd (tm_id u)) = u"
        using D(5) rd old_tab output_forD(1) out by (auto simp: tabs reader_new_def)
    qed
    show "\<forall>j \<in> live_ids e'. table_ok e' ?T j \<and> j < mf_next_sst_id m'"
    proof
      fix j assume "j \<in> live_ids e'"
      then consider "j \<in> live_ids e" | a where "j = i" "added = Some a"
        using live by (cases added) auto
      then show "table_ok e' ?T j \<and> j < mf_next_sst_id m'"
      proof cases
        case 1
        have "table_ok e' ?T j = table_ok e T j"
          using old [OF 1] by (intro table_ok_old_id) (simp_all add: K rd)
        then show ?thesis using D(6,7) [OF 1] next_le(2) i(1) by simp
      next
        case 2
        note O = output_forD [OF out [unfolded 2(2)]]
        have "reader_ok t (reader_new a)" using O(7) by (intro reader_ok_new) simp
        moreover have "cache_ok i t (en_cache e)" using D(8) i(1) by simp
        ultimately show ?thesis
          using 2 O next_id_step(3) [OF i(2)] rd(2)
          by (simp add: table_ok_def table_file_of_def K M(4) reader_new_def)
      qed
    qed
  qed
  moreover have "en_version e' = Some (current e')" unfolding e' by (rule current_publish)
  ultimately show "base_inv e' ?T"
    using B(2,3) by (simp add: base_inv_def K mem_inv_same [OF S])
  show "order_inv e' ?T"
  proof -
    have O: "mem_order e" "log_order e" using ord by (simp_all add: order_inv_def)
    have "tm_max_seqno u \<le> manifest_max_seqno (en_manifest e)" if "u \<in> set (mf_tables m')" for u
    proof -
      have "u \<in> set (mf_tables (en_manifest e)) \<or> added = Some u"
        using that by (auto simp: M(1) tabs output_list_def split: option.splits)
      then show ?thesis
      proof
        assume "added = Some u"
        moreover have "set ws \<subseteq> set (mf_tables (en_manifest e))" by (auto simp: tabs)
        ultimately obtain w where "w \<in> set ws" "tm_max_seqno u \<le> tm_max_seqno w"
          using output_range(3) [OF ranges _ m] out by blast
        moreover from this have "w \<in> set (mf_tables (en_manifest e))" by (simp add: tabs)
        ultimately show ?thesis using manifest_max_ge by (blast intro: order_trans)
      qed (rule manifest_max_ge)
    qed
    then have le: "manifest_max_seqno m' \<le> manifest_max_seqno (en_manifest e)" by (intro manifest_max_le) blast
    have seqs: "mem_seqnos e' = mem_seqnos e" by (simp add: fun_eq_iff mem_seqnos_def K)
    have "mem_order e'"
      using O(1) le unfolding mem_order_def seqs K same_memD(5) [OF S] by (meson le_less_trans)
    moreover have "log_order e'"
      using O(2) le unfolding log_order_def log_seqno_def seqs K same_memD(5) [OF S] by (meson order_trans)
    moreover have "table_ranges e' ?T"
      unfolding table_ranges_def K
    proof (intro conjI ballI)
      show "ranges_descend (mf_tables m')" by (rule M(2))
      fix u kx assume u: "u \<in> set (mf_tables m')" and kx: "kx \<in> set (wt_entries (?T (tm_id u)))"
      have "u \<in> set (ts @ ws @ us) \<or> added = Some u"
        using u by (auto simp: M(1) output_list_def split: option.splits)
      then have "tm_min_seqno u \<le> me_seqno (snd kx) \<and> me_seqno (snd kx) \<le> tm_max_seqno u"
      proof
        assume "u \<in> set (ts @ ws @ us)"
        then show ?thesis using old_tab kx ranges by (simp add: table_ranges_def tabs)
      next
        assume a: "added = Some u"
        have "set ws \<subseteq> set (mf_tables (en_manifest e))" by (auto simp: tabs)
        moreover have "kx \<in> set (wt_entries t)" using kx output_forD(1) [OF out [unfolded a]] by simp
        ultimately show ?thesis using output_range(4) [OF ranges _ m out [unfolded a]] by blast
      qed
      then show "tm_min_seqno u \<le> me_seqno (snd kx)" "me_seqno (snd kx) \<le> tm_max_seqno u" by blast+
    qed
    ultimately show ?thesis by (simp add: order_inv_def)
  qed
qed

end
