(* ===== verification/Engine_Steps.thy ===== *)
theory Engine_Steps
  imports Engine_Compact
begin

text \<open>
  The engine as its threads see it.  A step is what one thread does between two lock releases: a
  write, the start, the body or the end of a read, or a phase of the one flush or compaction that the
  creation mutex admits (\<open>work\<close>).  Steps of different threads interleave freely.
\<close>

section \<open>Steps\<close>

text \<open>How far the job that holds \<open>creation_mutex_\<close> has come.\<close>

datatype work =
    Idle
  | Flush_Picked nat u64
  | Flush_Written nat sst_build_result
  | Flush_Published sst_build_result
  | Compact_Merged "u64 list" memtable compaction_state compaction_job
  | Compact_Written "u64 list" "table_meta option" compaction_state compaction_job
  | Compact_Deleting "u64 list" compaction_state compaction_job

datatype event =
    Wrote bool bytes bytes bool
  | Answered version bytes "bytes option result"
  | Silent

text \<open>The premises on sequence numbers, ids and sizes are the limits of the formats: a counter that
  does not wrap, a number that fits its file name, entries below 1 GiB and files below 8 EiB.  A removal carries no value.\<close>

inductive step :: "engine_ctx \<Rightarrow> engine \<times> work \<Rightarrow> event \<Rightarrow> engine \<times> work \<Rightarrow> bool" for cx where
  s_write: "guarded_write io d k v e = (r, e') \<Longrightarrow> log_seqno e \<noteq> Some (- 1) \<Longrightarrow> (d \<longrightarrow> v = []) \<Longrightarrow>
    step cx (e, wk) (Wrote d k v (\<exists>s. r = Some (Inr s))) (e', wk)"
| s_woken: "resume_write io d k v e = (r, e') \<Longrightarrow> log_seqno e \<noteq> Some (- 1) \<Longrightarrow> (d \<longrightarrow> v = []) \<Longrightarrow>
    step cx (e, wk) (Wrote d k v (\<exists>s. r = Some (Inr s))) (e', wk)"
| s_read_begin: "get_begin k e = Inr v \<Longrightarrow> step cx (e, wk) Silent (grab_version v e, wk)"
| s_read_body: "v \<in> set (en_held e) \<Longrightarrow> get_version io v k e = (res, e', tr) \<Longrightarrow>
    step cx (e, wk) (Answered v k res) (e', wk)"
| s_read_end: "v \<in> set (en_held e) \<Longrightarrow> step cx (e, wk) Silent (release_version v e, wk)"
| s_flush_begin: "flush_pick e = Some (target, i) \<Longrightarrow> step cx (e, Idle) Silent (e, Flush_Picked target i)"
| s_flush_file: "flush_write cx io target i e = (Inr r, e') \<Longrightarrow> unat i < 10 ^ 11 \<Longrightarrow>
    table_args_ok (cx_shape cx) (en_mem e target) (en_config e) \<Longrightarrow>
    step cx (e, Flush_Picked target i) Silent (e', Flush_Written target r)"
| s_flush_file_fails: "flush_write cx io target i e = (Inl err, e') \<Longrightarrow> unat i < 10 ^ 11 \<Longrightarrow>
    step cx (e, Flush_Picked target i) Silent (e', Idle)"
| s_flush_swap: "flush_publish cx io r e = (Inr (), e') \<Longrightarrow>
    step cx (e, Flush_Written target r) Silent (e', Flush_Published r)"
| s_flush_log: "flush_cleanup io e = (Inr (), e') \<Longrightarrow>
    step cx (e, Flush_Published r) Silent (flush_count io r e', Idle)"
| s_flush_log_fails: "flush_cleanup io e = (Inl err, e') \<Longrightarrow> step cx (e, Flush_Published r) Silent (e', Idle)"
| s_compact_begin: "compact_merge cx inputs e = Inr (Some mr) \<Longrightarrow> compact_filter cx io (en_config e) mr = (final, job) \<Longrightarrow>
    step cx (e, Idle) Silent (e, Compact_Merged (mr_ids mr) final (mr_state mr) job)"
| s_compact_file: "compact_output cx io final e = (Inr added, e') \<Longrightarrow> unat (mf_next_sst_id (en_manifest e)) < 10 ^ 11 \<Longrightarrow>
    sorted_entries final = [] \<or> table_args_ok (cx_shape cx) final (en_config e) \<Longrightarrow>
    step cx (e, Compact_Merged ids final cs job) Silent (e', Compact_Written ids added cs job)"
| s_compact_file_fails: "compact_output cx io final e = (Inl err, e') \<Longrightarrow> unat (mf_next_sst_id (en_manifest e)) < 10 ^ 11 \<Longrightarrow>
    step cx (e, Compact_Merged ids final cs job) Silent (e', Idle)"
| s_compact_cancel: "en_cancel_compaction e \<Longrightarrow>
    step cx (e, Compact_Written ids added cs job) Silent (discard_output io added e, Idle)"
| s_compact_swap: "\<not> en_cancel_compaction e \<Longrightarrow> compact_publish cx io ids added e = (Inr removed, e') \<Longrightarrow>
    step cx (e, Compact_Written ids added cs job) Silent (e', Compact_Deleting removed cs job)"
| s_compact_delete: "step cx (e, Compact_Deleting (i # rest) cs job) Silent (delete_input io i e, Compact_Deleting rest cs job)"
| s_compact_end: "step cx (e, Compact_Deleting [] cs job) Silent (finish_job cx io cs job e, Idle)"
| s_start: "step cx (e, wk) Silent (start_background e, wk)"
| s_stop: "step cx (e, wk) Silent (stop_workers e, wk)"
| s_shutdown: "step cx (e, wk) Silent (e\<lparr>en_shutting_down := True\<rparr>, wk)"
| s_cancel: "step cx (e, wk) Silent (e\<lparr>en_cancel_compaction := True\<rparr>, wk)"

inductive_cases stepE: "step cx s ev s'"

section \<open>The specification\<close>

text \<open>The store is a map.  An acknowledged write changes it at its key; a write that failed may or may
  not have.  Everything else leaves it alone.\<close>

type_synonym store_map = "bytes \<Rightarrow> bytes option"

fun spec_step :: "store_map \<Rightarrow> event \<Rightarrow> store_map \<Rightarrow> bool" where
  "spec_step m (Wrote d k v acked) m' \<longleftrightarrow> m' = m(k := written_value d v) \<or> \<not> acked \<and> m' = m"
| "spec_step m (Answered v k res) m' \<longleftrightarrow> m' = m"
| "spec_step m Silent m' \<longleftrightarrow> m' = m"

section \<open>The invariant of the job\<close>

definition flush_written :: "engine \<Rightarrow> nat \<Rightarrow> sst_build_result \<Rightarrow> written \<Rightarrow> bool" where
  "flush_written e target r t \<longleftrightarrow> (let i = mf_next_sst_id (en_manifest e) in
     written_ok t \<and> wt_entries t = sorted_entries (en_mem e target) \<and> wt_entries t \<noteq> [] \<and>
     map_find (en_sst e) (sst_file_name i) = Some (wt_file t) \<and>
     (\<forall>kv \<in> set (wt_entries t). br_min_key r \<le> fst kv \<and> fst kv \<le> br_max_key r) \<and>
     br_id r = i \<and> br_file_name r = sst_file_name i \<and>
     br_min_seqno r = entries_min_seqno (wt_entries t) \<and> br_max_seqno r = entries_max_seqno (wt_entries t) \<and>
     unat i < 10 ^ 11)"

definition oldest_frozen :: "engine \<Rightarrow> nat \<Rightarrow> bool" where
  "oldest_frozen e target \<longleftrightarrow> en_immutables e \<noteq> [] \<and> target = last (en_immutables e)"

definition window :: "engine \<Rightarrow> table_meta list \<Rightarrow> table_meta list \<Rightarrow> u64 list \<Rightarrow> bool" where
  "window e ws us ids \<longleftrightarrow> ws \<noteq> [] \<and> ids = map tm_id ws \<and> (\<exists>ts. mf_tables (en_manifest e) = ts @ ws @ us)"

definition deletable :: "engine \<Rightarrow> u64 list \<Rightarrow> bool" where
  "deletable e removed \<longleftrightarrow> (\<forall>j \<in> set removed. j \<notin> set (en_readers e) \<and> j < mf_next_sst_id (en_manifest e) \<and>
     tm_file_name (rd_meta (en_reader e j)) = sst_file_name j)"

fun work_inv :: "engine \<Rightarrow> (u64 \<Rightarrow> written) \<Rightarrow> work \<Rightarrow> bool" where
  "work_inv e T Idle = True"
| "work_inv e T (Flush_Picked target i) \<longleftrightarrow> oldest_frozen e target \<and> i = mf_next_sst_id (en_manifest e)"
| "work_inv e T (Flush_Written target r) \<longleftrightarrow> oldest_frozen e target \<and> (\<exists>t. flush_written e target r t)"
| "work_inv e T (Flush_Published r) = True"
| "work_inv e T (Compact_Merged ids final cs job) \<longleftrightarrow> (\<exists>ws us. window e ws us ids \<and> merge_of T ws us final)"
| "work_inv e T (Compact_Written ids added cs job) \<longleftrightarrow> unat (mf_next_sst_id (en_manifest e)) < 10 ^ 11 \<and>
     (\<exists>ws us final t. window e ws us ids \<and> merge_of T ws us final \<and>
        output_for (en_sst e) (mf_next_sst_id (en_manifest e)) final t added)"
| "work_inv e T (Compact_Deleting removed cs job) \<longleftrightarrow> deletable e removed"

definition sys_inv :: "engine \<times> work \<Rightarrow> (u64 \<Rightarrow> written) \<Rightarrow> bool" where
  "sys_inv s T \<longleftrightarrow> base_inv (fst s) T \<and> order_inv (fst s) T \<and> work_inv (fst s) T (snd s)"

section \<open>What a step of another thread leaves alone\<close>

definition frame :: "engine \<Rightarrow> engine \<Rightarrow> bool" where
  "frame e e' \<longleftrightarrow> en_manifest e' = en_manifest e \<and> en_sst e' = en_sst e \<and> en_readers e' = en_readers e \<and>
     (\<forall>j. rd_meta (en_reader e' j) = rd_meta (en_reader e j)) \<and>
     (\<exists>xs. en_immutables e' = xs @ en_immutables e) \<and> (\<forall>a \<in> set (en_immutables e). en_mem e' a = en_mem e a)"

lemma frame_same: "same_mem e e' \<Longrightarrow> same_tables e e' \<Longrightarrow> frame e e'"
  by (simp add: frame_def same_memD same_tablesD)

lemma frame_trans:
  assumes "frame e e1" "frame e1 e2"
  shows "frame e e2"
proof -
  obtain xs ys where "en_immutables e1 = xs @ en_immutables e" "en_immutables e2 = ys @ en_immutables e1"
    using assms by (auto simp: frame_def)
  then show ?thesis using assms by (auto simp: frame_def)
qed

lemma frame_bookkeeping: "bookkeeping e e' \<Longrightarrow> frame e e'"
  by (intro frame_same) (simp_all add: bookkeeping_def)

lemma work_inv_frame:
  assumes f: "frame e e'" and w: "work_inv e T wk"
  shows "work_inv e' T wk"
proof -
  have K: "en_manifest e' = en_manifest e" "en_sst e' = en_sst e" "en_readers e' = en_readers e"
    "rd_meta (en_reader e' j) = rd_meta (en_reader e j)" for j
    using f by (simp_all add: frame_def)
  obtain xs where xs: "en_immutables e' = xs @ en_immutables e" using f by (auto simp: frame_def)
  have old: "oldest_frozen e' target \<and> en_mem e' target = en_mem e target" if "oldest_frozen e target" for target
    using that f xs by (auto simp: oldest_frozen_def frame_def)
  have win: "window e' = window e" by (simp add: fun_eq_iff window_def K)
  show ?thesis
  proof (cases wk)
    case (Flush_Picked target i)
    then show ?thesis using w old by (simp add: K)
  next
    case (Flush_Written target r)
    then have "flush_written e' target r = flush_written e target r"
      using w old by (simp add: fun_eq_iff flush_written_def K)
    then show ?thesis using Flush_Written w old by simp
  next
    case (Compact_Deleting removed cs job)
    then show ?thesis using w by (simp add: deletable_def K)
  qed (use w in \<open>simp_all add: K win\<close>)
qed

lemma mem_write_frame: "mem_inv e \<Longrightarrow> frame e (mem_write k v s d e)"
  by (auto simp: frame_def mem_write_def mem_inv_def memtables_def)

lemma rotate_frame: "mem_inv e \<Longrightarrow> frame e (rotate False e)"
proof -
  assume mem: "mem_inv e"
  have "en_immutables (rotate False e) = [en_active e] @ en_immutables e" by (simp add: rotate_def Let_def)
  then show "frame e (rotate False e)"
    using mem unfolding frame_def
    by (intro conjI exI [of _ "[en_active e]"])
      (auto simp: same_tablesD [OF rotate_keeps(9)] mem_inv_def memtables_def)
qed

lemma maybe_rotate_frame:
  assumes mem: "mem_inv e" and run: "maybe_rotate io False e = (r, e')"
  shows "frame e e'"
proof -
  have "e' = e \<or> (\<exists>w1. e' = e\<lparr>en_wal := Some w1\<rparr> \<or> e' = rotate False (e\<lparr>en_wal := Some w1\<rparr>))"
    using run by (auto simp: maybe_rotate_def split: if_splits option.splits prod.splits sum.splits)
  moreover have "mem_inv (e\<lparr>en_wal := Some w1\<rparr>)" for w1
    using mem by (simp add: mem_inv_def memtables_def)
  ultimately show ?thesis
    using rotate_frame frame_trans frame_bookkeeping [OF bookkeepingI(1)] frame_bookkeeping [OF bookkeepingI(3)] by metis
qed

lemma do_write_frame:
  assumes mem: "mem_inv e" and w: "en_wal e = Some w" and run: "do_write io tombstone key value e = (r, e')"
  shows "frame e e'"
  using run w
proof (cases rule: do_write_cases)
  case (not_logged err w1)
  then show ?thesis using frame_bookkeeping [OF bookkeepingI(1)] by simp
next
  case (logged s w1 e0 q)
  have M0: "mem_inv e0" using mem mem_inv_same [of e e0] logged(2) by (simp add: bookkeeping_def)
  have "frame e e0" using logged(2) by (rule frame_bookkeeping)
  moreover have "frame e0 (mem_write key value s tombstone e0)" using M0 by (rule mem_write_frame)
  moreover have "frame (mem_write key value s tombstone e0) e'"
    using mem_write_mem_inv [OF M0] logged(4) by (rule maybe_rotate_frame)
  ultimately show ?thesis using frame_trans by blast
qed

section \<open>Writes\<close>

lemma bookkeeping_order:
  assumes "bookkeeping e e'" "log_seqno e' = log_seqno e" "order_inv e T"
  shows "order_inv e' T"
  using assms order_inv_same [of e e' T] by (simp add: bookkeeping_def same_tables_def)

text \<open>A write, whether or not it waited: it fails before the log is asked, or it is \<open>do_write\<close> after
  bookkeeping.\<close>

definition writes :: "engine_io \<Rightarrow> bool \<Rightarrow> bytes \<Rightarrow> bytes \<Rightarrow> engine \<Rightarrow> u64 result option \<Rightarrow> engine \<Rightarrow> bool" where
  "writes io d k v e r e' \<longleftrightarrow> guarded_write io d k v e = (r, e') \<or> resume_write io d k v e = (r, e')"

lemma writes_intros:
  "guarded_write io d k v e = (r, e') \<Longrightarrow> writes io d k v e r e'"
  "resume_write io d k v e = (r, e') \<Longrightarrow> writes io d k v e r e'"
  by (simp_all add: writes_def)

lemma writes_cases:
  assumes "writes io d k v e r e'"
  obtains (quiet) "bookkeeping e e'" "log_seqno e' = log_seqno e" "\<forall>s. r \<noteq> Some (Inr s)"
  | (wrote) e1 q where "bookkeeping e e1" "log_seqno e1 = log_seqno e" "do_write io d k v e1 = (q, e')" "r = Some q" "en_wal e1 = en_wal e"
  using assms unfolding writes_def
proof (elim disjE)
  assume run: "guarded_write io d k v e = (r, e')"
  obtain c e1 where c: "ensure_write_capacity e = (c, e1)" by fastforce
  have bk: "bookkeeping e e1" using ensure_write_capacity_bookkeeping [of e] c by simp
  have seq: "log_seqno e1 = log_seqno e" "en_wal e1 = en_wal e"
    using c by (auto simp: ensure_write_capacity_def Let_def log_seqno_def split: if_splits)
  obtain q e2 where q: "do_write io d k v e1 = (q, e2)" by fastforce
  show thesis
    using run c q bk seq quiet wrote bookkeepingI(3) [of e]
    by (auto simp: guarded_write_def split: sum.splits if_splits option.splits)
next
  assume run: "resume_write io d k v e = (r, e')"
  let ?e = "e\<lparr>en_bg := (en_bg e)\<lparr>bg_stall_time_ms_total := bg_stall_time_ms_total (en_bg e) + eo_took io\<rparr>\<rparr>"
  have bk: "bookkeeping e ?e" by (simp add: bookkeeping_def same_mem_def same_tables_def)
  have seq: "log_seqno ?e = log_seqno e" "en_wal ?e = en_wal e" by (simp_all add: log_seqno_def)
  obtain q e2 where q: "do_write io d k v ?e = (q, e2)" by fastforce
  show thesis
  proof (cases "stall_over e")
    case False
    then have "r = None" "e' = e" using run by (simp_all add: resume_write_def)
    then show ?thesis using quiet bookkeepingI(3) [of e] by simp
  next
    case stalled: True
    show ?thesis
    proof (cases "stall_result ?e")
      case (Inl err)
      then have "(r, e') = (Some (Inl err), ?e)" using run stalled by (simp only: resume_write_def Let_def sum.case if_True not_True_eq_False if_False)
      then show ?thesis using quiet bk seq(1) by simp
    next
      case (Inr u)
      then have "(r, e') = (Some q, e2)" using run stalled q by (simp only: resume_write_def Let_def sum.case prod.case not_True_eq_False if_False)
      then show ?thesis using wrote [OF bk seq(1) _ _ seq(2)] q by simp
    qed
  qed
qed

section \<open>Each step keeps the invariant and follows the specification\<close>

text \<open>A held version sees what it saw before the step or what the store is after it.\<close>

definition follows :: "engine \<Rightarrow> (u64 \<Rightarrow> written) \<Rightarrow> event \<Rightarrow> engine \<times> work \<Rightarrow> bool" where
  "follows e T ev s' \<longleftrightarrow> (\<exists>T'. sys_inv s' T' \<and> spec_step (contents e T) ev (contents (fst s') T') \<and>
     (\<forall>u \<in> set (en_held (fst s')). u \<in> set (en_held e) \<and> view (fst s') T' u = view e T u \<or>
        view (fst s') T' u = contents (fst s') T'))"

lemma sys_invD:
  assumes "sys_inv (e, wk) T"
  shows "base_inv e T" "order_inv e T" "work_inv e T wk" "mem_inv e" "tab_inv e T" "held_inv e T" "table_ranges e T"
  using assms base_invD(3,4,5) [of e T] by (auto simp: sys_inv_def order_inv_def)

text \<open>A step that changes no meaning and moves on to \<open>wk'\<close>.\<close>

lemma follows_silent:
  assumes "base_inv e' T'" "order_inv e' T'" "work_inv e' T' wk'" "contents e' T' = contents e T"
    and "\<And>u. u \<in> set (en_held e') \<Longrightarrow> u \<in> set (en_held e) \<and> view e' T' u = view e T u \<or> view e' T' u = contents e' T'"
  shows "follows e T Silent (e', wk')"
  unfolding follows_def sys_inv_def using assms by (intro exI [of _ T']) simp

lemma bookkeeping_follows:
  assumes I: "sys_inv (e, wk) T" and bk: "bookkeeping e e'" "log_seqno e' = log_seqno e"
    and wk': "work_inv e' T wk'"
  shows "follows e T Silent (e', wk')"
proof -
  note B = bookkeeping_inv [OF bk(1) sys_invD(1) [OF I]]
  show ?thesis
    using B bookkeeping_order [OF bk sys_invD(2) [OF I]] wk' by (intro follows_silent) auto
qed

lemma write_follows:
  assumes I: "sys_inv (e, wk) T" and w: "write_effect d k v T e acked e'" "order_inv e' T" "frame e e'"
  shows "follows e T (Wrote d k v acked) (e', wk)"
proof -
  have "work_inv e' T wk" using w(3) sys_invD(3) [OF I] by (rule work_inv_frame)
  then show ?thesis
    using w(1,2) unfolding follows_def sys_inv_def write_effect_def by auto
qed

lemma writes_keeps:
  assumes I: "sys_inv (e, wk) T" and run: "writes io d k v e r e'" and room: "log_seqno e \<noteq> Some (- 1)"
  shows "order_inv e' T" and "frame e e'" and "write_effect d k v T e (\<exists>s. r = Some (Inr s)) e'"
proof -
  have M: "mem_inv e1" if "bookkeeping e e1" for e1
    using mem_inv_same [of e e1] that sys_invD(4) [OF I] by (simp add: bookkeeping_def)
  have "order_inv e' T \<and> frame e e' \<and> write_effect d k v T e (\<exists>s. r = Some (Inr s)) e'"
    using run
  proof (cases rule: writes_cases)
    case quiet
    then show ?thesis
      using bookkeeping_order [OF quiet(1,2) sys_invD(2) [OF I]] frame_bookkeeping [OF quiet(1)]
        write_effect_none [OF sys_invD(1) [OF I] quiet(1)] by simp
  next
    case (wrote e1 q)
    note base = bookkeeping_inv(1) [OF wrote(1) sys_invD(1) [OF I]]
    obtain w where w: "en_wal e1 = Some w" using base base_invD(2) by blast
    have O: "order_inv e1 T" using wrote(1,2) sys_invD(2) [OF I] by (rule bookkeeping_order)
    have "frame e e'"
      using do_write_frame [OF M [OF wrote(1)] w wrote(3)] by (rule frame_trans [OF frame_bookkeeping [OF wrote(1)]])
    then show ?thesis
      using do_write_order [OF O M [OF wrote(1)] _ wrote(3)] room wrote(2,4)
        write_effect_bookkeeping [OF wrote(1) sys_invD(1) [OF I] do_write_inv [OF base wrote(3)]] by simp
  qed
  then show "order_inv e' T" "frame e e'" "write_effect d k v T e (\<exists>s. r = Some (Inr s)) e'" by blast+
qed

lemma writes_follows:
  assumes "sys_inv (e, wk) T" "writes io d k v e r e'" "log_seqno e \<noteq> Some (- 1)"
  shows "follows e T (Wrote d k v (\<exists>s. r = Some (Inr s))) (e', wk)"
  using write_follows [OF assms(1)] writes_keeps [OF assms] by blast

section \<open>Reads\<close>

lemma grab_follows:
  assumes I: "sys_inv (e, wk) T" and run: "get_begin k e = Inr v"
  shows "follows e T Silent (grab_version v e, wk)" and "v = current e"
proof -
  let ?e = "grab_version v e"
  note B = base_invD [OF sys_invD(1) [OF I]]
  show v: "v = current e"
    using run B(1) by (auto simp: get_begin_def and_then_Inr_iff split: if_splits)
  have fields: "en_readers ?e = en_readers e" "en_manifest ?e = en_manifest e" "en_reader ?e = en_reader e"
    "en_sst ?e = en_sst e" "en_cache ?e = en_cache e" "en_wal ?e = en_wal e" "en_version ?e = en_version e"
    "en_next_mem ?e = en_next_mem e" "en_active ?e = en_active e" "en_held ?e = v # en_held e"
    by (simp_all add: grab_version_def)
  have M: "same_mem e ?e" by (simp add: grab_version_def same_mem_def)
  have K: "same_mem e ?e" "contents ?e T = contents e T" "view ?e T u = view e T u" "current ?e = current e" for u
    by (rule M, simp_all only: contents_same [OF M fields(1)] view_cong [OF same_memD(1) [OF M]])
      (simp add: current_def grab_version_def)
  have live: "live_ids ?e = live_ids e" by (auto simp: live_ids_def grab_version_def v current_def)
  have ok: "table_ok ?e = table_ok e" by (rule table_ok_cong) (simp_all add: grab_version_def)
  have "tab_inv ?e T" using B(4) unfolding tab_inv_def live ok fields .
  moreover have "held_inv ?e T"
    using B(3,5) unfolding held_inv_def fields K(2,3)
    by (auto simp: v current_def contents_def mem_inv_def memtables_def)
  ultimately have "base_inv ?e T"
    using B(1,2,3) unfolding base_inv_def mem_inv_same [OF K(1)] fields K(4) by blast
  moreover have "order_inv ?e T"
    using order_inv_same [OF K(1) fields(2), of T] sys_invD(2) [OF I] by (simp add: log_seqno_def fields)
  moreover have cv: "view e T v = contents e T" by (simp add: v contents_def)
  have "frame e ?e" by (auto simp: frame_def grab_version_def)
  then have "work_inv ?e T wk" using sys_invD(3) [OF I] by (rule work_inv_frame)
  ultimately show "follows e T Silent (?e, wk)"
    using K(2,3) cv by (intro follows_silent) (auto simp: fields(10))
qed

lemma read_follows:
  assumes I: "sys_inv (e, wk) T" and v: "v \<in> set (en_held e)" and run: "get_version io v k e = (res, e', tr)"
  shows "follows e T (Answered v k res) (e', wk)"
    and "res = Inr (view e T v k) \<or> (\<exists>i \<in> set (ve_tables v). \<not> eo_open io i) \<and> res = Inl (Thrown IOFailure)"
proof -
  note B = sys_invD [OF I]
  note G = get_version_inv [OF B(1) disjI2 [OF v] run]
  show "res = Inr (view e T v k) \<or> (\<exists>i \<in> set (ve_tables v). \<not> eo_open io i) \<and> res = Inl (Thrown IOFailure)" by (rule G(4))
  have "\<forall>i \<in> set (ve_tables v). table_ok e T i" using tab_invD(6) [OF B(5)] live_idsI(2) [OF v] by blast
  then have ro: "reads_only (set (ve_tables v)) e e'" using get_version_step [OF _ run] by blast
  note K = reads_only_keeps [OF ro] and M = reads_only_same [OF ro]
  have "frame e e'" unfolding frame_def K by auto
  then have "work_inv e' T wk" using B(3) by (rule work_inv_frame)
  moreover have "order_inv e' T" using order_inv_same [OF M K(5), of T] B(2) by (simp add: log_seqno_def K)
  ultimately have "sys_inv (e', wk) T" using G(1) by (simp add: sys_inv_def)
  then show "follows e T (Answered v k res) (e', wk)"
    unfolding follows_def using G(2,3) K(10) by (intro exI [of _ T]) simp
qed

lemma release_follows:
  assumes I: "sys_inv (e, wk) T"
  shows "follows e T Silent (release_version v e, wk)"
proof -
  let ?e = "release_version v e"
  note B = base_invD [OF sys_invD(1) [OF I]]
  note D = tab_invD [OF B(4)]
  define gone where "gone = filter (\<lambda>i. i \<notin> set (en_readers e) \<and> (\<forall>u \<in> set (remove1 v (en_held e)). i \<notin> set (ve_tables u))) (ve_tables v)"
  have fields: "en_readers ?e = en_readers e" "en_manifest ?e = en_manifest e" 
    "en_sst ?e = en_sst e" "en_cache ?e = en_cache e" "en_wal ?e = en_wal e" "en_version ?e = en_version e"
    "en_next_mem ?e = en_next_mem e" "en_active ?e = en_active e" "en_held ?e = remove1 v (en_held e)"
    "en_immutables ?e = en_immutables e" "en_mem ?e = en_mem e" "en_version_id ?e = en_version_id e"
    by (simp_all add: release_version_def Let_def)
  have rd: "en_reader ?e i = (if i \<in> set gone then close_file (en_reader e i) else en_reader e i)" for i
    by (simp add: release_version_def Let_def close_all_readers flip: gone_def)
  have M: "same_mem e ?e" by (simp add: same_mem_def fields)
  have held: "set (en_held ?e) \<subseteq> set (en_held e)" by (simp add: fields set_remove1_subset)
  have live: "live_ids ?e \<subseteq> live_ids e" using held by (auto simp: live_ids_def fields(1))
  have keep: "i \<notin> set gone" if "i \<in> live_ids ?e" for i
    using that by (auto simp: gone_def live_ids_def fields)
  have ok: "table_ok ?e T i = table_ok e T i" if "i \<in> live_ids ?e" for i
    using keep [OF that] by (simp add: table_ok_def table_file_of_def rd fields)
  have "tab_inv ?e T"
    unfolding tab_inv_def fields
  proof (intro conjI)
    show "\<forall>t \<in> set (mf_tables (en_manifest e)). rd_meta (en_reader ?e (tm_id t)) = t" using D(5) by (simp add: rd)
    show "\<forall>i \<in> live_ids ?e. table_ok ?e T i \<and> i < mf_next_sst_id (en_manifest e)" using D(6,7) live ok by blast
  qed (use D in blast)+
  moreover have c: "contents ?e T = contents e T" by (simp only: contents_same [OF M fields(1)])
  moreover have vw: "view ?e T u = view e T u" for u by (simp only: view_cong [OF fields(11)])
  moreover have "held_inv ?e T"
    using B(5) held unfolding held_inv_def c vw fields(7,8) by blast
  moreover have "en_version ?e = Some (current ?e)" using B(1) by (simp add: current_def fields)
  ultimately have "base_inv ?e T"
    using B(2,3) by (simp add: base_inv_def mem_inv_same [OF M] fields)
  moreover have "order_inv ?e T"
    using order_inv_same [OF M fields(2), of T] sys_invD(2) [OF I] by (simp add: log_seqno_def fields)
  moreover have "frame e ?e" by (auto simp: frame_def fields rd)
  then have "work_inv ?e T wk" using sys_invD(3) [OF I] by (rule work_inv_frame)
  ultimately show ?thesis using c vw held by (intro follows_silent) auto
qed

section \<open>Flush\<close>

lemma new_file_follows:
  assumes I: "sys_inv (e, wk) T" and nf: "new_file (mf_next_sst_id (en_manifest e)) e e'"
    and small: "unat (mf_next_sst_id (en_manifest e)) < 10 ^ 11" and wk': "work_inv e' T wk'"
  shows "follows e T Silent (e', wk')"
proof -
  note K = new_file_keeps [OF nf] and N = new_file_inv [OF sys_invD(1) [OF I] nf small]
  have M: "same_mem e e'" by (simp add: same_mem_def K)
  have "order_inv e' T" using order_inv_same [OF M K(7), of T] sys_invD(2) [OF I] by (simp add: log_seqno_def K)
  then show ?thesis using N wk' by (intro follows_silent) (auto simp: K(9))
qed

lemma flush_file_follows:
  assumes I: "sys_inv (e, Flush_Picked target i) T" and run: "flush_write cx io target i e = (Inr r, e')"
    and small: "unat i < 10 ^ 11" and args: "table_args_ok (cx_shape cx) (en_mem e target) (en_config e)"
  shows "follows e T Silent (e', Flush_Written target r)"
proof -
  have old: "oldest_frozen e target" and i: "i = mf_next_sst_id (en_manifest e)" using sys_invD(3) [OF I] by simp_all
  have asc: "keys_ascending (en_sst e)" using tab_invD(4) [OF sys_invD(5) [OF I]] .
  note nf = flush_write_new_file(1) [OF asc run] and wr = flush_write_new_file(2) [OF asc run refl]
  note K = new_file_keeps [OF nf]
  obtain t where t: "written_ok t" "wt_entries t = sorted_entries (en_mem e target)"
    "map_find (en_sst e') (sst_file_name i) = Some (wt_file t)"
    "\<forall>kv \<in> set (wt_entries t). br_min_key r \<le> fst kv \<and> fst kv \<le> br_max_key r"
    "br_id r = i" "br_file_name r = sst_file_name i"
    "br_min_seqno r = entries_min_seqno (sorted_entries (en_mem e target))"
    "br_max_seqno r = entries_max_seqno (sorted_entries (en_mem e target))"
    by (rule write_sstable_written [OF args asc wr])
  have "sorted_entries (en_mem e target) \<noteq> []" using args by (simp add: table_args_ok_def)
  then have "flush_written e' target r t"
    using t small by (simp add: flush_written_def K flip: i)
  then have "work_inv e' T (Flush_Written target r)" using old by (auto simp: oldest_frozen_def K)
  then show ?thesis using new_file_follows [OF I] nf small i by simp
qed

lemma flush_file_fails_follows:
  assumes I: "sys_inv (e, Flush_Picked target i) T" and run: "flush_write cx io target i e = (Inl err, e')"
    and small: "unat i < 10 ^ 11"
  shows "follows e T Silent (e', Idle)"
proof -
  have "keys_ascending (en_sst e)" using tab_invD(4) [OF sys_invD(5) [OF I]] .
  from flush_write_new_file(1) [OF this run] show ?thesis
    using new_file_follows [OF I, of e' Idle] small sys_invD(3) [OF I] by simp
qed

lemma flush_swap_follows:
  assumes I: "sys_inv (e, Flush_Written target r) T" and run: "flush_publish cx io r e = (Inr (), e')"
  shows "follows e T Silent (e', Flush_Published r)"
proof -
  let ?i = "mf_next_sst_id (en_manifest e)" and ?meta = "meta_of r (eo_now_text io)"
  obtain t where old: "oldest_frozen e target" and t: "flush_written e target r t" using sys_invD(3) [OF I] by auto
  note W = t [unfolded flush_written_def Let_def]
  have tgt: "target = last (en_immutables e)" "en_immutables e \<noteq> []" using old by (simp_all add: oldest_frozen_def)
  have P: "base_inv e' (T(?i := t))" "contents e' (T(?i := t)) = contents e T" "en_held e' = en_held e"
      "en_immutables e' = butlast (en_immutables e)"
    and V: "u \<in> set (en_held e) \<Longrightarrow> view e' (T(?i := t)) u = view e T u" for u
    using flush_publish_inv [OF sys_invD(1) [OF I] run refl] W tgt by blast+
  obtain m tx where m: "mf_tables m = ?meta # mf_tables (en_manifest e)"
    and e': "e' = publish_version (e\<lparr>en_manifest := m, en_manifest_file := tx, en_readers := ?i # en_readers e,
       en_reader := (en_reader e)(?i := reader_new ?meta), en_immutables := butlast (en_immutables e)\<rparr>)"
    using flush_publish_front [OF run, of ?i] W by blast
  have "order_inv e' (T(?i := t))"
  proof (rule flush_order [OF sys_invD(2) [OF I] _ tgt])
    show "memtable_ok (en_mem e target)"
      using sys_invD(4) [OF I] tgt by (simp add: mem_inv_def memtables_def)
    show "wt_entries t = sorted_entries (en_mem e target)" "wt_entries t \<noteq> []" using W by blast+
    show "tm_id ?meta = ?i" "tm_min_seqno ?meta = entries_min_seqno (wt_entries t)"
      "tm_max_seqno ?meta = entries_max_seqno (wt_entries t)"
      using W unfolding meta_of_def by simp_all
    show "\<forall>u \<in> set (mf_tables (en_manifest e)). tm_id u \<noteq> ?i"
      using tab_invD(2) [OF sys_invD(5) [OF I]] by (auto simp: ids_ok_def)
    show "mf_tables (en_manifest e') = ?meta # mf_tables (en_manifest e)" by (simp add: e' m)
    show "en_mem e' = en_mem e" "en_active e' = en_active e" "en_immutables e' = butlast (en_immutables e)"
      "log_seqno e' = log_seqno e"
      by (simp_all add: e' log_seqno_def)
  qed
  then show ?thesis using P V by (intro follows_silent [OF P(1)]) auto
qed

lemma flush_cleanup_seqno: "flush_cleanup io e = (r, e') \<Longrightarrow> log_seqno e' = log_seqno e"
  by (auto simp: flush_cleanup_def log_seqno_def remove_segments_covered_def
      split: option.splits prod.splits sum.splits dest: remove_loop_last_seqno)

lemma flush_log_follows:
  assumes I: "sys_inv (e, Flush_Published r) T" and run: "flush_cleanup io e = (q, e')"
  shows "follows e T Silent (flush_count io r e', Idle)" "follows e T Silent (e', Idle)"
proof -
  have bk: "bookkeeping e e'" using run by (rule flush_cleanup_bookkeeping)
  have seq: "log_seqno e' = log_seqno e" using run by (rule flush_cleanup_seqno)
  show "follows e T Silent (e', Idle)" using bookkeeping_follows [OF I bk seq] by simp
  have "bookkeeping e (flush_count io r e')" "log_seqno (flush_count io r e') = log_seqno e"
    using bk seq by (simp_all add: bookkeeping_def same_mem_def same_tables_def flush_count_def log_seqno_def)
  from bookkeeping_follows [OF I this] show "follows e T Silent (flush_count io r e', Idle)" by simp
qed

section \<open>Compaction\<close>

lemma compact_begin_follows:
  assumes I: "sys_inv (e, Idle) T" and run: "compact_merge cx inputs e = Inr (Some mr)"
    and filt: "compact_filter cx io (en_config e) mr = (final, job)"
  shows "follows e T Silent (e, Compact_Merged (mr_ids mr) final (mr_state mr) job)"
proof -
  note B = sys_invD [OF I]
  obtain ts ws us where w: "mf_tables (en_manifest e) = ts @ ws @ us" "ws \<noteq> []" "mr_ids mr = map tm_id ws"
    "mr_live mr = mf_tables (en_manifest e)" "memtable_ok (mr_merged mr)" "memtable_find (mr_merged mr) = hits T ws"
    by (rule compact_merge_step [OF B(5) run])
  have "merge_of T ws us final"
    by (rule compact_filter_step [OF B(7) tab_invD(2) [OF B(5)] w(1,3,4,5,6) filt])
  moreover have "window e ws us (mr_ids mr)" using w by (auto simp: window_def)
  ultimately have "work_inv e T (Compact_Merged (mr_ids mr) final (mr_state mr) job)" by auto
  then show ?thesis using B by (intro follows_silent) auto
qed

lemma compact_file_follows:
  assumes I: "sys_inv (e, Compact_Merged ids final cs job) T" and run: "compact_output cx io final e = (Inr added, e')"
    and small: "unat (mf_next_sst_id (en_manifest e)) < 10 ^ 11"
    and args: "sorted_entries final = [] \<or> table_args_ok (cx_shape cx) final (en_config e)"
  shows "follows e T Silent (e', Compact_Written ids added cs job)"
proof -
  have asc: "keys_ascending (en_sst e)" using tab_invD(4) [OF sys_invD(5) [OF I]] .
  note nf = compact_output_step(1) [OF asc refl run]
  note K = new_file_keeps [OF nf]
  obtain ws us where w: "window e ws us ids" "merge_of T ws us final" using sys_invD(3) [OF I] by auto
  obtain t where "output_for (en_sst e') (mf_next_sst_id (en_manifest e)) final t added"
    by (rule compact_output_for [OF asc refl args run])
  moreover have "window e' ws us ids" using w(1) by (simp add: window_def K)
  ultimately have "work_inv e' T (Compact_Written ids added cs job)" using w(2) small by (auto simp: K)
  then show ?thesis using new_file_follows [OF I nf small] by simp
qed

lemma compact_file_fails_follows:
  assumes I: "sys_inv (e, Compact_Merged ids final cs job) T" and run: "compact_output cx io final e = (Inl err, e')"
    and small: "unat (mf_next_sst_id (en_manifest e)) < 10 ^ 11"
  shows "follows e T Silent (e', Idle)"
  using new_file_follows [OF I compact_output_step(1) [OF tab_invD(4) [OF sys_invD(5) [OF I]] refl run] small] by simp

lemma compact_cancel_follows:
  assumes I: "sys_inv (e, Compact_Written ids added cs job) T"
  shows "follows e T Silent (discard_output io added e, Idle)"
proof -
  let ?i = "mf_next_sst_id (en_manifest e)"
  obtain ws us final t where out: "output_for (en_sst e) ?i final t added" and small: "unat ?i < 10 ^ 11"
    using sys_invD(3) [OF I] by auto
  have asc: "keys_ascending (en_sst e)" using tab_invD(4) [OF sys_invD(5) [OF I]] .
  have "discard_output io added e = e\<lparr>en_sst := en_sst e, en_bg := en_bg e\<rparr> \<or>
      discard_output io added e = e\<lparr>en_sst := map_erase (sst_file_name ?i) (en_sst e), en_bg := en_bg e\<rparr>"
  proof (cases added)
    case (Some a)
    then show ?thesis using output_forD(2) [of _ ?i final t a] out by (simp add: discard_output_def)
  qed (simp add: discard_output_def)
  moreover have "keys_ascending (map_erase (sst_file_name ?i) (en_sst e))" using asc by (rule keys_ascending_erase)
  moreover have "\<forall>name. name \<noteq> sst_file_name ?i \<longrightarrow>
      map_find (map_erase (sst_file_name ?i) (en_sst e)) name = map_find (en_sst e) name"
    by (simp add: map_find_erase [OF asc])
  ultimately have "new_file ?i e (discard_output io added e)"
    unfolding new_file_def using asc by metis
  then show ?thesis using new_file_follows [OF I _ small] by simp
qed

lemma compact_swap_follows:
  assumes I: "sys_inv (e, Compact_Written ids added cs job) T" and run: "compact_publish cx io ids added e = (Inr removed, e')"
  shows "follows e T Silent (e', Compact_Deleting removed cs job)"
proof -
  let ?i = "mf_next_sst_id (en_manifest e)"
  note B = sys_invD [OF I]
  obtain ws us final t where win: "window e ws us ids" and m: "merge_of T ws us final"
    and out: "output_for (en_sst e) ?i final t added" and small: "unat ?i < 10 ^ 11"
    using B(3) by auto
  obtain ts where w: "mf_tables (en_manifest e) = ts @ ws @ us" "ws \<noteq> []" "ids = map tm_id ws"
    using win by (auto simp: window_def)
  note P = compact_publish_inv [OF B(1,2) w(2,1) m refl small out run [unfolded w(3)]]
  have "deletable e' removed"
    unfolding deletable_def
  proof
    fix j assume j: "j \<in> set removed"
    then obtain w where t: "w \<in> set (mf_tables (en_manifest e))" "j = tm_id w" using P(6) w(1) by auto
    note D = tab_invD [OF B(5)]
    have live: "j \<in> live_ids e" using D(9) t by blast
    have "tm_file_name (rd_meta (en_reader e j)) = sst_file_name j" using D(6) [OF live] by (simp add: table_ok_def)
    moreover have "j < mf_next_sst_id (en_manifest e')" using D(7) [OF live] P(9) by (rule less_le_trans)
    ultimately show "j \<notin> set (en_readers e') \<and> j < mf_next_sst_id (en_manifest e') \<and>
        tm_file_name (rd_meta (en_reader e' j)) = sst_file_name j"
      using P(8) [OF j] by simp
  qed
  then have "work_inv e' (T(?i := t)) (Compact_Deleting removed cs job)" by simp
  then show ?thesis using P(4,5) by (intro follows_silent [OF P(1,2) _ P(3)]) simp_all
qed

lemma compact_delete_follows:
  assumes I: "sys_inv (e, Compact_Deleting (i # rest) cs job) T"
  shows "follows e T Silent (delete_input io i e, Compact_Deleting rest cs job)"
proof (cases "table_held e i")
  case True
  then have "delete_input io i e = e" by (simp add: delete_input_def Let_def)
  then show ?thesis using sys_invD [OF I] by (intro follows_silent) (auto simp: deletable_def)
next
  case False
  let ?e = "delete_input io i e"
  note B = base_invD [OF sys_invD(1) [OF I]]
  note D = tab_invD [OF B(4)]
  have del: "i \<notin> set (en_readers e)" "i < mf_next_sst_id (en_manifest e)" "tm_file_name (rd_meta (en_reader e i)) = sst_file_name i"
    "deletable e rest"
    using sys_invD(3) [OF I] by (simp_all add: deletable_def)
  have gone: "i \<notin> live_ids e" using del(1) False by (auto simp: live_ids_def table_held_def)
  have small: "unat j < 10 ^ 11" if "j < mf_next_sst_id (en_manifest e)" for j
    using that D(3) by (simp add: word_less_nat_alt)
  have fields: "en_readers ?e = en_readers e" "en_manifest ?e = en_manifest e" "en_cache ?e = en_cache e" "en_wal ?e = en_wal e"
    "en_version ?e = en_version e" "en_next_mem ?e = en_next_mem e" "en_active ?e = en_active e" "en_held ?e = en_held e"
    "en_immutables ?e = en_immutables e" "en_mem ?e = en_mem e" "en_version_id ?e = en_version_id e"
    and sst: "en_sst ?e \<in> {en_sst e, map_erase (sst_file_name i) (en_sst e)}"
    and rd: "en_reader ?e = (en_reader e)(i := close_file (en_reader e i))"
    using False del(3) by (simp_all add: delete_input_def Let_def)
  have M: "same_mem e ?e" by (simp add: same_mem_def fields)
  have live: "live_ids ?e = live_ids e" by (simp add: live_ids_def fields)
  have ok: "table_ok ?e T j" if "j \<in> live_ids e" for j
  proof -
    have j: "table_ok e T j" "j \<noteq> i" using D(6) [OF that] that gone by auto
    have "sst_file_name j \<noteq> sst_file_name i"
      using table_names_differ(2) [OF small [OF D(7) [OF that]] small [OF del(2)]] j(2) by blast
    then have "map_find (en_sst ?e) (sst_file_name j) = map_find (en_sst e) (sst_file_name j)"
      using sst by (auto simp: map_find_erase [OF D(4)])
    then show ?thesis
      using j by (auto simp: table_ok_def table_file_of_def rd fields)
  qed
  have "tab_inv ?e T"
    unfolding tab_inv_def fields live
  proof (intro conjI)
    show "\<forall>t \<in> set (mf_tables (en_manifest e)). rd_meta (en_reader ?e (tm_id t)) = t" using D(5) by (auto simp: rd)
    show "\<forall>i \<in> live_ids e. table_ok ?e T i \<and> i < mf_next_sst_id (en_manifest e)" using D(7) ok by blast
    show "keys_ascending (en_sst ?e)" using sst D(4) keys_ascending_erase by auto
  qed (use D in blast)+
  moreover have c: "contents ?e T = contents e T" by (simp only: contents_same [OF M fields(1)])
  moreover have vw: "view ?e T u = view e T u" for u by (simp only: view_cong [OF fields(10)])
  moreover have "held_inv ?e T" using B(5) unfolding held_inv_same [OF M fields(1,8)] .
  moreover have "en_version ?e = Some (current ?e)" using B(1) by (simp add: current_def fields)
  ultimately have "base_inv ?e T"
    using B(2,3) by (simp add: base_inv_def mem_inv_same [OF M] fields)
  moreover have "order_inv ?e T"
    using order_inv_same [OF M fields(2), of T] sys_invD(2) [OF I] by (simp add: log_seqno_def fields)
  moreover have "work_inv ?e T (Compact_Deleting rest cs job)"
    using del(4) by (simp add: deletable_def fields rd)
  ultimately show ?thesis using c vw by (intro follows_silent) (auto simp: fields)
qed

lemma finish_job_bookkeeping: "bookkeeping e (finish_job cx io cs job e)" "log_seqno (finish_job cx io cs job e) = log_seqno e"
  by (simp_all add: finish_job_def bookkeeping_def same_mem_def same_tables_def log_seqno_def)

lemma flags_bookkeeping:
  "bookkeeping e (start_background e)" "bookkeeping e (stop_workers e)"
  "bookkeeping e (e\<lparr>en_shutting_down := True\<rparr>)" "bookkeeping e (e\<lparr>en_cancel_compaction := True\<rparr>)"
  "log_seqno (start_background e) = log_seqno e" "log_seqno (stop_workers e) = log_seqno e"
  "log_seqno (e\<lparr>en_shutting_down := True\<rparr>) = log_seqno e" "log_seqno (e\<lparr>en_cancel_compaction := True\<rparr>) = log_seqno e"
  by (simp_all add: start_background_def stop_workers_def bookkeeping_def same_mem_def same_tables_def log_seqno_def)

lemma flags_follow:
  assumes "sys_inv (e, wk) T" "bookkeeping e e'" "log_seqno e' = log_seqno e"
  shows "follows e T Silent (e', wk)"
  using bookkeeping_follows [OF assms] work_inv_frame [OF frame_bookkeeping [OF assms(2)] sys_invD(3) [OF assms(1)]] by blast

section \<open>The simulation\<close>

lemma step_follows:
  assumes "step cx s ev s'" and "sys_inv s T"
  shows "follows (fst s) T ev s'"
  using assms
proof (induction rule: step.induct)
  case (s_flush_begin e target i)
  then show ?case
    using sys_invD [OF s_flush_begin.prems]
    by (auto simp: flush_pick_def oldest_frozen_def split: if_splits intro!: follows_silent)
next
  case (s_write io d k v e r e' wk)
  then show ?case using writes_follows [OF _ writes_intros(1)] by simp
next
  case (s_woken io d k v e r e' wk)
  then show ?case using writes_follows [OF _ writes_intros(2)] by simp
next
  case (s_compact_end e cs job io)
  then show ?case using bookkeeping_follows [OF _ finish_job_bookkeeping, of e _ T cx io cs job Idle] by simp
qed (simp_all only: fst_conv grab_follows read_follows release_follows
    flush_file_follows flush_file_fails_follows flush_swap_follows flush_log_follows
    compact_begin_follows compact_file_follows compact_file_fails_follows compact_cancel_follows compact_swap_follows
    compact_delete_follows flags_follow flags_bookkeeping)

text \<open>What a state of the engine means.\<close>

definition stands_for :: "engine \<times> work \<Rightarrow> store_map \<Rightarrow> bool" where
  "stands_for s m \<longleftrightarrow> (\<exists>T. sys_inv s T \<and> contents (fst s) T = m)"

text \<open>Executions, and the maps the store goes through.\<close>

inductive runs :: "engine_ctx \<Rightarrow> engine \<times> work \<Rightarrow> event list \<Rightarrow> engine \<times> work \<Rightarrow> bool" for cx where
  runs_none: "runs cx s [] s"
| runs_step: "step cx s ev s1 \<Longrightarrow> runs cx s1 evs s' \<Longrightarrow> runs cx s (ev # evs) s'"

fun spec_run :: "store_map \<Rightarrow> event list \<Rightarrow> store_map list \<Rightarrow> bool" where
  "spec_run m [] ms \<longleftrightarrow> ms = []"
| "spec_run m (ev # evs) [] \<longleftrightarrow> False"
| "spec_run m (ev # evs) (m1 # ms) \<longleftrightarrow> spec_step m ev m1 \<and> spec_run m1 evs ms"

lemma runs_append: "runs cx s evs s1 \<Longrightarrow> runs cx s1 evs' s' \<Longrightarrow> runs cx s (evs @ evs') s'"
  by (induction rule: runs.induct) (auto intro: runs.intros)

lemma runs_views:
  assumes "runs cx s evs s'" and "sys_inv s T"
  shows "\<exists>T' ms. sys_inv s' T' \<and> spec_run (contents (fst s) T) evs ms \<and>
    contents (fst s') T' = last (contents (fst s) T # ms) \<and>
    (\<forall>u \<in> set (en_held (fst s')). u \<in> set (en_held (fst s)) \<and> view (fst s') T' u = view (fst s) T u \<or>
       view (fst s') T' u \<in> set (contents (fst s) T # ms))"
  using assms
proof (induction arbitrary: T rule: runs.induct)
  case (runs_none s)
  then show ?case by (intro exI [of _ T] exI [of _ "[]"]) simp
next
  case (runs_step s ev s1 evs s')
  obtain T1 where 1: "sys_inv s1 T1" "spec_step (contents (fst s) T) ev (contents (fst s1) T1)"
    "\<forall>u \<in> set (en_held (fst s1)). u \<in> set (en_held (fst s)) \<and> view (fst s1) T1 u = view (fst s) T u \<or>
       view (fst s1) T1 u = contents (fst s1) T1"
    using step_follows [OF runs_step.hyps(1) runs_step.prems] by (auto simp: follows_def)
  obtain T' ms where 2: "sys_inv s' T'" "spec_run (contents (fst s1) T1) evs ms"
    "contents (fst s') T' = last (contents (fst s1) T1 # ms)"
    "\<forall>u \<in> set (en_held (fst s')). u \<in> set (en_held (fst s1)) \<and> view (fst s') T' u = view (fst s1) T1 u \<or>
       view (fst s') T' u \<in> set (contents (fst s1) T1 # ms)"
    using runs_step.IH [OF 1(1)] by blast
  have "spec_run (contents (fst s) T) (ev # evs) (contents (fst s1) T1 # ms)" using 1(2) 2(2) by simp
  moreover have "contents (fst s') T' = last (contents (fst s) T # contents (fst s1) T1 # ms)" using 2(3) by simp
  moreover have "u \<in> set (en_held (fst s)) \<and> view (fst s') T' u = view (fst s) T u \<or>
      view (fst s') T' u \<in> set (contents (fst s) T # contents (fst s1) T1 # ms)" if "u \<in> set (en_held (fst s'))" for u
    using 1(3) 2(4) that by (metis list.set_intros(1,2))
  ultimately show ?case using 2(1) by blast
qed

end
