(* ===== verification/Engine_Open.thy ===== *)
theory Engine_Open
  imports Engine_Steps
begin

text \<open>
  Opening a store: the manifest's tables get their readers, the records of the log go into
  memtables, and the store means the log replayed over the tables.
\<close>

section \<open>Files and readers\<close>

lemma drop_files_find:
  "map_find (drop_files io doomed dir) name = (if doomed name \<and> eo_remove io name then None else map_find dir name)"
  by (induction dir) (auto simp: drop_files_def split: if_splits)

lemma drop_files_ascending: "keys_ascending dir \<Longrightarrow> keys_ascending (drop_files io doomed dir)"
  unfolding drop_files_def by (rule keys_ascending_filter)

text \<open>The tables of the manifest are on the disk as they were written.\<close>

definition tables_on :: "manifest \<Rightarrow> sst_dir \<Rightarrow> (u64 \<Rightarrow> written) \<Rightarrow> bool" where
  "tables_on m dir T \<longleftrightarrow> ids_ok m \<and> unat (mf_next_sst_id m) \<le> 10 ^ 11 \<and> keys_ascending dir \<and>
     (\<forall>t \<in> set (mf_tables m). written_ok (T (tm_id t)) \<and> tm_file_name t = sst_file_name (tm_id t) \<and>
        map_find dir (tm_file_name t) = Some (wt_file (T (tm_id t))) \<and>
        (\<forall>kv \<in> set (wt_entries (T (tm_id t))). tm_min_key t \<le> fst kv \<and> fst kv \<le> tm_max_key t))"

lemma tables_onD:
  assumes "tables_on m dir T"
  shows "ids_ok m" "unat (mf_next_sst_id m) \<le> 10 ^ 11" "keys_ascending dir"
    and "t \<in> set (mf_tables m) \<Longrightarrow> written_ok (T (tm_id t))"
    and "t \<in> set (mf_tables m) \<Longrightarrow> tm_file_name t = sst_file_name (tm_id t)"
    and "t \<in> set (mf_tables m) \<Longrightarrow> map_find dir (tm_file_name t) = Some (wt_file (T (tm_id t)))"
    and "t \<in> set (mf_tables m) \<Longrightarrow> unat (tm_id t) < 10 ^ 11"
    and "t \<in> set (mf_tables m) \<Longrightarrow> \<forall>kv \<in> set (wt_entries (T (tm_id t))). tm_min_key t \<le> fst kv \<and> fst kv \<le> tm_max_key t"
  using assms unfolding tables_on_def ids_ok_def
  by (blast, blast, blast, blast, blast, blast, metis order_less_le_trans word_less_nat_alt, blast)

text \<open>Deleting leftovers spares the tables.\<close>

lemma drop_files_tables_on:
  assumes on: "tables_on m dir T" and "\<forall>t \<in> set (mf_tables m). \<not> doomed (tm_file_name t)"
  shows "tables_on m (drop_files io doomed dir) T"
  unfolding tables_on_def
proof (intro conjI ballI)
  show "keys_ascending (drop_files io doomed dir)" using tables_onD(3) [OF on] by (rule drop_files_ascending)
  show "map_find (drop_files io doomed dir) (tm_file_name t) = Some (wt_file (T (tm_id t)))" if "t \<in> set (mf_tables m)" for t
    using that assms(2) tables_onD(6) [OF on that] by (simp add: drop_files_find)
qed (use tables_onD [OF on] in blast)+

lemma table_not_tmp: "tables_on m dir T \<Longrightarrow> t \<in> set (mf_tables m) \<Longrightarrow> \<not> is_tmp (tm_file_name t)"
  using tables_onD(5,7) sst_name_extension by (simp add: is_tmp_def)

lemma table_not_orphan: "t \<in> set (mf_tables m) \<Longrightarrow> \<not> is_orphan m (tm_file_name t)"
  by (simp add: is_orphan_def)

definition opened :: "(u64 \<Rightarrow> written) \<Rightarrow> table_meta \<Rightarrow> reader" where
  "opened T t = (reader_new t)\<lparr>rd_footer := Some (wt_footer (T (tm_id t)))\<rparr>"

lemma opened_ok:
  assumes "\<forall>kv \<in> set (wt_entries (T (tm_id t))). tm_min_key t \<le> fst kv \<and> fst kv \<le> tm_max_key t"
  shows "reader_ok (T (tm_id t)) (opened T t)"
  using assms by (simp add: reader_ok_def opened_def reader_new_def)

lemma validate_footer_written:
  assumes "written_ok (T (tm_id t))"
  shows "validate_footer open_ok (wt_file (T (tm_id t))) (reader_new t) =
    (if open_ok then (Inr (), opened T t) else (Inl (Thrown IOFailure), reader_new t))"
  using load_footer_written [OF assms] by (simp add: validate_footer_def reader_new_def opened_def)

lemma open_readers_result:
  assumes "\<forall>t \<in> set ts. written_ok (T (tm_id t)) \<and> map_find (en_sst e) (tm_file_name t) = Some (wt_file (T (tm_id t)))"
    and "open_readers io ts e = (r, e')"
  shows "r = Inr () \<and> e' = e\<lparr>en_readers := en_readers e @ map tm_id ts,
        en_reader := fold (\<lambda>t f. f(tm_id t := opened T t)) ts (en_reader e)\<rparr> \<or>
    r = Inl (Thrown IOFailure) \<and> (\<exists>t \<in> set ts. \<not> eo_open io (tm_id t))"
  using assms
proof (induction ts arbitrary: e)
  case Nil
  then show ?case by simp
next
  case (Cons t ts)
  show ?case
  proof (cases "eo_open io (tm_id t)")
    case False
    then show ?thesis using Cons.prems validate_footer_written [of T t False] by simp
  next
    case True
    let ?e = "e\<lparr>en_readers := en_readers e @ [tm_id t], en_reader := (en_reader e)(tm_id t := opened T t)\<rparr>"
    have "open_readers io ts ?e = (r, e')"
      using Cons.prems validate_footer_written [of T t True] True by simp
    from Cons.IH [OF _ this] Cons.prems(1) show ?thesis by auto
  qed
qed

lemma opened_readers:
  assumes "distinct (map tm_id ts)" "t \<in> set ts"
  shows "fold (\<lambda>t f. f(tm_id t := opened T t)) ts f (tm_id t) = opened T t"
  using assms
proof (induction ts arbitrary: f)
  case (Cons u ts)
  have other: "i \<notin> tm_id ` set ts \<Longrightarrow> fold (\<lambda>t f. f(tm_id t := opened T t)) ts f i = f i" for i f
    by (induction ts arbitrary: f) auto
  show ?case
  proof (cases "t = u")
    case True
    have "fold (\<lambda>t f. f(tm_id t := opened T t)) (u # ts) f (tm_id u) =
        fold (\<lambda>t f. f(tm_id t := opened T t)) ts (f(tm_id u := opened T u)) (tm_id u)" by (simp only: fold_simps)
    also have "\<dots> = opened T u" using other [of "tm_id u"] Cons.prems(1) by simp
    finally show ?thesis unfolding True .
  next
    case False
    then show ?thesis using Cons by simp
  qed
qed simp

section \<open>Replay\<close>

text \<open>The entry a record puts into the memtable, and the last one a log has for a key.\<close>

definition log_entry :: "wal_record \<Rightarrow> mem_entry" where
  "log_entry r = \<lparr>me_value = rec_value r, me_seqno = rec_seqno r, me_tombstone = (rec_type r = kTypeDel)\<rparr>"

definition log_put :: "wal_record \<Rightarrow> (bytes \<Rightarrow> mem_entry option) \<Rightarrow> bytes \<Rightarrow> mem_entry option" where
  "log_put r m = m(rec_key r \<mapsto> log_entry r)"

definition log_find :: "wal_record list \<Rightarrow> bytes \<Rightarrow> mem_entry option" where
  "log_find rs = fold log_put rs Map.empty"

lemma log_find_Nil [simp]: "log_find [] = Map.empty"
  by (simp add: log_find_def)

lemma log_find_snoc [simp]: "log_find (rs @ [r]) = (log_find rs)(rec_key r \<mapsto> log_entry r)"
  by (simp add: log_find_def log_put_def)

text \<open>What the memtables hold, newest first.\<close>

definition mem_find :: "engine \<Rightarrow> bytes \<Rightarrow> mem_entry option" where
  "mem_find e = first_hit (map (\<lambda>a. memtable_find (en_mem e a)) (memtables e))"

lemma contents_find: "contents e T k = visible ((first_hit (map (table_map T) (en_readers e)) ++ mem_find e) k)"
  by (simp add: contents_layers first_hit_map_add mem_find_def)

text \<open>Replay changes the memtables and nothing else.\<close>

definition mem_only :: "engine \<Rightarrow> engine \<Rightarrow> bool" where
  "mem_only e e' \<longleftrightarrow> same_tables e e' \<and> en_wal e' = en_wal e \<and> en_config e' = en_config e \<and>
     en_version_id e' = en_version_id e \<and> en_manifest_file e' = en_manifest_file e \<and>
     en_closed e' = en_closed e \<and> en_shutting_down e' = en_shutting_down e"

lemma mem_only_refl [simp]: "mem_only e e"
  by (simp add: mem_only_def same_tables_def)

lemma mem_only_trans: "mem_only e e1 \<Longrightarrow> mem_only e1 e2 \<Longrightarrow> mem_only e e2"
  by (simp add: mem_only_def same_tables_def)

lemma mem_only_steps:
  "mem_only e (mem_write k v s d e)" "mem_only e (e\<lparr>en_backpressure_warned := True\<rparr>)" "mem_only e (rotate True e)"
  by (simp_all add: mem_only_def same_tables_def mem_write_def) (simp_all add: rotate_def Let_def)

lemma mem_onlyD:
  assumes "mem_only e e'"
  shows "same_tables e e'" "en_wal e' = en_wal e" "en_config e' = en_config e" "en_version_id e' = en_version_id e"
    "en_manifest_file e' = en_manifest_file e" "en_closed e' = en_closed e" "en_shutting_down e' = en_shutting_down e"
  using assms by (simp_all add: mem_only_def)

lemma warned_same: "same_mem e (e\<lparr>en_backpressure_warned := b\<rparr>)"
  by (simp add: same_mem_def)

lemma mem_write_mem_find:
  assumes "mem_inv e"
  shows "mem_find (mem_write k v s d e) = (mem_find e)(k \<mapsto> \<lparr>me_value = v, me_seqno = s, me_tombstone = d\<rparr>)"
proof -
  have "en_active e \<notin> set (en_immutables e)" using assms by (simp add: mem_inv_def memtables_def)
  note old = mem_write_layers [OF this refl, of k v s d]
  have "mem_find (mem_write k v s d e) = first_hit (map (\<lambda>a. memtable_find (en_mem e a)) (en_immutables e)) ++
      memtable_find (en_mem (mem_write k v s d e) (en_active e))"
    by (simp only: mem_find_def mem_write_keeps list.map memtables_def old first_hit_Cons)
  also have "\<dots> = (mem_find e)(k \<mapsto> \<lparr>me_value = v, me_seqno = s, me_tombstone = d\<rparr>)"
    by (simp only: mem_write_find simp_thms if_True map_add_upd mem_find_def list.map memtables_def first_hit_Cons)
  finally show ?thesis .
qed

lemma rotate_mem_inv: "mem_inv e \<Longrightarrow> mem_inv (rotate b e)"
  by (auto simp: mem_inv_def less_Suc_eq)

lemma rotate_mem_find: "mem_inv e \<Longrightarrow> mem_find (rotate b e) = mem_find e"
proof -
  assume mem: "mem_inv e"
  have "map (\<lambda>a. memtable_find (en_mem (rotate b e) a)) (memtables e) = map (\<lambda>a. memtable_find (en_mem e a)) (memtables e)"
    using mem by (intro map_cong) (auto simp: mem_inv_def)
  then have "mem_find (rotate b e) = first_hit (memtable_find (memtable_new (memtable_size_overhead_bytes_per_entry (en_config e))) #
      map (\<lambda>a. memtable_find (en_mem e a)) (memtables e))"
    by (simp only: mem_find_def rotate_keeps list.map fun_upd_same)
  then show "mem_find (rotate b e) = mem_find e" by (simp add: mem_find_def fun_eq_iff)
qed

text \<open>One record: it goes into the active memtable, which may be frozen after it.\<close>

lemma replay_step:
  obtains e' where "apply_mutation io True k v s d e = (Inr (), e')"
    "e' \<in> {mem_write k v s d e, (mem_write k v s d e)\<lparr>en_backpressure_warned := True\<rparr>, rotate True (mem_write k v s d e)}"
proof -
  let ?w = "mem_write k v s d e"
  have "apply_mutation io True k v s d e = maybe_rotate io True ?w" by (simp add: apply_mutation_def mem_write_def)
  moreover have "maybe_rotate io True ?w \<in> Pair (Inr ()) ` {?w, ?w\<lparr>en_backpressure_warned := True\<rparr>, rotate True ?w}"
    by (simp add: maybe_rotate_def)
  ultimately show ?thesis using that by auto
qed

lemma replay_all_result:
  assumes "mem_inv e"
  shows "\<exists>e'. replay_all io rs e = (Inr (), e') \<and> mem_inv e' \<and> mem_only e e' \<and> mem_find e' = fold log_put (map snd rs) (mem_find e)"
  using assms
proof (induction rs arbitrary: e)
  case Nil
  then show ?case by simp
next
  case (Cons p rs)
  obtain sid r where p: "p = (sid, r)" by (cases p)
  let ?w = "mem_write (rec_key r) (rec_value r) (rec_seqno r) (rec_type r = kTypeDel) e"
  obtain e1 where e1: "apply_mutation io True (rec_key r) (rec_value r) (rec_seqno r) (rec_type r = kTypeDel) e = (Inr (), e1)"
    "e1 \<in> {?w, ?w\<lparr>en_backpressure_warned := True\<rparr>, rotate True ?w}"
    by (rule replay_step)
  have W: "mem_inv ?w" "mem_find ?w = log_put r (mem_find e)" "mem_only e ?w"
    using mem_write_mem_inv [OF Cons.prems] mem_write_mem_find [OF Cons.prems]
    by (simp_all add: log_put_def log_entry_def mem_only_steps)
  have "mem_inv e1 \<and> mem_find e1 = mem_find ?w \<and> mem_only ?w e1"
    using e1(2) rotate_mem_inv [OF W(1)] rotate_mem_find [OF W(1)] W(1) mem_inv_same [OF warned_same]
    by (auto simp: mem_only_steps mem_find_def memtables_def)
  then obtain e' where "replay_all io rs e1 = (Inr (), e')" "mem_inv e'" "mem_only e1 e'"
    "mem_find e' = fold log_put (map snd rs) (mem_find e1)"
    using Cons.IH by blast
  then show ?case
    using e1(1) W \<open>mem_inv e1 \<and> _\<close> mem_only_trans [of e ?w e1] mem_only_trans [of e e1 e'] by (simp add: p)
qed

text \<open>Records that are newer than all there is keep the layers in order.\<close>

lemma replay_order:
  assumes "mem_inv e" "mem_order e" "log_ascending (map snd rs)"
    and "\<forall>a \<in> set (memtables e). \<forall>x \<in> mem_seqnos e a. x \<le> n \<and> (\<forall>r \<in> set (map snd rs). x < rec_seqno r)"
    and "\<forall>r \<in> set (map snd rs). manifest_max_seqno (en_manifest e) < rec_seqno r \<and> rec_seqno r \<le> n"
    and "replay_all io rs e = (Inr (), e')"
  shows "mem_order e' \<and> (\<forall>a \<in> set (memtables e'). \<forall>x \<in> mem_seqnos e' a. x \<le> n)"
  using assms
proof (induction rs arbitrary: e)
  case Nil
  then show ?case by simp
next
  case (Cons p rs)
  obtain sid r where p: "p = (sid, r)" by (cases p)
  let ?w = "mem_write (rec_key r) (rec_value r) (rec_seqno r) (rec_type r = kTypeDel) e"
  obtain e1 where e1: "apply_mutation io True (rec_key r) (rec_value r) (rec_seqno r) (rec_type r = kTypeDel) e = (Inr (), e1)"
    "e1 \<in> {?w, ?w\<lparr>en_backpressure_warned := True\<rparr>, rotate True ?w}"
    by (rule replay_step)
  note W = mem_write_mem_order [OF Cons.prems(2,1), of "rec_seqno r"]
  have new: "\<forall>a \<in> set (memtables e). \<forall>x \<in> mem_seqnos e a. x < rec_seqno r" "manifest_max_seqno (en_manifest e) < rec_seqno r"
    "rec_seqno r \<le> n" using Cons.prems(4,5) by (auto simp: p)
  have later: "\<forall>q \<in> set (map snd rs). rec_seqno r < rec_seqno q" and asc: "log_ascending (map snd rs)"
    using Cons.prems(3) by (auto simp: p log_ascending_def)
  have Wm: "mem_inv ?w" using Cons.prems(1) by (rule mem_write_mem_inv)
  have Wo: "mem_order ?w" using new by (intro W(1))
  have Wb: "x \<le> n \<and> (\<forall>q \<in> set (map snd rs). x < rec_seqno q)" if "a \<in> set (memtables ?w)" "x \<in> mem_seqnos ?w a" for a x
    using W(2) [OF new(1,2) _ that(2)] that(1) new(3) later by (force intro: order_trans le_less_trans)
  note R = rotate_mem_seqnos [OF Wm, where b = True]
  have same: "same_mem ?w (?w\<lparr>en_backpressure_warned := True\<rparr>)" by (rule warned_same)
  have "mem_inv e1" using e1(2) Wm rotate_mem_inv [OF Wm] mem_inv_same [OF same] by auto
  moreover have "mem_order e1" using e1(2) Wo rotate_mem_order [OF Wo Wm]
    by (auto simp: mem_order_def mem_seqnos_def memtables_def)
  moreover have "x \<le> n \<and> (\<forall>q \<in> set (map snd rs). x < rec_seqno q)" if a: "a \<in> set (memtables e1)" "x \<in> mem_seqnos e1 a" for a x
    using e1(2)
  proof (elim insertE emptyE)
    assume "e1 = rotate True ?w"
    then show ?thesis using a R Wb by (metis empty_iff rotate_keeps(8) set_ConsD mem_write_keeps(3))
  qed (use a Wb in \<open>simp_all add: memtables_def mem_seqnos_def\<close>)
  moreover have "en_manifest e1 = en_manifest e" using e1(2) by auto
  moreover have "replay_all io rs e1 = (Inr (), e')" using Cons.prems(6) e1(1) by (simp add: p)
  ultimately show ?case using Cons.prems(5) asc by (intro Cons.IH [of e1]) auto
qed

section \<open>Opening\<close>

text \<open>The log over the tables.\<close>

definition log_over :: "wal_record list \<Rightarrow> table_meta list \<Rightarrow> (u64 \<Rightarrow> written) \<Rightarrow> bytes \<Rightarrow> bytes option" where
  "log_over rs ts T k = visible ((first_hit (map (table_map T \<circ> tm_id) ts) ++ log_find rs) k)"

definition open_state :: "engine_io \<Rightarrow> manifest \<Rightarrow> engine \<Rightarrow> engine" where
  "open_state io m e = e\<lparr>en_manifest := m, en_sst := drop_files io (is_orphan m) (drop_files io is_tmp (en_sst e)),
     en_version_id := mf_epoch m, en_cache := cache_new (ucast (block_cache_mb (en_config e)) * 1024 * 1024),
     en_fds := fd_pool_new (max_open_files (en_config e))\<rparr>"

definition with_readers :: "table_meta list \<Rightarrow> (u64 \<Rightarrow> written) \<Rightarrow> engine \<Rightarrow> engine" where
  "with_readers ts T e = e\<lparr>en_readers := en_readers e @ map tm_id ts,
     en_reader := fold (\<lambda>t f. f(tm_id t := opened T t)) ts (en_reader e)\<rparr>"

lemma cache_new_ok [simp]: "cache_ok j u (cache_new n)"
  by (simp add: cache_ok_def cache_new_def)

text \<open>The state before the log is opened.\<close>

lemma opening_tables:
  fixes io cfg
  assumes on: "tables_on m (dk_sst d) T"
  defines "e \<equiv> with_memtable (with_readers (mf_tables m) T (open_state io m (engine_new cfg d)))"
  shows "tab_inv e T" "mem_inv e" "mem_find e = Map.empty" "en_readers e = map tm_id (mf_tables m)"
    "en_manifest e = m" "en_held e = []" "en_wal_dir e = dk_wal d" "en_config e = cfg"
    "en_manifest_file e = dk_manifest d" "\<not> en_closed e" "\<not> en_shutting_down e"
proof -
  note O = tables_onD [OF on]
  let ?d1 = "drop_files io is_tmp (dk_sst d)"
  let ?d = "drop_files io (is_orphan m) ?d1"
  have on1: "tables_on m ?d1 T" using drop_files_tables_on [OF on] table_not_tmp [OF on] by blast
  have on2: "tables_on m ?d T" using drop_files_tables_on [OF on1] table_not_orphan by blast
  have fields: "en_readers e = map tm_id (mf_tables m)" "en_manifest e = m" "en_held e = []" "en_wal_dir e = dk_wal d"
    "en_config e = cfg" "en_manifest_file e = dk_manifest d" "\<not> en_closed e" "\<not> en_shutting_down e" "en_sst e = ?d"
    "en_cache e = cache_new (ucast (block_cache_mb cfg) * 1024 * 1024)"
    "en_reader e = fold (\<lambda>t f. f(tm_id t := opened T t)) (mf_tables m) (\<lambda>_. reader_new (sample_meta 0 0))"
    "en_active e = 0" "en_immutables e = []" "en_next_mem e = 1"
    "en_mem e 0 = memtable_new (memtable_size_overhead_bytes_per_entry cfg)"
    by (simp_all add: e_def with_memtable_def with_readers_def open_state_def engine_new_def)
  show "en_readers e = map tm_id (mf_tables m)" "en_manifest e = m" "en_held e = []" "en_wal_dir e = dk_wal d"
    "en_config e = cfg" "en_manifest_file e = dk_manifest d" "\<not> en_closed e" "\<not> en_shutting_down e"
    by (rule fields)+
  have dist: "distinct (map tm_id (mf_tables m))" using O(1) by (simp add: ids_ok_def)
  have rd: "en_reader e (tm_id t) = opened T t" if "t \<in> set (mf_tables m)" for t
    unfolding fields using dist that by (rule opened_readers)
  have meta: "rd_meta (opened T t) = t" for t by (simp add: opened_def reader_new_def)
  have ok: "table_ok e T (tm_id t)" if t: "t \<in> set (mf_tables m)" for t
    using O(4,5,8) [OF t] opened_ok [where T = T, OF O(8) [OF t]] tables_onD(6) [OF on2 t]
    by (simp add: table_ok_def table_file_of_def rd [OF t] meta fields(9,10))
  show "tab_inv e T"
    unfolding tab_inv_def fields(1,2,9,10)
  proof (intro conjI ballI allI impI)
    show "ids_ok m" "unat (mf_next_sst_id m) \<le> 10 ^ 11" "keys_ascending ?d" using tables_onD(1-3) [OF on2] .
    show "rd_meta (en_reader e (tm_id t)) = t" if "t \<in> set (mf_tables m)" for t using rd [OF that] meta by simp
    fix i assume "i \<in> live_ids e"
    then obtain t where t: "t \<in> set (mf_tables m)" "i = tm_id t" by (auto simp: live_ids_def fields)
    show "table_ok e T i" using ok [OF t(1)] t(2) by simp
    show "i < mf_next_sst_id m" using O(1) t by (simp add: ids_ok_def)
  qed simp_all
  have m: "memtables e = [0]" by (simp add: memtables_def fields)
  show "mem_inv e" by (simp add: mem_inv_def m fields memtable_ok_new)
  show "mem_find e = Map.empty" by (simp add: mem_find_def m fields fun_eq_iff)
qed

definition opened_report :: "disk \<Rightarrow> manifest \<Rightarrow> wal_recovery_report \<Rightarrow> engine \<Rightarrow> engine_recovery result \<times> engine" where
  "opened_report d m rep e4 = (let e5 = publish_version (bump_engine_seqno e4); mt = en_mem e4 (en_active e4)
     in (Inr \<lparr>er_wal = rep\<lparr>rr_last_seqno := max (rr_last_seqno rep) (manifest_max_seqno m)\<rparr>,
             er_memtable_keys = memtable_entries mt, er_memtable_bytes = mt_bytes mt,
             er_sst_count = length (mf_tables m), er_tmp_files_removed = length (filter (is_tmp \<circ> fst) (dk_sst d)),
             er_epoch = mf_epoch m, er_version_published = en_version_id e5\<rparr>, e5))"

lemma engine_open_step:
  assumes man: "load_or_create (cx_json cx) (eo_manifest_open io) (dk_manifest d) = Inr m"
  shows "engine_open cx io (engine_new cfg d) =
     (if \<not> eo_mkdir io then (Inl (Thrown IOFailure), engine_new cfg d)
      else bind_st (open_readers io (mf_tables m) (open_state io m (engine_new cfg d))) (\<lambda>_ e3.
           bind_st (open_wal io (with_memtable e3)) (opened_report d m)))"
proof -
  have mf: "en_manifest_file (engine_new cfg d) = dk_manifest d" "en_sst (engine_new cfg d) = dk_sst d"
    by (simp_all add: engine_new_def)
  show ?thesis by (simp add: engine_open_def Let_def man mf open_state_def opened_report_def [abs_def])
qed

lemma open_files:
  assumes on: "tables_on m (dk_sst d) T"
  shows "\<forall>t \<in> set (mf_tables m). written_ok (T (tm_id t)) \<and>
      map_find (en_sst (open_state io m (engine_new cfg d))) (tm_file_name t) = Some (wt_file (T (tm_id t)))"
proof -
  have on1: "tables_on m (drop_files io is_tmp (dk_sst d)) T"
    using drop_files_tables_on [OF on] table_not_tmp [OF on] by blast
  have "tables_on m (en_sst (open_state io m (engine_new cfg d))) T"
    using drop_files_tables_on [OF on1] table_not_orphan by (simp add: open_state_def engine_new_def)
  then show ?thesis using tables_onD(4,6) by blast
qed

lemma engine_open_result:
  assumes man: "load_or_create (cx_json cx) (eo_manifest_open io) (dk_manifest d) = Inr m"
    and on: "tables_on m (dk_sst d) T" and asc: "keys_ascending (dk_wal d)"
    and run: "engine_open cx io (engine_new cfg d) = (Inr rep, e')"
  obtains w wrep replayed where "base_inv e' T" "mem_find e' = log_find (dir_log (dk_wal d))"
    "contents e' T = log_over (dir_log (dk_wal d)) (mf_tables m) T"
    "wal_open (eo_wal io) (wal_new (dk_wal d) (wal_fsync_every_n cfg) (wal_segment_roll_bytes cfg)) = (Inr (wrep, replayed), w)"
    "en_wal e' = Some (bump_seqno (manifest_max_seqno m) w)" "en_manifest e' = m" "en_held e' = []"
    "en_manifest_file e' = dk_manifest d" "en_config e' = cfg" "\<not> en_closed e'" "\<not> en_shutting_down e'"
    "log_ascending (dir_log (dk_wal d)) \<Longrightarrow> \<forall>r \<in> set (dir_log (dk_wal d)). manifest_max_seqno m < rec_seqno r \<Longrightarrow>
       mem_order e' \<and> (\<forall>a \<in> set (memtables e'). \<forall>x \<in> mem_seqnos e' a. x \<le> max_rec_seqno (dir_log (dk_wal d)))"
proof -
  let ?e2 = "open_state io m (engine_new cfg d)"
  let ?e = "with_memtable (with_readers (mf_tables m) T ?e2)"
  note A = opening_tables [OF on, of io cfg]
  note files = open_files [OF on, of io cfg]
  obtain e3 where rd: "open_readers io (mf_tables m) ?e2 = (Inr (), e3)"
    and rest: "bind_st (open_wal io (with_memtable e3)) (opened_report d m) = (Inr rep, e')"
    using run unfolding engine_open_step [OF man] by (auto simp: bind_st_Inr_iff split: if_splits)
  have e3: "e3 = with_readers (mf_tables m) T ?e2"
    using open_readers_result [OF files rd] by (simp add: with_readers_def)
  obtain wrep e4 where ow: "open_wal io ?e = (Inr wrep, e4)" and e': "e' = publish_version (bump_engine_seqno e4)"
    using rest unfolding e3 by (auto simp: bind_st_Inr_iff opened_report_def Let_def)
  obtain replayed w where w: "wal_open (eo_wal io) (wal_new (dk_wal d) (wal_fsync_every_n cfg) (wal_segment_roll_bytes cfg)) =
        (Inr (wrep, replayed), w)" "replay_all io replayed (?e\<lparr>en_wal := Some w\<rparr>) = (Inr (), e4)"
    using ow by (auto simp: open_wal_def A(7,8) bind_st_Inr_iff split: prod.splits sum.splits)
  have wmem: "same_mem ?e (?e\<lparr>en_wal := Some w\<rparr>)" by (simp add: same_mem_def)
  have wtab: "same_tables ?e (?e\<lparr>en_wal := Some w\<rparr>)" by (simp add: same_tables_def)
  have mi: "mem_inv (?e\<lparr>en_wal := Some w\<rparr>)" using A(2) by (simp only: mem_inv_same [OF wmem])
  have mfd: "mem_find (?e\<lparr>en_wal := Some w\<rparr>) = Map.empty" using A(3) by (simp add: mem_find_def memtables_def)
  have R: "mem_inv e4" "mem_only (?e\<lparr>en_wal := Some w\<rparr>) e4" "mem_find e4 = log_find (map snd replayed)"
    using replay_all_result [OF mi, of io replayed] w(2) by (simp_all add: mfd log_find_def)
  have log: "map snd replayed = dir_log (dk_wal d)" using wal_open_result [OF asc w(1)] by blast
  have mem5: "same_mem e4 e'" by (simp add: e' bump_engine_seqno_def same_mem_def)
  have same4: "same_tables ?e e4"
    using wtab mem_onlyD(1) [OF R(2)] by (simp add: same_tables_def)
  have same: "same_tables ?e e'"
    using same4 by (simp add: same_tables_def e' bump_engine_seqno_def)
  note S = same_tablesD [OF same]
  have M: "mem_inv e'" using R(1) by (simp only: mem_inv_same [OF mem5])
  have F: "mem_find e' = log_find (dir_log (dk_wal d))"
    using R(3) log by (simp add: mem_find_def same_memD [OF mem5])
  have held: "en_held e' = []" using S(6) A(6) by simp
  have wal: "en_wal e' = Some (bump_seqno (manifest_max_seqno m) w)"
    using mem_onlyD(2) [OF R(2)] same_tablesD(2) [OF same4] A(5) by (simp add: e' bump_engine_seqno_def)
  have base: "base_inv e' T"
    unfolding base_inv_def tab_inv_same [OF same] held_inv_def held
    using A(1) M wal by (simp add: e')
  have con: "contents e' T = log_over (dir_log (dk_wal d)) (mf_tables m) T"
    by (simp add: fun_eq_iff contents_find log_over_def F S(1) A(4) comp_def)
  have order: "mem_order e' \<and> (\<forall>a \<in> set (memtables e'). \<forall>x \<in> mem_seqnos e' a. x \<le> max_rec_seqno (dir_log (dk_wal d)))"
    if "log_ascending (dir_log (dk_wal d))" "\<forall>r \<in> set (dir_log (dk_wal d)). manifest_max_seqno m < rec_seqno r"
  proof -
    let ?e1 = "?e\<lparr>en_wal := Some w\<rparr>"
    have none: "mem_seqnos ?e1 a = {}" if "a \<in> set (memtables ?e1)" for a
    proof -
      have "memtables ?e1 = [0]" by (simp add: memtables_def with_memtable_def with_readers_def open_state_def engine_new_def)
      then show ?thesis using that mfd by (simp add: mem_find_def mem_seqnos_def fun_eq_iff ran_def split: option.splits)
    qed
    have "memtables ?e1 = [0]" by (simp add: memtables_def with_memtable_def with_readers_def open_state_def engine_new_def)
    then have "mem_order ?e1" using none by (simp add: mem_order_def)
    then have "mem_order e4 \<and> (\<forall>a \<in> set (memtables e4). \<forall>x \<in> mem_seqnos e4 a. x \<le> max_rec_seqno (dir_log (dk_wal d)))"
      using that max_rec_seqno_ge none A(5) by (intro replay_order [OF mi _ _ _ _ w(2)]) (auto simp: log)
    moreover have "en_manifest e' = en_manifest e4" using same_tablesD(2) [OF same4] S(2) by simp
    ultimately show ?thesis by (simp add: mem_order_def mem_seqnos_def same_memD [OF mem5])
  qed
  have flags: "\<not> en_closed e'" "\<not> en_shutting_down e'" "en_manifest_file e' = dk_manifest d" "en_config e' = cfg" "en_manifest e' = m"
    using S(2) A(5,8,9,10,11) mem_onlyD(3,5,6,7) [OF R(2)] by (simp_all add: e' bump_engine_seqno_def)
  show ?thesis
    by (rule that [OF base F con w(1) wal flags(5) held flags(3,4,1,2) order])
qed

text \<open>When the log holds only what is newer than every table, the opened store is one that compaction
  keeps in order.\<close>

definition ranges_on :: "manifest \<Rightarrow> (u64 \<Rightarrow> written) \<Rightarrow> bool" where
  "ranges_on m T \<longleftrightarrow> ranges_descend (mf_tables m) \<and>
     (\<forall>t \<in> set (mf_tables m). \<forall>kx \<in> set (wt_entries (T (tm_id t))).
        tm_min_seqno t \<le> me_seqno (snd kx) \<and> me_seqno (snd kx) \<le> tm_max_seqno t)"

lemma engine_open_stands_for:
  assumes man: "load_or_create (cx_json cx) (eo_manifest_open io) (dk_manifest d) = Inr m"
    and on: "tables_on m (dk_sst d) T" "ranges_on m T" and asc: "keys_ascending (dk_wal d)"
    and log: "log_ascending (dir_log (dk_wal d))" "\<forall>r \<in> set (dir_log (dk_wal d)). manifest_max_seqno m < rec_seqno r"
    and run: "engine_open cx io (engine_new cfg d) = (Inr rep, e')"
  shows "sys_inv (e', Idle) T" "contents e' T = log_over (dir_log (dk_wal d)) (mf_tables m) T"
proof -
  let ?rs = "dir_log (dk_wal d)"
  obtain w wrep replayed where R: "base_inv e' T" "contents e' T = log_over ?rs (mf_tables m) T"
    "wal_open (eo_wal io) (wal_new (dk_wal d) (wal_fsync_every_n cfg) (wal_segment_roll_bytes cfg)) = (Inr (wrep, replayed), w)"
    "en_wal e' = Some (bump_seqno (manifest_max_seqno m) w)" "en_manifest e' = m"
    "mem_order e' \<and> (\<forall>a \<in> set (memtables e'). \<forall>x \<in> mem_seqnos e' a. x \<le> max_rec_seqno ?rs)"
    by (rule engine_open_result [OF man on(1) asc run]) (rule that; use log in blast)
  have "w_last_seqno w = max_rec_seqno ?rs" using wal_open_result [OF asc R(3)] by blast
  then have "log_seqno e' = Some (max (max_rec_seqno ?rs) (manifest_max_seqno m))"
    by (simp add: log_seqno_def R(4) bump_seqno_def)
  then have "log_order e'" using R(6) by (auto simp: log_order_def R(5) le_max_iff_disj)
  then have "order_inv e' T" using R(6) on(2) by (simp add: order_inv_def table_ranges_def ranges_on_def R(5))
  then show "sys_inv (e', Idle) T" using R(1) by (simp add: sys_inv_def)
  show "contents e' T = log_over ?rs (mf_tables m) T" by (rule R(2))
qed

text \<open>Nothing but the operating system makes it fail.\<close>

lemma engine_open_good:
  assumes man: "load_or_create (cx_json cx) (eo_manifest_open io) (dk_manifest d) = Inr m"
    and on: "tables_on m (dk_sst d) T" and good: "eo_mkdir io" "eo_wal io = io_good" "\<forall>i. eo_open io i"
  shows "\<exists>rep e'. engine_open cx io (engine_new cfg d) = (Inr rep, e')"
proof -
  let ?e2 = "open_state io m (engine_new cfg d)"
  let ?e = "with_memtable (with_readers (mf_tables m) T ?e2)"
  obtain r e3 where rd: "open_readers io (mf_tables m) ?e2 = (r, e3)" by fastforce
  then have e3: "r = Inr ()" "e3 = with_readers (mf_tables m) T ?e2"
    using open_readers_result [OF open_files [OF on, of io cfg] rd] good(3) by (auto simp: with_readers_def)
  obtain rep rs w where w: "wal_open io_good (wal_new (en_wal_dir ?e) (wal_fsync_every_n (en_config ?e)) (wal_segment_roll_bytes (en_config ?e))) = (Inr (rep, rs), w)"
    using wal_open_good by blast
  have M: "same_mem ?e (?e\<lparr>en_wal := Some w\<rparr>)" by (simp add: same_mem_def)
  have "mem_inv (?e\<lparr>en_wal := Some w\<rparr>)" using opening_tables(2) [OF on, of io cfg] by (simp only: mem_inv_same [OF M])
  from replay_all_result [OF this, of io rs] obtain e4 where "replay_all io rs (?e\<lparr>en_wal := Some w\<rparr>) = (Inr (), e4)" by blast
  then have "open_wal io ?e = (Inr rep, e4)" using w good(2) by (simp add: open_wal_def)
  then show ?thesis
    using good(1) rd e3 by (simp add: engine_open_step [OF man] opened_report_def Let_def)
qed

end
