(* ===== verification/Engine_Durable.thy ===== *)
theory Engine_Durable
  imports Engine_Open
begin

text \<open>
  Durability: what is in memory is in the log, so the log replayed over the tables of the saved
  manifest is always what the store means.  Cleanup removes a prefix of the log that the tables cover.
\<close>

section \<open>Logs\<close>

lemma log_find_append: "log_find (xs @ ys) k = (case log_find ys k of Some y \<Rightarrow> Some y | None \<Rightarrow> log_find xs k)"
proof (induction ys rule: rev_induct)
  case (snoc r ys)
  have "log_find (xs @ ys @ [r]) = (log_find (xs @ ys))(rec_key r \<mapsto> log_entry r)"
    using log_find_snoc [of "xs @ ys" r] by simp
  then show ?case using snoc by simp
qed simp

lemma log_find_Some: "log_find rs k = Some y \<Longrightarrow> \<exists>r \<in> set rs. y = log_entry r"
  by (induction rs rule: rev_induct) (auto split: if_splits)

text \<open>Cleanup keeps a suffix of the log.\<close>

lemma map_erase_middle:
  assumes "keys_ascending (ks @ (a, f) # rest)"
  shows "map_erase a (ks @ (a, f) # rest) = ks @ rest"
proof -
  have "a \<notin> fst ` set ks" "a \<notin> fst ` set rest" using keys_ascending_distinct [OF assms] by auto
  then have "filter (\<lambda>p. fst p \<noteq> a) ks = ks" "filter (\<lambda>p. fst p \<noteq> a) rest = rest"
    by (auto intro!: filter_True)
  then show ?thesis by (simp add: map_erase_filter [OF assms])
qed

lemma remove_loop_suffix:
  assumes "remove_loop io watermark segs w deleted = (res, w')" and "wal_ok w" and "w_dir w = ks @ segs"
    and "dir_log ks = [] \<or> (\<exists>r \<in> set (dir_log ks). watermark < rec_seqno r)"
  shows "\<exists>pre. wal_log w = pre @ wal_log w' \<and> (\<forall>r \<in> set pre. rec_seqno r \<le> watermark)"
  using assms
proof (induction io watermark segs w deleted arbitrary: ks rule: remove_loop.induct)
  case (1 io watermark w deleted)
  then show ?case by simp
next
  case (2 io watermark sid f rest w deleted)
  note W = wal_okD [OF "2.prems"(2)]
  have asc: "keys_ascending (ks @ (sid, f) # rest)" using W(2) "2.prems"(3) by simp
  have sm: "seg_max_ok (w_segment_max_seqno w) (sid, f)" using W(7) "2.prems"(3) by simp
  show ?case
  proof (cases "sid = w_active_id w")
    case True
    obtain older g where "w_dir w = older @ [(w_active_id w, g)]" using "2.prems"(2) by (rule wal_okE)
    then have "rest = []"
      using asc "2.prems"(3) True keys_ascending_distinct [OF asc]
      by (cases rest rule: rev_cases) (auto simp: butlast_append)
    then show ?thesis using "2.prems"(1) True by simp
  next
    case other: False
    show ?thesis
    proof (cases "map_find (w_segment_max_seqno w) sid")
      case None
      then have "seg_records f = []" using sm by (simp add: seg_max_ok_def)
      then show ?thesis
        using "2.IH"(2) [OF other None _ "2.prems"(2), of "ks @ [(sid, f)]"] "2.prems" other None by simp
    next
      case (Some m)
      then have m: "m = max_rec_seqno (seg_records f)" using sm by (simp add: seg_max_ok_def)
      show ?thesis
      proof (cases "watermark < m")
        case True
        then have "\<exists>r \<in> set (seg_records f). watermark < rec_seqno r"
          unfolding m using max_rec_seqno_le [of "seg_records f" watermark] by (meson leD not_le_imp_less)
        then show ?thesis
          using "2.IH"(3) [OF other Some True _ "2.prems"(2), of "ks @ [(sid, f)]"] "2.prems" other Some True by auto
      next
        case small: False
        show ?thesis
        proof (cases "io_remove io sid")
          case False
          then show ?thesis using "2.prems" other Some small by auto
        next
          case True
          define w1 where "w1 = w\<lparr>w_dir := map_erase sid (w_dir w),
              w_segment_max_seqno := map_erase sid (w_segment_max_seqno w)\<rparr>"
          have ok1: "wal_ok w1" unfolding w1_def using "2.prems"(2) other by (intro wal_ok_erase)
          have dir1: "w_dir w1 = ks @ rest" using map_erase_middle [OF asc] by (simp add: w1_def "2.prems"(3))
          have low: "\<forall>r \<in> set (seg_records f). rec_seqno r \<le> watermark"
            using max_rec_seqno_ge small unfolding m by (meson not_le order_trans)
          have log: "wal_log w = dir_log ks @ seg_records f @ dir_log rest" "wal_log w1 = dir_log ks @ dir_log rest"
            by (simp_all add: wal_log_def "2.prems"(3) dir1)
          have ks: "dir_log ks = [] \<or> seg_records f = []"
          proof (rule ccontr)
            assume "\<not> (dir_log ks = [] \<or> seg_records f = [])"
            then obtain r q where rq: "r \<in> set (dir_log ks)" "watermark < rec_seqno r" "q \<in> set (seg_records f)"
              using "2.prems"(4) by (metis list.set_sel(1))
            have "rec_seqno r < rec_seqno q"
              using W(8) rq by (auto simp: log log_ascending_append)
            then show False using rq low by auto
          qed
          have "\<exists>pre. wal_log w1 = pre @ wal_log w' \<and> (\<forall>r \<in> set pre. rec_seqno r \<le> watermark)"
            using "2.IH"(4) [OF other Some small, of ks] "2.prems" other Some small True ok1 dir1
            by (simp add: w1_def)
          then obtain pre where pre: "wal_log w1 = pre @ wal_log w'" "\<forall>r \<in> set pre. rec_seqno r \<le> watermark" by blast
          show ?thesis
          proof (cases "dir_log ks = []")
            case True
            then show ?thesis using pre low log by (intro exI [of _ "seg_records f @ pre"]) auto
          next
            case False
            then show ?thesis using pre ks log by (intro exI [of _ pre]) simp
          qed
        qed
      qed
    qed
  qed
qed

lemma cleanup_suffix:
  assumes "remove_segments_covered io watermark w = (res, w')" "wal_ok w"
  obtains pre where "wal_log w = pre @ wal_log w'" "\<forall>r \<in> set pre. rec_seqno r \<le> watermark" "wal_ok w'"
    "w_fsync_every_n w' = w_fsync_every_n w"
proof -
  have run: "remove_loop io watermark (w_dir w) w [] = (res, w')" using assms(1) by (simp add: remove_segments_covered_def)
  show ?thesis
    using remove_loop_suffix [OF run assms(2), of "[]"] remove_loop_keeps [OF run assms(2)] that by auto
qed

section \<open>The saved manifest\<close>

definition saved :: "engine_ctx \<Rightarrow> engine \<Rightarrow> bool" where
  "saved cx e \<longleftrightarrow> load_or_create (cx_json cx) True (en_manifest_file e) = Inr (en_manifest e)"

definition same_manifest :: "engine \<Rightarrow> engine \<Rightarrow> bool" where
  "same_manifest e e' \<longleftrightarrow> en_manifest e' = en_manifest e \<and> en_manifest_file e' = en_manifest_file e"

lemma same_manifestI [intro]:
  "en_manifest e' = en_manifest e \<Longrightarrow> en_manifest_file e' = en_manifest_file e \<Longrightarrow> same_manifest e e'"
  by (simp add: same_manifest_def)

lemma maybe_rotate_manifest: "maybe_rotate io b e = (r, e') \<Longrightarrow> same_manifest e e'"
  by (auto simp: maybe_rotate_def rotate_def publish_version_def Let_def same_manifest_def
      split: if_splits option.splits prod.splits sum.splits)

lemma do_write_manifest: "do_write io d k v e = (r, e') \<Longrightarrow> same_manifest e e'"
proof (cases "en_wal e")
  case None
  then show "do_write io d k v e = (r, e') \<Longrightarrow> same_manifest e e'" by (simp add: do_write_def same_manifest_def)
next
  case (Some w)
  assume run: "do_write io d k v e = (r, e')"
  obtain a w1 where a: "(if d then append_del (eo_wal io) k w else append_put (eo_wal io) k v w) = (a, w1)" by fastforce
  show ?thesis
  proof (cases a)
    case (Inl err)
    then show ?thesis using run Some a by (auto simp: do_write_def same_manifest_def)
  next
    case (Inr s)
    obtain q e2 where q: "apply_mutation io False k v s d (e\<lparr>en_wal := Some w1,
        en_bg := (en_bg e)\<lparr>bg_writes_total := bg_writes_total (en_bg e) + 1\<rparr>\<rparr>) = (q, e2)" by fastforce
    have "e2 = e'" using run Some a Inr q by (cases q) (auto simp: do_write_def)
    moreover have "same_manifest e e2"
      using maybe_rotate_manifest [OF q [unfolded apply_mutation_def]] by (simp add: same_manifest_def)
    ultimately show ?thesis by simp
  qed
qed

lemma ensure_write_capacity_manifest: "same_manifest e (snd (ensure_write_capacity e))"
  by (simp add: ensure_write_capacity_def Let_def same_manifest_def)

lemma guarded_write_manifest: "guarded_write io d k v e = (r, e') \<Longrightarrow> same_manifest e e'"
  using ensure_write_capacity_manifest [of e] do_write_manifest
  by (fastforce simp: guarded_write_def same_manifest_def split: sum.splits if_splits prod.splits option.splits)

lemma resume_write_manifest:
  assumes "resume_write io d k v e = (r, e')"
  shows "same_manifest e e'"
proof -
  let ?e = "e\<lparr>en_bg := (en_bg e)\<lparr>bg_stall_time_ms_total := bg_stall_time_ms_total (en_bg e) + eo_took io\<rparr>\<rparr>"
  obtain q e2 where q: "do_write io d k v ?e = (q, e2)" by fastforce
  have "e' = e \<or> e' = ?e \<or> e' = e2"
    using assms q by (cases "stall_result ?e") (simp_all add: resume_write_def Let_def split: if_splits)
  then show ?thesis using do_write_manifest [OF q] by (auto simp: same_manifest_def)
qed

lemma manifest_save_dump:
  "manifest_save api io m file = (Inr (), file') \<Longrightarrow> \<exists>tx. ja_dump api m = Some tx \<and> file' = Some tx"
  by (auto simp: manifest_save_def split: option.splits if_splits)

text \<open>A step leaves the manifest and its file alone or saves what it makes of it.\<close>

definition dumped :: "engine_ctx \<Rightarrow> engine \<Rightarrow> bool" where
  "dumped cx e \<longleftrightarrow> (\<exists>tx. ja_dump (cx_json cx) (en_manifest e) = Some tx \<and> en_manifest_file e = Some tx)"

lemma dumped_saved:
  assumes "json_roundtrip (cx_json cx)" "dumped cx e" "ranges_descend (mf_tables (en_manifest e))" "ids_ok (en_manifest e)"
  shows "saved cx e"
proof -
  obtain tx where "ja_dump (cx_json cx) (en_manifest e) = Some tx" "en_manifest_file e = Some tx"
    using assms(2) by (auto simp: dumped_def)
  then show ?thesis
    unfolding saved_def using load_saved [OF assms(1) _ ranges_descend_sorted [OF assms(3)]] assms(4) by (simp add: ids_ok_def)
qed

lemma flush_publish_dumped: "flush_publish cx io r e = (Inr (), e') \<Longrightarrow> dumped cx e'"
  by (auto simp: flush_publish_def add_table_def Let_def dumped_def split: prod.splits sum.splits dest!: manifest_save_dump)

lemma compact_publish_dumped: "compact_publish cx io ids added e = (Inr removed, e') \<Longrightarrow> dumped cx e'"
  by (auto simp: compact_publish_def apply_compaction_def Let_def dumped_def split: prod.splits sum.splits dest!: manifest_save_dump)

lemma read_only:
  assumes "sys_inv (e, wk) T" "v \<in> set (en_held e)" "get_version io v k e = (res, e', tr)"
  shows "reads_only (set (ve_tables v)) e e'"
proof -
  have "\<forall>i \<in> set (ve_tables v). table_ok e T i"
    using tab_invD(6) [OF sys_invD(5) [OF assms(1)]] live_idsI(2) [OF assms(2)] by blast
  then show ?thesis using get_version_step [OF _ assms(3)] by blast
qed

lemma step_manifest:
  assumes "step cx s ev s'" and "sys_inv s T"
  shows "same_manifest (fst s) (fst s') \<or> dumped cx (fst s')"
  using assms(1)
proof (cases rule: step.cases)
  case (s_write io d k v e r e' wk)
  then show ?thesis using guarded_write_manifest by simp
next
  case (s_woken io d k v e r e' wk)
  then show ?thesis using resume_write_manifest by simp
next
  case (s_flush_swap io r e e' target)
  then show ?thesis using flush_publish_dumped by simp
next
  case (s_compact_swap e io ids added removed e' cs job)
  then show ?thesis using compact_publish_dumped by simp
next
  case (s_read_body v e io k res e' tr wk)
  then show ?thesis
    using reads_only_keeps(5,13) [OF read_only, of e wk T v io k res e' tr] assms(2) by (simp add: same_manifest_def)
qed (auto simp: same_manifest_def grab_version_def release_version_def Let_def flush_write_def set_flush_running_def
    flush_cleanup_def flush_count_def compact_output_def discard_output_def delete_input_def finish_job_def
    start_background_def stop_workers_def split: prod.splits sum.splits option.splits if_splits)

section \<open>What is in memory is in the log\<close>

definition logged :: "engine \<Rightarrow> wal_record list" where
  "logged e = (case en_wal e of None \<Rightarrow> [] | Some w \<Rightarrow> wal_log w)"

text \<open>\<open>m\<close> is what the store means.\<close>

definition durable :: "engine \<Rightarrow> store_map \<Rightarrow> bool" where
  "durable e m \<longleftrightarrow> (\<exists>w. en_wal e = Some w \<and> wal_ok w) \<and>
     (\<forall>k. case mem_find e k of
        Some y \<Rightarrow> log_find (logged e) k = Some y
      | None \<Rightarrow> \<forall>x. log_find (logged e) k = Some x \<longrightarrow> m k = visible (Some x))"

text \<open>Then the log over the tables is the store.\<close>

lemma durable_log_over:
  assumes "durable e (contents e T)" "tab_inv e T"
  shows "log_over (logged e) (mf_tables (en_manifest e)) T = contents e T"
proof
  fix k
  have rds: "map (table_map T) (en_readers e) = map (table_map T \<circ> tm_id) (mf_tables (en_manifest e))"
    using tab_invD(1) [OF assms(2)] by simp
  have D: "case mem_find e k of Some y \<Rightarrow> log_find (logged e) k = Some y
      | None \<Rightarrow> \<forall>x. log_find (logged e) k = Some x \<longrightarrow> contents e T k = visible (Some x)"
    using assms(1) by (simp add: durable_def)
  show "log_over (logged e) (mf_tables (en_manifest e)) T k = contents e T k"
    using D unfolding log_over_def contents_find rds
    by (cases "mem_find e k"; cases "log_find (logged e) k") (auto simp: map_add_def)
qed

lemma durable_wal: "durable e m \<Longrightarrow> en_wal e = Some w \<Longrightarrow> wal_ok w"
  by (simp add: durable_def)

definition quiet :: "engine \<Rightarrow> engine \<Rightarrow> bool" where
  "quiet e e' \<longleftrightarrow> en_wal e' = en_wal e \<and> mem_find e' \<subseteq>\<^sub>m mem_find e"

lemma quiet_durable:
  assumes "quiet e e'" and d: "durable e (contents e T)"
  shows "durable e' (contents e T)"
proof -
  have log: "logged e' = logged e" "en_wal e' = en_wal e" and sub: "mem_find e' \<subseteq>\<^sub>m mem_find e"
    using assms(1) by (simp_all add: quiet_def logged_def)
  have D: "case mem_find e k of Some y \<Rightarrow> log_find (logged e) k = Some y
      | None \<Rightarrow> \<forall>x. log_find (logged e) k = Some x \<longrightarrow> contents e T k = visible (Some x)" for k
    using d by (simp add: durable_def)
  have "case mem_find e' k of Some y \<Rightarrow> log_find (logged e) k = Some y
      | None \<Rightarrow> \<forall>x. log_find (logged e) k = Some x \<longrightarrow> contents e T k = visible (Some x)" for k
  proof (cases "mem_find e' k")
    case None
    show ?thesis
    proof (cases "mem_find e k")
      case (Some y)
      then have "contents e T k = visible (Some y)" by (simp add: contents_find)
      then show ?thesis using D [of k] None Some by simp
    qed (use D [of k] None in simp)
  next
    case (Some y)
    then have "mem_find e k = Some y" using sub by (metis domI map_le_def)
    then show ?thesis using D [of k] Some by simp
  qed
  then show ?thesis using d unfolding durable_def log by blast
qed

text \<open>The cleanup after a flush.\<close>

lemma mem_find_above:
  assumes "order_inv e T" "mem_find e k = Some y"
  shows "manifest_max_seqno (en_manifest e) < me_seqno y"
proof -
  have "first_hit (map (\<lambda>a. memtable_find (en_mem e a)) as) k = Some y \<Longrightarrow> \<exists>a \<in> set as. memtable_find (en_mem e a) k = Some y" for as
    by (induction as) (auto split: option.splits)
  then obtain a where "a \<in> set (memtables e)" "memtable_find (en_mem e a) k = Some y"
    using assms(2) unfolding mem_find_def by blast
  moreover have "me_seqno y \<in> mem_seqnos e a" using calculation(2) by (auto simp: mem_seqnos_def ran_def)
  ultimately show ?thesis using assms(1) by (auto simp: order_inv_def mem_order_def)
qed

lemma cleanup_durable:
  assumes ord: "order_inv e T" and d: "durable e m" and run: "flush_cleanup io e = (r, e')"
  shows "durable e' m" "\<exists>w w'. en_wal e = Some w \<and> en_wal e' = Some w' \<and> w_fsync_every_n w' = w_fsync_every_n w"
proof -
  obtain w where w: "en_wal e = Some w" "wal_ok w" using d by (auto simp: durable_def)
  obtain q w' where q: "remove_segments_covered (eo_wal io) (manifest_max_seqno (en_manifest e)) w = (q, w')" by fastforce
  have e': "e' = e\<lparr>en_wal := Some w'\<rparr>"
    using run w q by (auto simp: flush_cleanup_def split: sum.splits)
  obtain pre where pre: "wal_log w = pre @ wal_log w'" "\<forall>r \<in> set pre. rec_seqno r \<le> manifest_max_seqno (en_manifest e)"
    and ok: "wal_ok w'" "w_fsync_every_n w' = w_fsync_every_n w"
    by (rule cleanup_suffix [OF q w(2)])
  have mem: "mem_find e' = mem_find e" by (simp add: e' mem_find_def memtables_def)
  have log: "logged e = pre @ logged e'" by (simp add: logged_def w e' pre)
  have D: "case mem_find e k of Some y \<Rightarrow> log_find (logged e) k = Some y
      | None \<Rightarrow> \<forall>x. log_find (logged e) k = Some x \<longrightarrow> m k = visible (Some x)" for k
    using d by (simp add: durable_def)
  have "case mem_find e k of Some y \<Rightarrow> log_find (logged e') k = Some y
      | None \<Rightarrow> \<forall>x. log_find (logged e') k = Some x \<longrightarrow> m k = visible (Some x)" for k
  proof (cases "mem_find e k")
    case None
    then show ?thesis using D [of k] by (auto simp: log log_find_append split: option.splits)
  next
    case (Some y)
    have "log_find pre k \<noteq> Some y"
    proof
      assume "log_find pre k = Some y"
      then have "me_seqno y \<le> manifest_max_seqno (en_manifest e)"
        using pre(2) log_find_Some [of pre k y] by (auto simp: log_entry_def)
      then show False using mem_find_above [OF ord Some] by simp
    qed
    then show ?thesis using D [of k] Some by (auto simp: log log_find_append split: option.splits)
  qed
  then show "durable e' m" using ok(1) by (simp add: durable_def mem) (simp add: e')
  show "\<exists>w w'. en_wal e = Some w \<and> en_wal e' = Some w' \<and> w_fsync_every_n w' = w_fsync_every_n w"
    using w(1) ok(2) by (simp add: e')
qed

section \<open>Writes\<close>

text \<open>The log worked: an acknowledged write fits what recovery accepts, and a write that failed did so
  before it reached the log.\<close>

fun log_worked :: "event \<Rightarrow> engine \<Rightarrow> engine \<Rightarrow> bool" where
  "log_worked (Wrote d k v acked) e e' \<longleftrightarrow>
     (if acked then kMinPayload + length k + length v \<le> kMaxPayload else en_wal e' = en_wal e)"
| "log_worked _ e e' \<longleftrightarrow> True"

lemma wal_roll_keeps:
  assumes "wal_ok w" "wal_roll io w = (Inr i, w')"
  shows "wal_ok w' \<and> wal_log w' = wal_log w \<and> w_fsync_every_n w' = w_fsync_every_n w"
  using assms roll_segment_correct [OF assms(1)] by (auto simp: wal_roll_def bind_st_Inr_iff split: if_splits)

lemma maybe_rotate_durable:
  assumes mem: "mem_inv e" and w: "en_wal e = Some w" "wal_ok w" and run: "maybe_rotate io False e = (Inr u, e')"
  shows "mem_find e' = mem_find e" "\<exists>w'. en_wal e' = Some w' \<and> wal_ok w' \<and> wal_log w' = wal_log w \<and> w_fsync_every_n w' = w_fsync_every_n w"
proof -
  have "e' = e \<or> (\<exists>i w1. wal_roll (eo_wal io) w = (Inr i, w1) \<and> e' = rotate False (e\<lparr>en_wal := Some w1\<rparr>))"
    using run w by (auto simp: maybe_rotate_def split: if_splits sum.splits prod.splits)
  then have "mem_find e' = mem_find e \<and>
      (\<exists>w'. en_wal e' = Some w' \<and> wal_ok w' \<and> wal_log w' = wal_log w \<and> w_fsync_every_n w' = w_fsync_every_n w)"
  proof
    assume "\<exists>i w1. wal_roll (eo_wal io) w = (Inr i, w1) \<and> e' = rotate False (e\<lparr>en_wal := Some w1\<rparr>)"
    then obtain i w1 where r: "wal_roll (eo_wal io) w = (Inr i, w1)" "e' = rotate False (e\<lparr>en_wal := Some w1\<rparr>)" by blast
    have M: "same_mem e (e\<lparr>en_wal := Some w1\<rparr>)" by (simp add: same_mem_def)
    have "mem_find (e\<lparr>en_wal := Some w1\<rparr>) = mem_find e" by (simp add: mem_find_def memtables_def)
    then show ?thesis
      using wal_roll_keeps [OF w(2) r(1)] rotate_mem_find [of "e\<lparr>en_wal := Some w1\<rparr>" False] mem
      by (simp add: r(2) mem_inv_same [OF M])
  qed (use w in simp)
  then show "mem_find e' = mem_find e" "\<exists>w'. en_wal e' = Some w' \<and> wal_ok w' \<and> wal_log w' = wal_log w \<and> w_fsync_every_n w' = w_fsync_every_n w"
    by blast+
qed

lemma durable_extend:
  assumes d: "durable e m" and w': "en_wal e' = Some w'" "wal_ok w'"
    and find: "mem_find e' = (mem_find e)(k \<mapsto> y)" and log: "log_find (logged e') = (log_find (logged e))(k \<mapsto> y)"
    and x: "visible (Some y) = x"
  shows "durable e' (m(k := x))"
proof -
  have D: "case mem_find e j of Some y \<Rightarrow> log_find (logged e) j = Some y
      | None \<Rightarrow> \<forall>x. log_find (logged e) j = Some x \<longrightarrow> m j = visible (Some x)" for j
    using d by (simp add: durable_def)
  have "case mem_find e' j of Some y \<Rightarrow> log_find (logged e') j = Some y
      | None \<Rightarrow> \<forall>z. log_find (logged e') j = Some z \<longrightarrow> (m(k := x)) j = visible (Some z)" for j
    unfolding find log using D [of j] by (cases "j = k") (simp_all split: option.splits)
  then show ?thesis using w' by (simp add: durable_def)
qed

lemma do_write_durable:
  assumes mem: "mem_inv e" and d: "durable e m" and w: "en_wal e = Some w" and room: "w_last_seqno w \<noteq> - 1"
    and ok: "tombstone \<longrightarrow> value = []" "kMinPayload + length key + length value \<le> kMaxPayload"
    and run: "do_write io tombstone key value e = (Inr n, e')"
  shows "durable e' (m(key := written_value tombstone value))"
    and "\<exists>w'. en_wal e' = Some w' \<and> w_fsync_every_n w' = w_fsync_every_n w"
proof -
  let ?r = "\<lparr>rec_type = (if tombstone then kTypeDel else kTypePut), rec_seqno = w_last_seqno w + 1, rec_key = key, rec_value = value\<rparr>"
  let ?y = "\<lparr>me_value = value, me_seqno = w_last_seqno w + 1, me_tombstone = tombstone\<rparr>"
  have rec: "wal_record_ok ?r" using ok by (auto simp: wal_record_ok_def wal_consts)
  have y: "log_entry ?r = ?y" by (simp add: log_entry_def wal_consts)
  have W: "wal_ok w" using durable_wal [OF d w] .
  have "durable e' (m(key := written_value tombstone value)) \<and>
      (\<exists>w'. en_wal e' = Some w' \<and> w_fsync_every_n w' = w_fsync_every_n w)"
    using run w
  proof (cases rule: do_write_cases)
    case (logged s w1 e0 q)
    have "wal_append (eo_wal io) (rec_type ?r) (rec_key ?r) (rec_value ?r) w = (Inr s, w1)"
      using logged(1) ok(1) by (cases tombstone) (simp_all add: append_del_def append_put_def)
    from wal_append_ok [OF W rec _ room this]
    have A: "wal_ok w1" "wal_log w1 = wal_log w @ [?r]" "s = w_last_seqno w + 1" "w_fsync_every_n w1 = w_fsync_every_n w" by simp_all
    obtain u where q: "q = Inr u" using logged(5) by (cases q) auto
    have M: "same_mem e e0" using logged(2) by (simp add: bookkeeping_def)
    have M0: "mem_inv e0" using mem by (simp add: mem_inv_same [OF M])
    have wal0: "en_wal (mem_write key value s tombstone e0) = Some w1" by (simp add: logged(3))
    note R = maybe_rotate_durable [OF mem_write_mem_inv [OF M0] wal0 A(1) logged(4) [unfolded q]]
    obtain w' where w': "en_wal e' = Some w'" "wal_ok w'" "wal_log w' = wal_log w1" "w_fsync_every_n w' = w_fsync_every_n w1"
      using R(2) by blast
    have find: "mem_find e' = (mem_find e)(key \<mapsto> ?y)"
      using R(1) mem_write_mem_find [OF M0, of key "value" s tombstone] by (simp add: A(3) mem_find_def same_memD [OF M])
    have log: "log_find (Engine_Durable.logged e') = (log_find (Engine_Durable.logged e))(key \<mapsto> ?y)"
      by (simp add: logged_def w' w A(2) y)
    have "visible (Some ?y) = written_value tombstone value" by (simp add: visible_def written_value_def)
    from durable_extend [OF d w'(1,2) find log this] show ?thesis using w' A(4) by simp
  qed simp_all
  then show "durable e' (m(key := written_value tombstone value))"
    "\<exists>w'. en_wal e' = Some w' \<and> w_fsync_every_n w' = w_fsync_every_n w" by blast+
qed

text \<open>A write that failed before it reached the log did nothing.\<close>

lemma do_write_failed:
  assumes run: "do_write io d k v e = (Inl err, e')" and same: "en_wal e' = en_wal e" and w: "en_wal e = Some w"
  shows "same_mem e e'" "same_tables e e'"
proof -
  have "same_mem e e' \<and> same_tables e e'"
    using run w
  proof (cases rule: do_write_cases)
    case (not_logged err' w1)
    then show ?thesis by (simp add: same_mem_def same_tables_def)
  next
    case (logged s w1 e0 q)
    have last: "w_last_seqno w1 = w_last_seqno w + 1"
      using logged(1) wal_append_last_seqno by (fastforce simp: append_del_def append_put_def split: if_splits)
    have "w_last_seqno w = w_last_seqno w1"
      using logged(3,4) same w wal_roll_last_seqno
      by (auto simp: maybe_rotate_def split: if_splits sum.splits prod.splits)
    then show ?thesis using last by simp
  qed
  then show "same_mem e e'" "same_tables e e'" by blast+
qed

section \<open>Steps\<close>

lemma same_durable:
  assumes "same_mem e e'" "en_wal e' = en_wal e" "durable e m"
  shows "durable e' m"
proof -
  have "mem_find e' = mem_find e" "logged e' = logged e"
    using assms(2) by (simp_all add: mem_find_def logged_def same_memD [OF assms(1)])
  note eqs = this assms(2)
  show ?thesis using assms(3) unfolding durable_def eqs .
qed

lemma plain_durable:
  assumes "durable e m"
  shows "durable (grab_version v e) m" "durable (release_version v e) m" "durable (discard_output io added e) m"
    "durable (delete_input io i e) m" "durable (finish_job cx io cs job e) m" "durable (start_background e) m"
    "durable (stop_workers e) m" "durable (e\<lparr>en_shutting_down := True\<rparr>) m" "durable (e\<lparr>en_cancel_compaction := True\<rparr>) m"
    "durable (flush_count io r e) m"
  by (rule same_durable [OF _ _ assms]; simp add: same_mem_def grab_version_def release_version_def Let_def discard_output_def
      delete_input_def finish_job_def start_background_def stop_workers_def flush_count_def split: option.split)+

lemma flush_swap_quiet:
  assumes "flush_publish cx io r e = (Inr (), e')"
  shows "quiet e e'"
proof -
  have e': "en_mem e' = en_mem e" "en_active e' = en_active e" "en_immutables e' = butlast (en_immutables e)" "en_wal e' = en_wal e"
    using assms by (auto simp: flush_publish_def Let_def split: prod.splits sum.splits)
  have "mem_find e' \<subseteq>\<^sub>m mem_find e"
  proof (cases "en_immutables e" rule: rev_cases)
    case Nil
    then show ?thesis by (simp add: mem_find_def memtables_def e')
  next
    case (snoc as a)
    then show ?thesis
      by (auto simp: map_le_def mem_find_def memtables_def e' first_hit_append split: option.splits)
  qed
  then show ?thesis by (simp add: quiet_def e')
qed

text \<open>Every step but a write keeps what the log and the memtables say of the store.\<close>

lemma step_durable:
  assumes "step cx s ev s'" and I: "sys_inv s T" and d: "durable (fst s) (contents (fst s) T)"
    and "\<forall>d k v a. ev \<noteq> Wrote d k v a"
  shows "durable (fst s') (contents (fst s) T)"
  using assms(1)
proof (cases rule: step.cases)
  case (s_read_body v e io k res e' tr wk)
  have "sys_inv (e, wk) T" using I s_read_body by simp
  note ro = read_only [OF this s_read_body(4,5)]
  show ?thesis
    using same_durable [OF reads_only_same [OF ro] reads_only_keeps(8) [OF ro]] d by (simp add: s_read_body)
next
  case (s_flush_file io target i e r e')
  have "keys_ascending (en_sst e)" using tab_invD(4) [OF sys_invD(5)] I s_flush_file by simp
  note K = new_file_keeps [OF flush_write_new_file(1) [OF this s_flush_file(4)]]
  show ?thesis using same_durable [of e e'] d by (simp add: s_flush_file K same_mem_def)
next
  case (s_flush_file_fails io target i e err e')
  have "keys_ascending (en_sst e)" using tab_invD(4) [OF sys_invD(5)] I s_flush_file_fails by simp
  note K = new_file_keeps [OF flush_write_new_file(1) [OF this s_flush_file_fails(4)]]
  show ?thesis using same_durable [of e e'] d by (simp add: s_flush_file_fails K same_mem_def)
next
  case (s_compact_file io final e added e' ids cs job)
  have "keys_ascending (en_sst e)" using tab_invD(4) [OF sys_invD(5)] I s_compact_file by simp
  note K = new_file_keeps [OF compact_output_step(1) [OF this refl s_compact_file(4)]]
  show ?thesis using same_durable [of e e'] d by (simp add: s_compact_file K same_mem_def)
next
  case (s_compact_file_fails io final e err e' ids cs job)
  have "keys_ascending (en_sst e)" using tab_invD(4) [OF sys_invD(5)] I s_compact_file_fails by simp
  note K = new_file_keeps [OF compact_output_step(1) [OF this refl s_compact_file_fails(4)]]
  show ?thesis using same_durable [of e e'] d by (simp add: s_compact_file_fails K same_mem_def)
next
  case (s_flush_swap io r e e' target)
  then show ?thesis using quiet_durable [OF flush_swap_quiet] d by simp
next
  case (s_compact_swap e io ids added removed e' cs job)
  have "same_mem e e'" "en_wal e' = en_wal e"
    using s_compact_swap(5) by (auto simp: compact_publish_def same_mem_def split: prod.splits sum.splits)
  then show ?thesis using same_durable [of e e'] d by (simp add: s_compact_swap)
next
  case (s_flush_log io e e' r)
  have "durable e' (contents e T)" using cleanup_durable(1) [OF sys_invD(2) _ s_flush_log(4)] I d by (simp add: s_flush_log)
  then show ?thesis by (simp add: s_flush_log plain_durable)
next
  case (s_flush_log_fails io e err e' r)
  then show ?thesis using cleanup_durable(1) [OF sys_invD(2) _ s_flush_log_fails(4)] I d by simp
qed (use d assms(4) in \<open>simp_all add: plain_durable\<close>)

text \<open>Writes.\<close>

lemma bookkeeping_keeps:
  assumes "bookkeeping e e'"
  shows "same_mem e e'" "en_readers e' = en_readers e" "contents e' T = contents e T"
proof -
  show M: "same_mem e e'" and R: "en_readers e' = en_readers e"
    using assms by (simp_all add: bookkeeping_def same_tables_def)
  show "contents e' T = contents e T" by (simp only: contents_same [OF M R])
qed

lemma write_durable:
  assumes run: "do_write io d k v e = (r, e')" and mem: "mem_inv e" and dur: "durable e (contents e T)"
    and room: "log_seqno e \<noteq> Some (- 1)" and dv: "d \<longrightarrow> v = []"
    and ok: "case r of Inr n \<Rightarrow> kMinPayload + length k + length v \<le> kMaxPayload | Inl err \<Rightarrow> en_wal e' = en_wal e"
    and con: "case r of Inr n \<Rightarrow> contents e' T = (contents e T)(k := written_value d v) | Inl err \<Rightarrow> True"
  shows "durable e' (contents e' T)"
proof -
  obtain w where w: "en_wal e = Some w" using dur by (auto simp: durable_def)
  have room': "w_last_seqno w \<noteq> - 1" using room w by (simp add: log_seqno_def)
  show ?thesis
  proof (cases r)
    case (Inl err)
    have F: "same_mem e e'" "same_tables e e'" using do_write_failed [OF run [unfolded Inl] _ w] ok Inl by simp_all
    have "contents e' T = contents e T" by (simp only: contents_same [OF F(1) same_tablesD(1) [OF F(2)]])
    then show ?thesis using same_durable [OF F(1) _ dur] ok Inl by simp
  next
    case (Inr n)
    then have "contents e' T = (contents e T)(k := written_value d v)" using con by simp
    then show ?thesis using do_write_durable(1) [OF mem dur w room' dv _ run [unfolded Inr]] ok Inr by simp
  qed
qed

lemma writes_durable:
  assumes I: "sys_inv (e, wk) T" and dur: "durable e (contents e T)" and run: "writes io d k v e r e'"
    and room: "log_seqno e \<noteq> Some (- 1)" and dv: "d \<longrightarrow> v = []" and ok: "log_worked (Wrote d k v (\<exists>s. r = Some (Inr s))) e e'"
  shows "durable e' (contents e' T)"
proof -
  obtain w where w: "en_wal e = Some w" using dur by (auto simp: durable_def)
  have eff: "contents e' T = (contents e T)(k := written_value d v)" if "\<exists>s. r = Some (Inr s)"
    using writes_keeps(3) [OF I run room] that by (auto simp: write_effect_def)
  show ?thesis
    using run
  proof (cases rule: writes_cases)
    case quiet
    then have "en_wal e' = en_wal e" using ok by auto
    then show ?thesis using same_durable [OF bookkeeping_keeps(1) [OF quiet(1)] _ dur] bookkeeping_keeps(3) [OF quiet(1)] by simp
  next
    case (wrote e1 q)
    note K = bookkeeping_keeps [OF wrote(1)]
    note wal1 = wrote(5)
    show ?thesis
    proof (rule write_durable [OF wrote(3)])
      show "mem_inv e1" using sys_invD(4) [OF I] by (simp add: mem_inv_same [OF K(1)])
      show "durable e1 (contents e1 T)" using same_durable [OF K(1) wal1 dur] by (simp add: K(3))
      show "log_seqno e1 \<noteq> Some (- 1)" using room wrote(2) by simp
      show "d \<longrightarrow> v = []" by (rule dv)
      show "case q of Inr n \<Rightarrow> kMinPayload + length k + length v \<le> kMaxPayload | Inl err \<Rightarrow> en_wal e' = en_wal e1"
        using ok wrote(4) wal1 by (auto split: sum.splits)
      show "case q of Inr n \<Rightarrow> contents e' T = (contents e1 T)(k := written_value d v) | Inl err \<Rightarrow> True"
        using eff wrote(4) K(3) by (auto split: sum.splits)
    qed
  qed
qed

section \<open>Recoverable stores\<close>

text \<open>The engine means \<open>m\<close>, its log and saved tables mean \<open>m\<close>, and its manifest is the saved one.\<close>

definition recoverable :: "engine_ctx \<Rightarrow> engine \<times> work \<Rightarrow> store_map \<Rightarrow> bool" where
  "recoverable cx s m \<longleftrightarrow> (\<exists>T. sys_inv s T \<and> contents (fst s) T = m) \<and> durable (fst s) m \<and> saved cx (fst s)"

lemma step_saved:
  assumes "json_roundtrip (cx_json cx)" "step cx s ev s'" "sys_inv s T" "sys_inv s' T'" "saved cx (fst s)"
  shows "saved cx (fst s')"
  using step_manifest [OF assms(2,3)]
proof
  assume "dumped cx (fst s')"
  moreover have I: "sys_inv (fst s', snd s') T'" using assms(4) by simp
  have "ranges_descend (mf_tables (en_manifest (fst s')))" using sys_invD(7) [OF I] by (simp add: table_ranges_def)
  moreover have "ids_ok (en_manifest (fst s'))" using tab_invD(2) [OF sys_invD(5) [OF I]] .
  ultimately show ?thesis using dumped_saved [OF assms(1)] by blast
qed (use assms(5) in \<open>simp add: saved_def same_manifest_def\<close>)

lemma step_recoverable:
  assumes json: "json_roundtrip (cx_json cx)" and st: "step cx s ev s'" and R: "recoverable cx s m"
    and log: "log_worked ev (fst s) (fst s')"
  shows "\<exists>m'. spec_step m ev m' \<and> recoverable cx s' m'"
proof -
  obtain T where T: "sys_inv s T" "contents (fst s) T = m" and dur: "durable (fst s) m" and sv: "saved cx (fst s)"
    using R by (auto simp: recoverable_def)
  have "\<exists>T'. sys_inv s' T' \<and> spec_step m ev (contents (fst s') T') \<and> durable (fst s') (contents (fst s') T')"
  proof (cases "\<forall>d k v a. ev \<noteq> Wrote d k v a")
    case True
    obtain T' where T': "sys_inv s' T'" "spec_step m ev (contents (fst s') T')"
      using step_follows [OF st T(1)] T(2) by (auto simp: follows_def)
    have "contents (fst s') T' = m"
    proof (cases ev)
      case (Wrote d k v a)
      then show ?thesis using True by blast
    qed (use T'(2) in simp_all)
    then show ?thesis using T' step_durable [OF st T(1) _ True] dur T(2) by auto
  next
    case False
    have concl: "\<exists>T'. sys_inv s' T' \<and> spec_step m ev (contents (fst s') T') \<and> durable (fst s') (contents (fst s') T')"
      if "write_effect d k v T (fst s) a (fst s')" "order_inv (fst s') T" "frame (fst s) (fst s')" "snd s' = snd s"
        "durable (fst s') (contents (fst s') T)" "ev = Wrote d k v a" for d k v a
    proof -
      have "work_inv (fst s') T (snd s')"
        using work_inv_frame [OF that(3), of T "snd s"] T(1) that(4) by (simp add: sys_inv_def)
      then have "sys_inv s' T" using that(1,2) by (simp add: sys_inv_def write_effect_def)
      then show ?thesis using that(1,5,6) T(2) by (auto simp: write_effect_def)
    qed
    show ?thesis
      using st
    proof (cases rule: step.cases)
      case (s_write io d k v e r e' wk)
      have I: "sys_inv (e, wk) T" using T(1) s_write by simp
      note run = writes_intros(1) [OF s_write(4)]
      have "durable e' (contents e' T)"
        using writes_durable [OF I _ run s_write(5,6)] log dur T(2) by (simp add: s_write)
      then show ?thesis
        using writes_keeps [OF I run s_write(5)]
        by (intro concl [of d k v "\<exists>s. r = Some (Inr s)"]) (simp_all add: s_write)
    next
      case (s_woken io d k v e r e' wk)
      have I: "sys_inv (e, wk) T" using T(1) s_woken by simp
      note run = writes_intros(2) [OF s_woken(4)]
      have "durable e' (contents e' T)"
        using writes_durable [OF I _ run s_woken(5,6)] log dur T(2) by (simp add: s_woken)
      then show ?thesis
        using writes_keeps [OF I run s_woken(5)]
        by (intro concl [of d k v "\<exists>s. r = Some (Inr s)"]) (simp_all add: s_woken)
    qed (use False in simp_all)
  qed
  then obtain T' where T': "sys_inv s' T'" "spec_step m ev (contents (fst s') T')" "durable (fst s') (contents (fst s') T')"
    by blast
  then show ?thesis using step_saved [OF json st T(1) T'(1) sv] unfolding recoverable_def by blast
qed

end
