(* ===== verification/Engine_Correct.thy ===== *)
theory Engine_Correct
  imports Engine_Durable
begin

text \<open>
  What the engine guarantees: it refines the map of its keys, reads are atomic snapshots, and a crash
  at any point followed by a restart gives the same map.
\<close>

section \<open>Crashes\<close>

text \<open>A crash keeps the tables and the manifest, which are synced before they are renamed into place; of
  the log it may lose what no fsync has covered.  Nothing of it is unsynced when every append syncs.\<close>

definition synced :: "engine \<Rightarrow> bool" where
  "synced e \<longleftrightarrow> (\<exists>w. en_wal e = Some w \<and> w_appends_since_sync w = 0)"

definition crashed :: "(nat \<Rightarrow> nat) \<Rightarrow> engine \<Rightarrow> disk" where
  "crashed kept e = (disk_of e)\<lparr>dk_wal := crash_dir kept (dk_wal (disk_of e))\<rparr>"

lemma keys_crash_dir: "map fst (crash_dir kept dir) = map fst dir"
  by (induction dir) (auto simp: crash_dir_def)

lemma crash_dir_ascending: "keys_ascending (crash_dir kept dir) = keys_ascending dir"
  by (simp only: keys_ascending_def keys_crash_dir)

lemma synced_crash_log:
  assumes "wal_ok w" "w_appends_since_sync w = 0"
  shows "dir_log (crash_dir kept (w_dir w)) = wal_log w"
proof -
  obtain rep replayed w' where op: "wal_open io_good (wal_new (crash_dir kept (w_dir w)) 1 0) = (Inr (rep, replayed), w')"
    using wal_open_good by blast
  have "wal_durable w = length (wal_log w)" using assms(2) by (simp add: wal_durable_def)
  then obtain n where "length (wal_log w) \<le> n" "map snd replayed = take n (wal_log w)"
    using dir_keeps_recovers [OF wal_ok_keeps [OF assms(1)] wal_okD(8) [OF assms(1)] _ op] by auto
  moreover have "map snd replayed = dir_log (crash_dir kept (w_dir w))"
    using wal_open_result [OF _ op] wal_okD(2) [OF assms(1)] by (simp add: crash_dir_ascending)
  ultimately show ?thesis by simp
qed

lemma wal_ok_bump: "wal_ok w \<Longrightarrow> wal_ok (bump_seqno n w)"
  by (auto simp: wal_ok_def bump_seqno_def wal_log_def le_max_iff_disj)

lemma tab_inv_tables_on:
  assumes "tab_inv e T"
  shows "tables_on (en_manifest e) (en_sst e) T"
proof -
  note D = tab_invD [OF assms]
  have "written_ok (T (tm_id t)) \<and> tm_file_name t = sst_file_name (tm_id t) \<and>
        map_find (en_sst e) (tm_file_name t) = Some (wt_file (T (tm_id t))) \<and>
        (\<forall>kv \<in> set (wt_entries (T (tm_id t))). tm_min_key t \<le> fst kv \<and> fst kv \<le> tm_max_key t)"
    if t: "t \<in> set (mf_tables (en_manifest e))" for t
    using D(6) [OF D(9) [OF t]] D(5) [OF t] by (auto simp: table_ok_def table_file_of_def reader_ok_def)
  then show ?thesis using D(2,3,4) unfolding tables_on_def by blast
qed

text \<open>What the disk holds after the crash.\<close>

lemma crashed_disk:
  assumes R: "recoverable cx (e, wk) m" and sy: "synced e"
  obtains T where "load_or_create (cx_json cx) True (dk_manifest (crashed kept e)) = Inr (en_manifest e)"
    "tables_on (en_manifest e) (dk_sst (crashed kept e)) T" "keys_ascending (dk_wal (crashed kept e))"
    "log_over (dir_log (dk_wal (crashed kept e))) (mf_tables (en_manifest e)) T = m"
proof -
  obtain T where T: "sys_inv (e, wk) T" "contents e T = m" and dur: "durable e m" and sv: "saved cx e"
    using R by (auto simp: recoverable_def)
  obtain w where w: "en_wal e = Some w" "wal_ok w" "w_appends_since_sync w = 0"
    using dur sy by (auto simp: durable_def synced_def)
  have d: "dk_wal (crashed kept e) = crash_dir kept (w_dir w)" "dk_sst (crashed kept e) = en_sst e"
    "dk_manifest (crashed kept e) = en_manifest_file e"
    by (simp_all add: crashed_def disk_of_def w)
  have log: "dir_log (dk_wal (crashed kept e)) = logged e"
    using synced_crash_log [OF w(2,3)] by (simp add: d logged_def w(1))
  show ?thesis
  proof (rule that)
    show "load_or_create (cx_json cx) True (dk_manifest (crashed kept e)) = Inr (en_manifest e)"
      using sv by (simp add: saved_def d)
    show "tables_on (en_manifest e) (dk_sst (crashed kept e)) T"
      unfolding d by (rule tab_inv_tables_on [OF sys_invD(5) [OF T(1)]])
    show "keys_ascending (dk_wal (crashed kept e))"
      using wal_okD(2) [OF w(2)] by (simp add: d crash_dir_ascending)
    show "log_over (dir_log (dk_wal (crashed kept e))) (mf_tables (en_manifest e)) T = m"
      using durable_log_over [OF _ sys_invD(5) [OF T(1)]] dur T(2) log by simp
  qed
qed

lemma crash_recovers:
  assumes R: "recoverable cx (e, wk) m" and sy: "synced e" and io: "eo_manifest_open io"
    and run: "engine_open cx io (engine_new cfg (crashed kept e)) = (Inr rep, e')"
  obtains T where "base_inv e' T" "contents e' T = m" "ensure_open e' = Inr ()"
proof -
  obtain T where T: "load_or_create (cx_json cx) True (dk_manifest (crashed kept e)) = Inr (en_manifest e)"
    "tables_on (en_manifest e) (dk_sst (crashed kept e)) T" "keys_ascending (dk_wal (crashed kept e))"
    "log_over (dir_log (dk_wal (crashed kept e))) (mf_tables (en_manifest e)) T = m"
    by (rule crashed_disk [OF R sy])
  have man: "load_or_create (cx_json cx) (eo_manifest_open io) (dk_manifest (crashed kept e)) = Inr (en_manifest e)"
    using T(1) io by simp
  show ?thesis
    by (rule engine_open_result [OF man T(2,3) run]) (rule that, assumption, use T(4) in \<open>simp_all add: ensure_open_def\<close>)
qed

lemma crash_opens:
  assumes R: "recoverable cx (e, wk) m" and sy: "synced e"
    and good: "eo_manifest_open io" "eo_mkdir io" "eo_wal io = io_good" "\<forall>i. eo_open io i"
  shows "\<exists>rep e'. engine_open cx io (engine_new cfg (crashed kept e)) = (Inr rep, e')"
proof -
  obtain T where T: "load_or_create (cx_json cx) True (dk_manifest (crashed kept e)) = Inr (en_manifest e)"
    "tables_on (en_manifest e) (dk_sst (crashed kept e)) T"
    by (rule crashed_disk [OF R sy])
  have man: "load_or_create (cx_json cx) (eo_manifest_open io) (dk_manifest (crashed kept e)) = Inr (en_manifest e)"
    using T(1) good(1) by simp
  show ?thesis by (rule engine_open_good [OF man T(2) good(2-4)])
qed

section \<open>A read through the published version\<close>

lemma get_result:
  assumes "base_inv e T" "ensure_open e = Inr ()" "k \<noteq> []" "get io k e = (res, e', tr)"
  shows "res = Inr (contents e T k) \<or> (\<exists>i \<in> set (en_readers e). \<not> eo_open io i) \<and> res = Inl (Thrown IOFailure)"
proof -
  have "get_begin k e = Inr (current e)" using assms(1,2,3) by (simp add: get_begin_def base_inv_def)
  then have "get_version io (current e) k e = (res, e', tr)" using assms(4) by (simp add: get_def)
  from get_version_inv(4) [OF assms(1) disjI1 [OF refl] this] show ?thesis
    by (simp add: contents_def current_def)
qed

section \<open>A fresh store\<close>

definition empty_disk :: disk where
  "empty_disk = \<lparr>dk_wal = [], dk_sst = [], dk_manifest = None, dk_jobs = None, dk_paused = False\<rparr>"

lemma fresh_store:
  assumes "engine_open cx io (engine_new cfg empty_disk) = (Inr rep, e)"
  shows "recoverable cx (e, Idle) Map.empty"
proof -
  have man: "load_or_create (cx_json cx) (eo_manifest_open io) (dk_manifest empty_disk) = Inr manifest_new"
    by (simp add: load_or_create_def empty_disk_def)
  have on: "tables_on manifest_new (dk_sst empty_disk) T" "ranges_on manifest_new T" for T
    by (simp_all add: tables_on_def ranges_on_def manifest_new_def empty_disk_def ids_ok_def ranges_descend_def)
  have asc: "keys_ascending (dk_wal empty_disk)" by (simp add: empty_disk_def)
  have nolog: "dir_log (dk_wal empty_disk) = []" by (simp add: empty_disk_def)
  have over: "log_over [] (mf_tables manifest_new) T = Map.empty" for T
    by (simp add: fun_eq_iff log_over_def manifest_new_def visible_def)
  fix T :: "u64 \<Rightarrow> Table_Lookup.written"
  have S: "sys_inv (e, Idle) T" "contents e T = Map.empty"
    using engine_open_stands_for [OF man on asc _ _ assms, of T] nolog over by (simp_all add: log_ascending_def)
  obtain w wrep replayed where R: "mem_find e = log_find []"
    "wal_open (eo_wal io) (wal_new (dk_wal empty_disk) (wal_fsync_every_n cfg) (wal_segment_roll_bytes cfg)) = (Inr (wrep, replayed), w)"
    "en_wal e = Some (bump_seqno (manifest_max_seqno manifest_new) w)" "en_manifest e = manifest_new"
    "en_manifest_file e = None"
    by (rule engine_open_result [OF man on(1) asc assms, of T]) (rule that; simp add: nolog empty_disk_def)
  have "w_dir (wal_new (dk_wal empty_disk) (wal_fsync_every_n cfg) (wal_segment_roll_bytes cfg)) = []"
    "w_segment_max_seqno (wal_new (dk_wal empty_disk) (wal_fsync_every_n cfg) (wal_segment_roll_bytes cfg)) = []"
    by (simp_all add: wal_new_def empty_disk_def)
  note W = wal_open_empty [OF this R(2)]
  have "wal_ok w" "wal_log w = []"
    using seg_holds_header seg_records_holds [OF seg_holds_header]
    by (auto simp: W wal_ok_def wal_new_def wal_log_def seg_max_ok_def log_ascending_def sf_content_def word_gt_0 unat_gt_0)
  then have "durable e Map.empty"
    using wal_ok_bump by (simp add: durable_def logged_def R(1,3)) (simp add: wal_log_def bump_seqno_def)
  moreover have "saved cx e" using man by (simp add: saved_def R(4,5) load_or_create_def)
  ultimately show ?thesis using S by (auto simp: recoverable_def)
qed

section \<open>A concrete store\<close>

definition good_io :: engine_io where
  "good_io = \<lparr>eo_mkdir = True, eo_wal = io_good, eo_sst = sst_good, eo_manifest = mf_good, eo_manifest_open = True,
     eo_open = (\<lambda>_. True), eo_busy = (\<lambda>_. False), eo_remove = (\<lambda>_. True), eo_now = 0, eo_now_text = [], eo_took = 0\<rparr>"

definition sample_ctx :: engine_ctx where
  "sample_ctx = \<lparr>cx_json = sample_json, cx_jobs = \<lparr>jo_dump = (\<lambda>_. []), jo_parse = (\<lambda>_. None)\<rparr>,
     cx_shape = (\<lambda>_ _. (64, 1, 1)), cx_similar = (\<lambda>_ _ _. True), cx_parse_time = (\<lambda>_. 0)\<rparr>"

definition sample_store :: engine where
  "sample_store = snd (engine_open sample_ctx good_io (engine_new default_config empty_disk))"

lemma sample_store_opened: "\<exists>rep. engine_open sample_ctx good_io (engine_new default_config empty_disk) = (Inr rep, sample_store)"
  by (simp add: sample_store_def engine_open_def engine_new_def empty_disk_def good_io_def Let_def load_or_create_def
      manifest_new_def drop_files_def with_memtable_def open_wal_def wal_open_def wal_new_def io_good_def
      open_active_segment_def create_file_def append_file_def sync_file_def file_of_def empty_file_def sf_content_def
      empty_report_def Wal.written_def default_config_def)

lemma sample_store_fields:
  "ensure_open sample_store = Inr ()" "en_config sample_store = default_config" "en_manifest sample_store = manifest_new"
  "en_immutables sample_store = []" "en_active sample_store = 0" "en_mem sample_store 0 = memtable_new 32"
  "en_wal sample_store = Some (sample_wal\<lparr>w_roll_bytes := 134217728\<rparr>)"
  by (simp_all add: sample_store_def engine_open_def engine_new_def empty_disk_def good_io_def Let_def load_or_create_def
      manifest_new_def drop_files_def with_memtable_def open_wal_def wal_open_def wal_new_def io_good_def
      open_active_segment_def create_file_def append_file_def sync_file_def file_of_def empty_file_def sf_content_def
      empty_report_def Wal.written_def default_config_def ensure_open_def publish_version_def bump_engine_seqno_def
      bump_seqno_def manifest_max_seqno_def sample_wal_def)

text \<open>Its first write.\<close>

lemma sample_put:
  obtains w where "wal_append io_good kTypePut [107] [118] (sample_wal\<lparr>w_roll_bytes := 134217728\<rparr>) = (Inr 1, w)"
    "guarded_write good_io False [107] [118] sample_store = (Some (Inr 1),
       mem_write [107] [118] 1 False (sample_store\<lparr>en_wal := Some w,
         en_bg := (en_bg sample_store)\<lparr>bg_writes_total := bg_writes_total (en_bg sample_store) + 1\<rparr>\<rparr>))"
proof -
  let ?w = "sample_wal\<lparr>w_roll_bytes := 134217728\<rparr>"
  obtain w where ap: "wal_append io_good kTypePut [107] [118] ?w = (Inr 1, w)"
    using wal_append_good [of ?w "[107]" "[118]" kTypePut] by (auto simp: sample_wal_eq kMaxPayload_def)
  have cap: "ensure_write_capacity sample_store = (Some (Inr ()), sample_store)"
    by (simp add: ensure_write_capacity_def sample_store_fields default_config_def table_count_def manifest_new_def)
  let ?e = "mem_write [107] [118] 1 False (sample_store\<lparr>en_wal := Some w,
      en_bg := (en_bg sample_store)\<lparr>bg_writes_total := bg_writes_total (en_bg sample_store) + 1\<rparr>\<rparr>)"
  have "active_bytes ?e = 34"
    by (simp add: active_bytes_def mem_write_def sample_store_fields memtable_apply_def memtable_new_def entry_size_def)
  then have "maybe_rotate good_io False ?e = (Inr (), ?e)"
    by (simp add: maybe_rotate_def sample_store_fields default_config_def)
  then have "guarded_write good_io False [107] [118] sample_store = (Some (Inr 1), ?e)"
    using ap by (simp add: guarded_write_def sample_store_fields cap do_write_def append_put_def good_io_def apply_mutation_def
        mem_write_def)
  then show ?thesis using that ap by blast
qed

section \<open>Executions\<close>

text \<open>Executions in which the log worked.\<close>

inductive log_runs :: "engine_ctx \<Rightarrow> engine \<times> work \<Rightarrow> event list \<Rightarrow> engine \<times> work \<Rightarrow> bool" for cx where
  log_runs_none: "log_runs cx s [] s"
| log_runs_step: "step cx s ev s1 \<Longrightarrow> log_worked ev (fst s) (fst s1) \<Longrightarrow> log_runs cx s1 evs s' \<Longrightarrow> log_runs cx s (ev # evs) s'"

lemma log_runs_recoverable:
  assumes "log_runs cx s evs s'" and "json_roundtrip (cx_json cx)" and "recoverable cx s m"
  shows "\<exists>ms. spec_run m evs ms \<and> recoverable cx s' (last (m # ms))"
  using assms(1,3)
proof (induction arbitrary: m rule: log_runs.induct)
  case (log_runs_none s)
  then show ?case by (intro exI [of _ "[]"]) simp
next
  case (log_runs_step s ev s1 evs s')
  obtain m1 where 1: "spec_step m ev m1" "recoverable cx s1 m1"
    using step_recoverable [OF assms(2) log_runs_step.hyps(1) log_runs_step.prems log_runs_step.hyps(2)] by blast
  obtain ms where "spec_run m1 evs ms" "recoverable cx s' (last (m1 # ms))" using log_runs_step.IH [OF 1(2)] by blast
  then show ?case using 1(1) by (intro exI [of _ "m1 # ms"]) simp
qed

text \<open>The write of the concrete store as a step, and the store after it.\<close>

definition sample_after :: engine where
  "sample_after = snd (guarded_write good_io False [107] [118] sample_store)"

lemma sample_after_step:
  "step sample_ctx (sample_store, Idle) (Wrote False [107] [118] True) (sample_after, Idle)"
  "log_worked (Wrote False [107] [118] True) sample_store sample_after" "synced sample_after"
  "en_closed sample_after = en_closed sample_store" "en_shutting_down sample_after = en_shutting_down sample_store"
  "en_wal sample_after \<noteq> None"
proof -
  obtain w where w: "wal_append io_good kTypePut [107] [118] (sample_wal\<lparr>w_roll_bytes := 134217728\<rparr>) = (Inr 1, w)"
    "guarded_write good_io False [107] [118] sample_store = (Some (Inr 1),
       mem_write [107] [118] 1 False (sample_store\<lparr>en_wal := Some w,
         en_bg := (en_bg sample_store)\<lparr>bg_writes_total := bg_writes_total (en_bg sample_store) + 1\<rparr>\<rparr>))"
    by (rule sample_put)
  have e: "sample_after = mem_write [107] [118] 1 False (sample_store\<lparr>en_wal := Some w,
         en_bg := (en_bg sample_store)\<lparr>bg_writes_total := bg_writes_total (en_bg sample_store) + 1\<rparr>\<rparr>)"
    by (simp add: sample_after_def w(2))
  have "log_seqno sample_store \<noteq> Some (- 1)" by (simp add: log_seqno_def sample_store_fields sample_wal_eq)
  from s_write [OF w(2) this, of sample_ctx Idle]
  show "step sample_ctx (sample_store, Idle) (Wrote False [107] [118] True) (sample_after, Idle)" by (simp add: e)
  show "log_worked (Wrote False [107] [118] True) sample_store sample_after" by (simp add: wal_consts)
  have "w_appends_since_sync w = 0"
    using w(1) by (auto simp: wal_append_def append_bytes_def Let_def sample_wal_eq io_good_def bind_st_Inr_iff
        wal_consts encode_record_def record_payload_def split: if_splits)
  then show "synced sample_after" by (simp add: synced_def e mem_write_def)
  show "en_closed sample_after = en_closed sample_store" "en_shutting_down sample_after = en_shutting_down sample_store"
    "en_wal sample_after \<noteq> None"
    by (simp_all add: e mem_write_def)
qed

lemma sample_fresh: "recoverable sample_ctx (sample_store, Idle) Map.empty"
proof -
  obtain rep where "engine_open sample_ctx good_io (engine_new default_config empty_disk) = (Inr rep, sample_store)"
    using sample_store_opened by blast
  then show ?thesis by (rule fresh_store)
qed

lemma recoverable_stands_for: "recoverable cx s m \<Longrightarrow> stands_for s m"
  by (auto simp: recoverable_def stands_for_def)

section \<open>Properties\<close>



text \<open>C3. Reads are atomic snapshots.  A read loads the published version and then, while any number of
  steps of other threads go on, looks its key up in it: flushes that publish tables, compactions that
  replace and delete them, rotations, writes.  What it answers is the key's value in one of the maps
  the store went through between the load and the answer, or \<open>IOFailure\<close> when a table's file cannot
  be opened; it is never a mixture, and never a table that was deleted under it.\<close>

theorem snapshot_reads:
  assumes "stands_for (e, wk) m" and "get_begin k e = Inr v"
    and "runs cx (grab_version v e, wk) evs (e1, wk1)" and "v \<in> set (en_held e1)"
    and "get_version io v k e1 = (res, e2, tr)"
  shows "\<exists>ms. spec_run m evs ms \<and> ((\<exists>m' \<in> set (m # ms). res = Inr (m' k)) \<or>
    (\<exists>i \<in> set (ve_tables v). \<not> eo_open io i) \<and> res = Inl (Thrown IOFailure))"
proof -
  obtain T where T: "sys_inv (e, wk) T" "contents e T = m" using assms(1) by (auto simp: stands_for_def)
  let ?g = "grab_version v e"
  obtain T1 where G: "sys_inv (?g, wk) T1" "contents ?g T1 = m"
    "\<forall>u \<in> set (en_held ?g). u \<in> set (en_held e) \<and> view ?g T1 u = view e T u \<or> view ?g T1 u = m"
    using grab_follows(1) [OF T(1) assms(2)] T(2) by (auto simp: follows_def)
  have "v = current e" by (rule grab_follows(2) [OF T(1) assms(2)])
  then have v: "view e T v = m" using T(2) by (simp add: contents_def)
  obtain T' ms where R: "sys_inv (e1, wk1) T'" "spec_run m evs ms"
    "\<forall>u \<in> set (en_held e1). u \<in> set (en_held ?g) \<and> view e1 T' u = view ?g T1 u \<or> view e1 T' u \<in> set (m # ms)"
    using runs_views [OF assms(3) G(1)] G(2) by auto
  have "v \<in> set (en_held ?g)" by (simp add: grab_version_def)
  then have "view ?g T1 v = m" using G(3) v by auto
  then have "view e1 T' v \<in> set (m # ms)" using R(3) assms(4) by auto
  then show ?thesis using read_follows(2) [OF R(1) assms(4,5)] R(2) by blast
qed

lemma sample_json_roundtrip: "json_roundtrip (cx_json sample_ctx)"
  by (simp add: sample_ctx_def json_roundtrip_def sample_json_def)

lemma sample_run: "log_runs sample_ctx (sample_store, Idle) [Wrote False [107] [118] True] (sample_after, Idle)"
  using log_runs_step [OF sample_after_step(1) _ log_runs_none] sample_after_step(2) by simp

lemma sample_after_recoverable: "recoverable sample_ctx (sample_after, Idle) [[107] \<mapsto> [118]]"
  using step_recoverable [OF sample_json_roundtrip sample_after_step(1) sample_fresh] sample_after_step(2)
  by (auto simp: written_value_def)

theorem snapshot_reads_witness:
  "\<exists>v e1. get_begin [107] sample_after = Inr v \<and> e1 = start_background (grab_version v sample_after) \<and>
     fst (get_version good_io v [107] e1) = Inr (Some [118])"
proof -
  have opn: "ensure_open sample_after = Inr ()"
    using sample_store_fields(1) sample_after_step(4,5,6) by (auto simp: ensure_open_def split: if_splits)
  obtain T where "base_inv sample_after T"
    using recoverable_stands_for [OF sample_after_recoverable] by (auto simp: stands_for_def sys_inv_def)
  then have v: "get_begin [107] sample_after = Inr (current sample_after)"
    using opn by (simp add: get_begin_def base_inv_def)
  let ?v = "current sample_after" and ?e = "start_background (grab_version (current sample_after) sample_after)"
  have "runs sample_ctx (grab_version ?v sample_after, Idle) [Silent] (?e, Idle)"
    by (intro runs_step [OF s_start] runs_none)
  moreover have "?v \<in> set (en_held ?e)" by (simp add: start_background_def grab_version_def)
  moreover obtain res e2 tr where g: "get_version good_io ?v [107] ?e = (res, e2, tr)" by (metis prod_cases3)
  ultimately obtain ms where "spec_run [[107] \<mapsto> [118]] [Silent] ms" and ms: "(\<exists>m' \<in> set ([[107] \<mapsto> [118]] # ms). res = Inr (m' [107])) \<or>
      (\<exists>i \<in> set (ve_tables ?v). \<not> eo_open good_io i) \<and> res = Inl (Thrown IOFailure)"
    using snapshot_reads [OF recoverable_stands_for [OF sample_after_recoverable] v] by blast
  then obtain m1 where "ms = [m1]" "m1 = [[107] \<mapsto> [118]]" by (cases ms) auto
  then have "res = Inr (Some [118])" using ms by (auto simp: good_io_def)
  then show ?thesis using v g by simp
qed



text \<open>C4. Opening any well-formed directory: when the manifest loads, the tables it lists are on the disk
  as they were written, and the log's segments hold whatever they hold, the opened store means the
  log replayed over the tables: for every key the last readable record, else the entry of the newest
  table that has it.  Replay may freeze memtables on the way.\<close>

theorem open_replays_over_tables:
  assumes "load_or_create (cx_json cx) (eo_manifest_open io) (dk_manifest d) = Inr m"
    and "tables_on m (dk_sst d) T" and "keys_ascending (dk_wal d)"
    and "engine_open cx io (engine_new cfg d) = (Inr rep, e)" and "k \<noteq> []" and "get io1 k e = (res, e1, tr)"
  shows "res = Inr (visible (case log_find (dir_log (dk_wal d)) k of Some x \<Rightarrow> Some x
        | None \<Rightarrow> first_hit (map (\<lambda>t. map_of (wt_entries (T (tm_id t)))) (mf_tables m)) k)) \<or>
      (\<exists>t \<in> set (mf_tables m). \<not> eo_open io1 (tm_id t)) \<and> res = Inl (Thrown IOFailure)"
proof -
  obtain w wrep rs where R: "base_inv e T" "contents e T = log_over (dir_log (dk_wal d)) (mf_tables m) T"
    "en_wal e = Some (bump_seqno (manifest_max_seqno m) w)" "en_manifest e = m" "\<not> en_closed e" "\<not> en_shutting_down e"
    by (rule engine_open_result [OF assms(1-4)]) (rule that; assumption)
  have "ensure_open e = Inr ()" using R by (simp add: ensure_open_def)
  note G = get_result [OF R(1) this assms(5,6)]
  have "en_readers e = map tm_id (mf_tables m)" using tab_invD(1) [OF base_invD(4) [OF R(1)]] R(4) by simp
  then show ?thesis
    using G by (simp add: R(2) log_over_def map_add_def table_map_def [abs_def] comp_def)
qed

definition sample_listed :: manifest where
  "sample_listed = \<lparr>mf_next_sst_id = 2, mf_epoch = 1, mf_tables = [rd_meta (ge_reader sample_env)]\<rparr>"

definition listed_ctx :: engine_ctx where
  "listed_ctx = sample_ctx\<lparr>cx_json := \<lparr>ja_dump = (\<lambda>m. if m = sample_listed then Some [1] else None),
     ja_parse = (\<lambda>t. if t = [1] then Some sample_listed else None)\<rparr>\<rparr>"

definition listed_disk :: disk where
  "listed_disk = empty_disk\<lparr>dk_sst := [(sst_file_name 1, wt_file sample_written)], dk_manifest := Some [1]\<rparr>"

theorem open_replays_over_tables_witness:
  "\<exists>rep e. engine_open listed_ctx good_io (engine_new default_config listed_disk) = (Inr rep, e) \<and>
     fst (get good_io [108] e) = Inr None"
proof -
  have man: "load_or_create (cx_json listed_ctx) (eo_manifest_open good_io) (dk_manifest listed_disk) = Inr sample_listed"
    by (simp add: load_or_create_def listed_ctx_def listed_disk_def good_io_def sample_listed_def newest_first_def
        sample_env_def Let_def reader_new_def)
  have es: "wt_entries sample_written = sorted_entries sample_mem"
    by (simp add: wt_entries_def sample_written_def)
  have on: "tables_on sample_listed (dk_sst listed_disk) (\<lambda>_. sample_written)"
    using sample_written_ok
    by (simp add: tables_on_def sample_listed_def listed_disk_def ids_ok_def sample_env_def reader_new_def es sample_mem_entries)
  have asc: "keys_ascending (dk_wal listed_disk)" by (simp add: listed_disk_def empty_disk_def)
  obtain rep e where op: "engine_open listed_ctx good_io (engine_new default_config listed_disk) = (Inr rep, e)"
    using engine_open_good [OF man on] by (fastforce simp: good_io_def)
  obtain res e1 tr where g: "get good_io [108] e = (res, e1, tr)" by (metis prod_cases3)
  have "res = Inr None"
    using open_replays_over_tables [OF man on asc op _ g]
    by (simp add: good_io_def listed_disk_def empty_disk_def sample_listed_def es sample_mem_entries visible_def)
  then show ?thesis using op g by simp
qed

text \<open>A crashed store opens again.  After any execution from an empty directory in which the log never
  failed, with everything appended synced, a power cut leaves a directory that opens whenever the
  operating system answers: no state that a flush, a cleanup or a compaction can be interrupted in
  makes the store refuse to start.\<close>

theorem crashed_store_opens:
  assumes "json_roundtrip (cx_json cx)"
    and "engine_open cx io (engine_new cfg empty_disk) = (Inr rep, e)"
    and "log_runs cx (e, Idle) evs (e1, wk)" and "synced e1"
    and "eo_manifest_open io1" "eo_mkdir io1" "eo_wal io1 = io_good" "\<forall>i. eo_open io1 i"
  shows "\<exists>rep1 e2. engine_open cx io1 (engine_new cfg1 (crashed kept e1)) = (Inr rep1, e2)"
proof -
  obtain ms where "recoverable cx (e1, wk) (last (Map.empty # ms))"
    using log_runs_recoverable [OF assms(3,1) fresh_store [OF assms(2)]] by blast
  from crash_opens [OF this assms(4-8)] show ?thesis .
qed

theorem crashed_store_opens_witness:
  "\<exists>rep1 e2. engine_open sample_ctx good_io (engine_new default_config (crashed (\<lambda>_. 0) sample_after)) = (Inr rep1, e2)"
proof -
  obtain rep where op: "engine_open sample_ctx good_io (engine_new default_config empty_disk) = (Inr rep, sample_store)"
    using sample_store_opened by blast
  show ?thesis
    by (rule crashed_store_opens [OF sample_json_roundtrip op sample_run sample_after_step(3)]) (simp_all add: good_io_def)
qed

end
