(* ===== verification/Engine_Loops.thy ===== *)
theory Engine_Loops
  imports Engine_Correct
begin

text \<open>
  The loops of the engine: flushing everything pending, automatic compaction, and a writer that waits
  for room.
\<close>

section \<open>The queue of frozen memtables\<close>

lemma flush_one_queue:
  assumes "flush_one cx io e = (Inr again, e')"
  shows "again = (en_immutables e \<noteq> [])" "en_immutables e' = butlast (en_immutables e)" "en_paused e' = en_paused e"
    "en_immutables e \<noteq> [] \<Longrightarrow> \<exists>t. mf_tables (en_manifest e') = t # mf_tables (en_manifest e)"
proof -
  have W: "en_immutables e1 = en_immutables e \<and> en_manifest e1 = en_manifest e \<and> en_paused e1 = en_paused e"
    if "flush_write cx io target i e = (r, e1)" for target i r e1
    using that by (auto simp: flush_write_def set_flush_running_def Let_def split: sum.splits prod.splits)
  have P: "en_immutables e2 = butlast (en_immutables e1) \<and> (\<exists>t. mf_tables (en_manifest e2) = t # mf_tables (en_manifest e1)) \<and>
      en_paused e2 = en_paused e1"
    if "flush_publish cx io r e1 = (Inr u, e2)" for r u e1 e2
    using that by (auto simp: flush_publish_def add_table_def Let_def split: sum.splits prod.splits)
  have C: "en_immutables e3 = en_immutables e2 \<and> en_manifest e3 = en_manifest e2 \<and> en_paused e3 = en_paused e2"
    if "flush_cleanup io e2 = (r, e3)" for r e2 e3
    using that by (auto simp: flush_cleanup_def split: sum.splits prod.splits option.splits)
  show "again = (en_immutables e \<noteq> [])" "en_immutables e' = butlast (en_immutables e)" "en_paused e' = en_paused e"
    "en_immutables e \<noteq> [] \<Longrightarrow> \<exists>t. mf_tables (en_manifest e') = t # mf_tables (en_manifest e)"
    using assms W P C
    by (auto simp: flush_one_def flush_pick_def bind_st_Inr_iff flush_count_def split: if_splits) (metis W P C)+
qed

text \<open>A failed flush leaves the queue, or has taken its oldest memtable off it.\<close>

lemma flush_one_fails:
  assumes "flush_one cx io e = (Inl err, e')"
  shows "en_immutables e' \<in> {en_immutables e, butlast (en_immutables e)}"
proof -
  have W: "en_immutables e1 = en_immutables e" if "flush_write cx io target i e = (r, e1)" for target i r e1
    using that by (auto simp: flush_write_def set_flush_running_def Let_def split: sum.splits prod.splits)
  have P: "en_immutables e2 = butlast (en_immutables e1)" if "flush_publish cx io r e1 = (Inr q, e2)" for r q e1 e2
    using that by (auto simp: flush_publish_def Let_def split: sum.splits prod.splits)
  have P': "en_immutables e2 = en_immutables e1" if "flush_publish cx io r e1 = (Inl q, e2)" for r q e1 e2
    using that by (auto simp: flush_publish_def Let_def split: sum.splits prod.splits)
  have C: "en_immutables e3 = en_immutables e2" if "flush_cleanup io e2 = (r, e3)" for r e2 e3
    using that by (auto simp: flush_cleanup_def split: sum.splits prod.splits option.splits)
  show ?thesis
    using assms by (auto simp: flush_one_def flush_pick_def bind_st_Inl_iff flush_count_def split: if_splits) (metis W P P' C)+
qed

lemma flush_loop_drains:
  assumes "flush_loop cx ios n e = (r, e')" "length (en_immutables e) \<le> n"
  shows "case r of
      Inr results \<Rightarrow> en_immutables e' = [] \<and> en_paused e' = en_paused e \<and>
        (\<exists>new. mf_tables (en_manifest e') = new @ mf_tables (en_manifest e) \<and> results = map result_of_meta (rev new) \<and>
           length new = length (en_immutables e))
    | Inl err \<Rightarrow> \<exists>k. en_immutables e' = take k (en_immutables e)"
  using assms
proof (induction n arbitrary: e r e')
  case 0
  then show ?case by auto
next
  case (Suc n)
  show ?case
  proof (cases "en_immutables e = []")
    case True
    then show ?thesis using Suc.prems by auto
  next
    case ne: False
    obtain q e1 where q: "flush_one cx (ios n) e = (q, e1)" by fastforce
    show ?thesis
    proof (cases q)
      case (Inl err)
      have "en_immutables e1 = take (length (en_immutables e)) (en_immutables e) \<or>
          en_immutables e1 = take (length (en_immutables e) - 1) (en_immutables e)"
        using flush_one_fails [OF q [unfolded Inl]] by (auto simp: butlast_conv_take)
      then have "\<exists>k. en_immutables e1 = take k (en_immutables e)" by blast
      then show ?thesis using Suc.prems(1) ne q Inl by auto
    next
      case (Inr again)
      note F = flush_one_queue [OF q [unfolded Inr]]
      obtain t where t: "mf_tables (en_manifest e1) = t # mf_tables (en_manifest e)" using F(4) [OF ne] by blast
      obtain r2 e2 where r2: "flush_loop cx ios n e1 = (r2, e2)" by fastforce
      have len: "length (en_immutables e1) \<le> n" using F(2) Suc.prems(2) by simp
      note IH = Suc.IH [OF r2 len]
      have run: "bind_st (r2, e2) (\<lambda>rest e2. (Inr (result_of_meta t # rest), e2)) = (r, e')"
        using Suc.prems(1) ne q Inr F(1) r2 t by simp
      show ?thesis
      proof (cases r2)
        case (Inl err)
        then obtain k where "en_immutables e2 = take k (en_immutables e1)" using IH by auto
        then have "en_immutables e2 = take (min k (length (en_immutables e) - 1)) (en_immutables e)"
          by (simp add: F(2) butlast_conv_take)
        then show ?thesis using run Inl by auto
      next
        case (Inr results)
        then obtain new where new: "en_immutables e2 = []" "en_paused e2 = en_paused e1"
          "mf_tables (en_manifest e2) = new @ mf_tables (en_manifest e1)" "results = map result_of_meta (rev new)"
          "length new = length (en_immutables e1)"
          using IH by auto
        have "length (en_immutables e) = Suc (length (en_immutables e1))" using ne F(2) by simp
        then show ?thesis using run Inr new t F(3) by (auto intro!: exI [of _ "new @ [t]"])
      qed
    qed
  qed
qed

section \<open>Compaction leaves the queue alone\<close>

lemma run_compaction_queue: "run_compaction cx io inputs e = (r, e') \<Longrightarrow> en_immutables e' = en_immutables e"
proof -
  have del: "en_immutables (fold (delete_input io) is e1) = en_immutables e1" for "is" e1
    by (induction "is" arbitrary: e1) (simp_all add: delete_input_def Let_def)
  have out: "en_immutables e1 = en_immutables e0" if "compact_output cx io final e0 = (q, e1)" for final q e0 e1
    using that by (auto simp: compact_output_def split: if_splits sum.splits prod.splits)
  have pub: "en_immutables e1 = en_immutables e0" if "compact_publish cx io ids added e0 = (q, e1)" for ids added q e0 e1
    using that by (auto simp: compact_publish_def split: sum.splits prod.splits)
  assume run: "run_compaction cx io inputs e = (r, e')"
  show "en_immutables e' = en_immutables e"
  proof (cases "compact_merge cx inputs e")
    case (Inl err)
    then show ?thesis using run by (simp add: run_compaction_def)
  next
    case (Inr mo)
    show ?thesis
    proof (cases mo)
      case None
      then show ?thesis using run Inr by (simp add: run_compaction_def)
    next
      case (Some mr)
      obtain final job where f: "compact_filter cx io (en_config e) mr = (final, job)" by fastforce
      obtain a e1 where a: "compact_output cx io final e = (a, e1)" by fastforce
      note O = out [OF a]
      show ?thesis
      proof (cases a)
        case (Inl err)
        then show ?thesis using run Inr Some f a O by (simp add: run_compaction_def)
      next
        case added: (Inr added)
        show ?thesis
        proof (cases "en_cancel_compaction e1")
          case True
          then show ?thesis using run Inr Some f a O added
            by (auto simp: run_compaction_def discard_output_def split: option.splits)
        next
          case False
          obtain p e2 where p: "compact_publish cx io (mr_ids mr) added e1 = (p, e2)" by fastforce
          note P = pub [OF p]
          show ?thesis
            using run Inr Some f a O added False p P
            by (cases p) (auto simp: run_compaction_def Let_def finish_job_def del split: option.splits)
        qed
      qed
    qed
  qed
qed

lemma compact_loop_queue: "compact_loop cx ios n e = (r, e') \<Longrightarrow> en_immutables e' = en_immutables e"
proof (induction n arbitrary: e)
  case (Suc n)
  obtain q e1 where q: "run_compaction cx (ios n) None e = (q, e1)" by fastforce
  show ?case
    using Suc q run_compaction_queue [OF q] by (cases q) (auto split: if_splits)
qed simp

text \<open>The fuel of the loop is enough.\<close>

lemma compact_loop_fuel:
  "table_count e < n \<Longrightarrow> compact_loop cx (\<lambda>_. io) (Suc n) e = compact_loop cx (\<lambda>_. io) n e"
proof (induction n arbitrary: e)
  case (Suc n)
  obtain q e1 where q: "run_compaction cx io None e = (q, e1)" by fastforce
  show ?case
  proof (cases q)
    case (Inl err)
    then show ?thesis using q by simp
  next
    case (Inr job)
    show ?thesis
    proof (cases "job = None \<or> table_count e \<le> table_count e1")
      case True
      then show ?thesis using q Inr by auto
    next
      case False
      then have "compact_loop cx (\<lambda>_. io) (Suc n) e1 = compact_loop cx (\<lambda>_. io) n e1"
        using Suc.prems by (intro Suc.IH) auto
      then show ?thesis
        using q Inr False by (simp only: compact_loop.simps(2) [of _ _ "Suc n"] compact_loop.simps(2) [of _ _ n e] bind_st.simps)
    qed
  qed
qed simp

lemma compact_loop_ends:
  assumes "compact_loop cx ios n e = (Inr (), e')" "table_count e < n"
  shows "table_count e' < unat (l0_compaction_trigger (en_config e')) \<or>
    (\<exists>i e1 job. run_compaction cx (ios i) None e1 = (Inr job, e') \<and> (job = None \<or> table_count e1 \<le> table_count e'))"
  using assms
proof (induction n arbitrary: e)
  case (Suc n)
  obtain q e1 where q: "run_compaction cx (ios n) None e = (q, e1)" by fastforce
  show ?case
  proof (cases "table_count e < unat (l0_compaction_trigger (en_config e))")
    case True
    then show ?thesis using Suc.prems(1) by simp
  next
    case False
    then obtain job where job: "q = Inr job" using Suc.prems(1) q by (cases q) auto
    show ?thesis
    proof (cases "job = None \<or> table_count e \<le> table_count e1")
      case True
      then show ?thesis using Suc.prems(1) q job False by auto
    next
      case shrinks: False
      have "compact_loop cx ios n e1 = (Inr (), e')" using Suc.prems(1) q job False shrinks by simp
      then show ?thesis using Suc.prems(2) shrinks by (intro Suc.IH) auto
    qed
  qed
qed simp

section \<open>The bound of the queue\<close>

definition queue_ok :: "engine \<Rightarrow> bool" where
  "queue_ok e \<longleftrightarrow> length (en_immutables e) \<le> unat (max_immutable_tables (en_config e))"

definition queue_kept :: "engine \<Rightarrow> engine \<Rightarrow> bool" where
  "queue_kept e e' \<longleftrightarrow> en_config e' = en_config e \<and> length (en_immutables e') \<le> length (en_immutables e)"

lemma queue_keptI [intro]: "en_config e' = en_config e \<Longrightarrow> en_immutables e' = en_immutables e \<Longrightarrow> queue_kept e e'"
  by (simp add: queue_kept_def)

lemma queue_kept_ok: "queue_kept e e' \<Longrightarrow> queue_ok e \<Longrightarrow> queue_ok e'"
  by (simp add: queue_kept_def queue_ok_def)

lemma maybe_rotate_queue:
  assumes "maybe_rotate io b e = (r, e')" "queue_ok e"
  shows "queue_ok e' \<and> en_config e' = en_config e"
  using assms by (auto simp: maybe_rotate_def rotate_def publish_version_def queue_ok_def Let_def
      split: if_splits option.splits prod.splits sum.splits)

lemma bookkeeping_queue: "bookkeeping e e' \<Longrightarrow> queue_ok e' = queue_ok e"
  by (simp add: bookkeeping_def queue_ok_def same_mem_def)

lemma do_write_queue:
  assumes run: "do_write io d k v e = (r, e')" and ok: "queue_ok e"
  shows "queue_ok e'"
proof (cases "en_wal e")
  case None
  then show ?thesis using run ok by (simp add: do_write_def)
next
  case (Some w)
  show ?thesis
    using run Some
  proof (cases rule: do_write_cases)
    case (not_logged err w1)
    then show ?thesis using ok by (simp add: queue_ok_def)
  next
    case (logged s w1 e0 q)
    then have "queue_ok (mem_write k v s d e0)"
      using ok bookkeeping_queue [OF logged(2)] by (simp add: queue_ok_def)
    then show ?thesis using maybe_rotate_queue [OF logged(4)] by simp
  qed
qed

lemma writes_queue:
  assumes run: "writes io d k v e r e'" and ok: "queue_ok e"
  shows "queue_ok e'"
  using run
proof (cases rule: writes_cases)
  case quiet
  then show ?thesis using ok bookkeeping_queue by simp
next
  case (wrote e1 q)
  then show ?thesis using ok bookkeeping_queue [OF wrote(1)] do_write_queue [OF wrote(3)] by simp
qed

lemma plain_queue:
  "queue_kept e (grab_version v e)" "queue_kept e (release_version v e)" "queue_kept e (discard_output io added e)"
  "queue_kept e (delete_input io i e)" "queue_kept e (finish_job cx io cs job e)" "queue_kept e (start_background e)"
  "queue_kept e (stop_workers e)" "queue_kept e (e\<lparr>en_shutting_down := True\<rparr>)" "queue_kept e (e\<lparr>en_cancel_compaction := True\<rparr>)"
  "queue_kept e (flush_count io r e)"
  by (simp_all add: queue_kept_def grab_version_def release_version_def Let_def discard_output_def
      delete_input_def finish_job_def start_background_def stop_workers_def flush_count_def split: option.split)

lemma job_queue:
  "flush_write cx io target i e = (q1, e') \<Longrightarrow> queue_kept e e'" "flush_publish cx io r e = (q2, e') \<Longrightarrow> queue_kept e e'"
  "flush_cleanup io e = (q3, e') \<Longrightarrow> queue_kept e e'" "compact_output cx io final e = (q4, e') \<Longrightarrow> queue_kept e e'"
  "compact_publish cx io ids added e = (q5, e') \<Longrightarrow> queue_kept e e'"
  by (auto simp: queue_kept_def flush_write_def set_flush_running_def flush_publish_def flush_cleanup_def compact_output_def
      compact_publish_def Let_def split: sum.splits prod.splits option.splits if_splits)

lemma step_queue:
  assumes st: "step cx s ev s'" and I: "sys_inv s T" and ok: "queue_ok (fst s)"
  shows "queue_ok (fst s')"
  using st
proof (cases rule: step.cases)
  case (s_write io d k v e r e' wk)
  then show ?thesis using ok writes_queue [OF writes_intros(1)] by simp
next
  case (s_woken io d k v e r e' wk)
  then show ?thesis using ok writes_queue [OF writes_intros(2)] by simp
next
  case (s_read_body v e io k res e' tr wk)
  have "sys_inv (e, wk) T" using I s_read_body by simp
  note K = reads_only_keeps [OF read_only [OF this s_read_body(4,5)]]
  show ?thesis using ok by (simp add: s_read_body queue_ok_def K)
next
  case (s_flush_log io e e' r)
  then show ?thesis using ok queue_kept_ok [OF job_queue(3)] queue_kept_ok [OF plain_queue(10)] by simp
qed (use ok in \<open>simp_all add: queue_kept_ok [OF plain_queue(1)] queue_kept_ok [OF plain_queue(2)] queue_kept_ok [OF plain_queue(3)]
      queue_kept_ok [OF plain_queue(4)] queue_kept_ok [OF plain_queue(5)] queue_kept_ok [OF plain_queue(6)]
      queue_kept_ok [OF plain_queue(7)] queue_kept_ok [OF plain_queue(8)] queue_kept_ok [OF plain_queue(9)]
      queue_kept_ok [OF job_queue(1)] queue_kept_ok [OF job_queue(2)] queue_kept_ok [OF job_queue(3)]
      queue_kept_ok [OF job_queue(4)] queue_kept_ok [OF job_queue(5)]\<close>)

text \<open>Replay keeps to the bound too.\<close>

lemma replay_queue: "replay_all io rs e = (r, e') \<Longrightarrow> queue_ok e \<Longrightarrow> queue_ok e'"
proof (induction rs arbitrary: e)
  case (Cons p rs)
  obtain sid x where p: "p = (sid, x)" by (cases p)
  obtain q e1 where q: "apply_mutation io True (rec_key x) (rec_value x) (rec_seqno x) (rec_type x = kTypeDel) e = (q, e1)" by fastforce
  have "queue_ok (e\<lparr>en_mem := (en_mem e)(en_active e := memtable_apply (rec_key x) (rec_value x) (rec_seqno x)
      (rec_type x = kTypeDel) (en_mem e (en_active e)))\<rparr>)" using Cons.prems(2) by (simp add: queue_ok_def)
  from maybe_rotate_queue [OF q [unfolded apply_mutation_def] this] have "queue_ok e1" by blast
  then show ?case using Cons q p by (cases q) auto
qed simp

lemma open_readers_queue: "open_readers io ts e = (r, e') \<Longrightarrow> queue_kept e e'"
proof (induction ts arbitrary: e)
  case (Cons t ts)
  then show ?case
    by (fastforce simp: queue_kept_def split: option.splits sum.splits prod.splits)
qed (simp add: queue_kept_def)

lemma engine_open_queue:
  assumes "engine_open cx io (engine_new cfg d) = (Inr rep, e)"
  shows "queue_ok e"
proof -
  have pub: "queue_ok (publish_version (bump_engine_seqno e4)) = queue_ok e4" for e4
    by (simp add: publish_version_def bump_engine_seqno_def Let_def queue_ok_def)
  have wal: "queue_ok e2" if "open_wal io e1 = (r, e2)" "queue_ok e1" for e1 r e2
  proof -
    obtain q w where q: "wal_open (eo_wal io) (wal_new (en_wal_dir e1) (wal_fsync_every_n (en_config e1)) (wal_segment_roll_bytes (en_config e1))) = (q, w)"
      by fastforce
    show ?thesis
    proof (cases q)
      case (Inl err)
      then show ?thesis using that q by (auto simp: open_wal_def queue_ok_def)
    next
      case (Inr pr)
      obtain r2 e3 where r2: "replay_all io (snd pr) (e1\<lparr>en_wal := Some w\<rparr>) = (r2, e3)" by fastforce
      have "queue_ok e3" using replay_queue [OF r2] that(2) by (simp add: queue_ok_def)
      then show ?thesis using that(1) q Inr r2 by (cases r2; cases pr) (auto simp: open_wal_def)
    qed
  qed
  obtain m where m: "load_or_create (cx_json cx) (eo_manifest_open io) (dk_manifest d) = Inr m"
    using assms by (auto simp: engine_open_def Let_def engine_new_def split: if_splits sum.splits)
  obtain e3 e4 wrep where r: "open_readers io (mf_tables m) (open_state io m (engine_new cfg d)) = (Inr (), e3)"
    "open_wal io (with_memtable e3) = (Inr wrep, e4)" "e = publish_version (bump_engine_seqno e4)"
    using assms unfolding engine_open_step [OF m] by (auto simp: bind_st_Inr_iff opened_report_def Let_def split: if_splits)
  have "queue_ok (open_state io m (engine_new cfg d))" by (simp add: queue_ok_def open_state_def engine_new_def)
  then have "queue_ok e3" using queue_kept_ok [OF open_readers_queue [OF r(1)]] by simp
  then have "queue_ok (with_memtable e3)" by (simp add: queue_ok_def with_memtable_def)
  then show ?thesis using wal [OF r(2)] by (simp add: r(3) pub)
qed

lemma runs_queue:
  assumes "runs cx s evs s'" "sys_inv s T" "queue_ok (fst s)"
  shows "queue_ok (fst s')"
  using assms
proof (induction arbitrary: T rule: runs.induct)
  case (runs_step s ev s1 evs s')
  obtain T1 where "sys_inv s1 T1" using step_follows [OF runs_step.hyps(1) runs_step.prems(1)] by (auto simp: follows_def)
  then show ?case using runs_step.IH step_queue [OF runs_step.hyps(1) runs_step.prems] by blast
qed simp

section \<open>A store with a full queue\<close>

definition small_config :: config where
  "small_config = default_config\<lparr>memtable_max_bytes := 0, max_immutable_tables := 1\<rparr>"

definition plain_ctx :: engine_ctx where
  "plain_ctx = sample_ctx\<lparr>cx_json := \<lparr>ja_dump = (\<lambda>_. Some []), ja_parse = (\<lambda>_. None)\<rparr>\<rparr>"

lemma good_io_wal: "eo_wal good_io = io_good"
  by (simp add: good_io_def)

definition small_store :: engine where
  "small_store = snd (engine_open plain_ctx good_io (engine_new small_config empty_disk))"

lemma small_store_opened: "\<exists>rep. engine_open plain_ctx good_io (engine_new small_config empty_disk) = (Inr rep, small_store)"
  by (simp add: small_store_def engine_open_def engine_new_def empty_disk_def good_io_def Let_def load_or_create_def
      manifest_new_def drop_files_def with_memtable_def open_wal_def wal_open_def wal_new_def io_good_def
      open_active_segment_def create_file_def append_file_def sync_file_def file_of_def empty_file_def sf_content_def
      empty_report_def Wal.written_def small_config_def default_config_def)

lemma small_store_fields:
  "ensure_open small_store = Inr ()" "en_config small_store = small_config" "en_manifest small_store = manifest_new"
  "en_immutables small_store = []" "en_active small_store = 0" "en_workers_running small_store = False"
  "en_closed small_store = False" "en_shutting_down small_store = False"
  "en_wal small_store = Some (sample_wal\<lparr>w_roll_bytes := 134217728\<rparr>)"
  by (simp_all add: small_store_def engine_open_def engine_new_def empty_disk_def good_io_def Let_def load_or_create_def
      manifest_new_def drop_files_def with_memtable_def open_wal_def wal_open_def wal_new_def io_good_def
      open_active_segment_def create_file_def append_file_def sync_file_def file_of_def empty_file_def sf_content_def
      empty_report_def Wal.written_def small_config_def default_config_def ensure_open_def publish_version_def
      bump_engine_seqno_def bump_seqno_def manifest_max_seqno_def sample_wal_def)

text \<open>After one write the only slot of the queue is taken, and the next writer waits.\<close>

definition full_store :: engine where
  "full_store = snd (guarded_write good_io False [107] [118] (start_background small_store))"

lemma full_store_fields:
  "runs plain_ctx (small_store, Idle) [Silent, Wrote False [107] [118] True] (full_store, Idle)"
  "length (en_immutables full_store) = 1" "en_config full_store = small_config" "en_manifest full_store = manifest_new"
  "en_workers_running full_store" "\<not> en_shutting_down full_store" "\<not> en_stop_workers full_store"
proof -
  let ?w = "sample_wal\<lparr>w_roll_bytes := 134217728\<rparr>" and ?s = "start_background small_store"
  have S: "en_wal ?s = Some ?w" "en_config ?s = small_config" "en_manifest ?s = manifest_new" "en_immutables ?s = []"
    "ensure_open ?s = Inr ()" "en_workers_running ?s" "\<not> en_shutting_down ?s" "\<not> en_stop_workers ?s"
    using small_store_fields by (simp_all add: start_background_def ensure_open_def)
  obtain w where ap: "wal_append io_good kTypePut [107] [118] ?w = (Inr 1, w)"
    using wal_append_good [of ?w "[107]" "[118]" kTypePut] by (auto simp: sample_wal_eq kMaxPayload_def)
  have "wal_ok ?w" using wal_ok_sample by (simp add: wal_ok_def wal_log_def)
  then have "w_open w"
    using wal_append_ok [of ?w sample_put io_good 1 w] ap sample_ok(1) wal_okD(1)
    by (simp add: sample_put_def sample_wal_eq)
  then obtain i w2 where roll: "wal_roll io_good w = (Inr i, w2)"
    using roll_segment_good [of w] by (auto simp: wal_roll_def)
  let ?e = "mem_write [107] [118] 1 False (?s\<lparr>en_wal := Some w, en_bg := (en_bg ?s)\<lparr>bg_writes_total := bg_writes_total (en_bg ?s) + 1\<rparr>\<rparr>)"
  have cap: "ensure_write_capacity ?s = (Some (Inr ()), ?s)"
    by (simp add: ensure_write_capacity_def S small_config_def default_config_def table_count_def manifest_new_def)
  have "maybe_rotate good_io False ?e = (Inr (), rotate False (?e\<lparr>en_wal := Some w2\<rparr>))"
    using roll by (simp add: maybe_rotate_def S small_config_def good_io_wal)
  then have g: "guarded_write good_io False [107] [118] ?s = (Some (Inr 1), rotate False (?e\<lparr>en_wal := Some w2\<rparr>))"
    using ap by (simp add: guarded_write_def S cap do_write_def append_put_def apply_mutation_def mem_write_def good_io_wal)
  then have full: "full_store = rotate False (?e\<lparr>en_wal := Some w2\<rparr>)" by (simp add: full_store_def)
  have "log_seqno ?s \<noteq> Some (- 1)" by (simp add: log_seqno_def S sample_wal_eq)
  from s_write [OF g this, of plain_ctx Idle]
  have "step plain_ctx (?s, Idle) (Wrote False [107] [118] True) (full_store, Idle)" by (simp add: full)
  then show "runs plain_ctx (small_store, Idle) [Silent, Wrote False [107] [118] True] (full_store, Idle)"
    by (intro runs_step [OF s_start] runs_step [OF _ runs_none])
  show "length (en_immutables full_store) = 1" "en_config full_store = small_config" "en_manifest full_store = manifest_new"
    using S by (simp_all add: full rotate_def Let_def mem_write_def)
  show "en_workers_running full_store" "\<not> en_shutting_down full_store" "\<not> en_stop_workers full_store"
    using S by (simp_all add: full rotate_def publish_version_def Let_def mem_write_def)
qed

section \<open>Properties\<close>



text \<open>C16. Automatic compaction ends.  Every round that goes on leaves fewer tables, so the number of tables
  plus one is fuel enough, whatever the system answers: when the loop returns without an error,
  compaction is paused, or the number of tables is below the trigger, or the last round found
  nothing to compact or did not reduce the number of tables.\<close>

theorem auto_compaction_ends:
  assumes "maybe_auto_compact cx ios e = (Inr (), e')"
  shows "en_paused e \<and> e' = e \<or> table_count e' < unat (l0_compaction_trigger (en_config e')) \<or>
    (\<exists>i e1 job. run_compaction cx (ios i) None e1 = (Inr job, e') \<and> (job = None \<or> table_count e1 \<le> table_count e'))"
  using assms compact_loop_ends [of cx ios "table_count e + 1" e e'] by (auto simp: maybe_auto_compact_def split: if_splits)

theorem auto_compaction_ends_witness:
  "\<exists>e'. maybe_auto_compact sample_ctx (\<lambda>_. good_io) sample_store = (Inr (), e') \<and>
     (en_paused sample_store \<and> e' = sample_store \<or> table_count e' < unat (l0_compaction_trigger (en_config e')) \<or>
      (\<exists>e1 job. run_compaction sample_ctx good_io None e1 = (Inr job, e') \<and> (job = None \<or> table_count e1 \<le> table_count e')))"
proof -
  have "maybe_auto_compact sample_ctx (\<lambda>_. good_io) sample_store = (Inr (), sample_store)"
    by (simp add: maybe_auto_compact_def table_count_def sample_store_fields manifest_new_def default_config_def)
  from auto_compaction_ends [OF this] this show ?thesis by auto
qed



end
