(* ===== verification/Json.thy ===== *)
theory Json
  imports Complex_Main Prelude
begin

text \<open>
  What the store uses of its JSON library.  The library is third-party code, so it is the parameter
  \<open>json_lib\<close> over an abstract type of documents: its parser and printer, the accessors and the
  constructors that \<open>src/config.cpp\<close>, \<open>src/manifest.cpp\<close>, \<open>src/compaction.cpp\<close> and \<open>src/main.cpp\<close> call.
  \<open>None\<close> is a thrown \<open>json::exception\<close>.  \<open>json_laws\<close> collects what its manual promises.
\<close>

section \<open>The interface\<close>

text \<open>\<open>js_items\<close> iterates with \<open>it.key()\<close>; \<open>js_find\<close> looks a key up in an object and throws when the
  document is none; the typed readers throw when the document has another type.\<close>

record 'j json_lib =
  js_parse :: "bytes \<Rightarrow> 'j option"
  js_dump :: "'j \<Rightarrow> bytes option"
  js_items :: "'j \<Rightarrow> (string \<times> 'j) list option"
  js_elements :: "'j \<Rightarrow> 'j list"
  js_find :: "'j \<Rightarrow> string \<Rightarrow> 'j option option"
  js_u64 :: "'j \<Rightarrow> u64 option"
  js_u32 :: "'j \<Rightarrow> u32 option"
  js_bool :: "'j \<Rightarrow> bool option"
  js_double :: "'j \<Rightarrow> rat option"
  js_bytes :: "'j \<Rightarrow> bytes option"
  js_of_u64 :: "u64 \<Rightarrow> 'j"
  js_of_u32 :: "u32 \<Rightarrow> 'j"
  js_of_double :: "rat \<Rightarrow> 'j"
  js_of_bytes :: "bytes \<Rightarrow> 'j"
  js_array :: "'j list \<Rightarrow> 'j"
  js_object :: "(string \<times> 'j) list \<Rightarrow> 'j"

text \<open>\<open>at\<close>, \<open>value\<close> with its default, \<open>contains\<close>.\<close>

definition js_at :: "'j json_lib \<Rightarrow> 'j \<Rightarrow> string \<Rightarrow> 'j option" where
  "js_at lib d k = (case js_find lib d k of None \<Rightarrow> None | Some r \<Rightarrow> r)"

definition js_value :: "'j json_lib \<Rightarrow> ('j \<Rightarrow> 'a option) \<Rightarrow> 'j \<Rightarrow> string \<Rightarrow> 'a \<Rightarrow> 'a option" where
  "js_value lib get d k dflt = (case js_find lib d k of
      None \<Rightarrow> None
    | Some None \<Rightarrow> Some dflt
    | Some (Some v) \<Rightarrow> get v)"

definition js_contains :: "'j json_lib \<Rightarrow> 'j \<Rightarrow> string \<Rightarrow> bool" where
  "js_contains lib d k = (case js_find lib d k of Some (Some _) \<Rightarrow> True | _ \<Rightarrow> False)"

definition js_field :: "'j json_lib \<Rightarrow> ('j \<Rightarrow> 'a option) \<Rightarrow> 'j \<Rightarrow> string \<Rightarrow> 'a option" where
  "js_field lib get d k = Option.bind (js_at lib d k) get"

text \<open>Text of the program (names, times, paths) as the bytes of a \<open>std::string\<close> and back.\<close>

definition bytes_of :: "string \<Rightarrow> bytes" where
  "bytes_of s = map of_char s"

definition text_of :: "bytes \<Rightarrow> string" where
  "text_of bs = map (\<lambda>b. char_of (unat b)) bs"

definition js_string :: "'j json_lib \<Rightarrow> 'j \<Rightarrow> string option" where
  "js_string lib d = map_option text_of (js_bytes lib d)"

definition js_of_string :: "'j json_lib \<Rightarrow> string \<Rightarrow> 'j" where
  "js_of_string lib s = js_of_bytes lib (bytes_of s)"

text \<open>\<open>get<std::vector<std::uint64_t>>\<close>.\<close>

fun js_u64s_of :: "'j json_lib \<Rightarrow> 'j list \<Rightarrow> u64 list option" where
  "js_u64s_of lib [] = Some []"
| "js_u64s_of lib (d # ds) = Option.bind (js_u64 lib d) (\<lambda>n. map_option (Cons n) (js_u64s_of lib ds))"

section \<open>What the library promises\<close>

definition json_laws :: "'j json_lib \<Rightarrow> bool" where
  "json_laws lib \<longleftrightarrow>
     (\<forall>d t. js_dump lib d = Some t \<longrightarrow> js_parse lib t = Some d) \<and>
     (\<forall>kvs k. distinct (map fst kvs) \<longrightarrow> js_find lib (js_object lib kvs) k = Some (map_of kvs k)) \<and>
     (\<forall>ds. js_elements lib (js_array lib ds) = ds) \<and>
     (\<forall>n. js_u64 lib (js_of_u64 lib n) = Some n) \<and>
     (\<forall>n. js_u32 lib (js_of_u32 lib n) = Some n) \<and>
     (\<forall>x. js_double lib (js_of_double lib x) = Some x) \<and>
     (\<forall>s. js_bytes lib (js_of_bytes lib s) = Some s)"

named_theorems json_simps \<open>reading back what was written\<close>

lemma json_lawsD:
  assumes "json_laws lib"
  shows "js_dump lib d = Some t \<Longrightarrow> js_parse lib t = Some d"
    and "distinct (map fst kvs) \<Longrightarrow> js_find lib (js_object lib kvs) k = Some (map_of kvs k)"
    and "js_elements lib (js_array lib ds) = ds"
    and "js_u64 lib (js_of_u64 lib n) = Some n"
    and "js_u32 lib (js_of_u32 lib m) = Some m"
    and "js_double lib (js_of_double lib x) = Some x"
    and "js_bytes lib (js_of_bytes lib s) = Some s"
  using assms by (simp_all add: json_laws_def)

lemma text_of_bytes_of [simp, json_simps]: "text_of (bytes_of s) = s"
proof -
  have "char_of (unat (of_char c :: byte)) = c" for c
  proof -
    have "(of_char c :: byte) = of_nat (of_char c)" by (cases c) (simp add: of_char_def)
    moreover have "(of_char c :: nat) < 256" by simp
    ultimately have "unat (of_char c :: byte) = of_char c" by (simp add: unat_of_nat take_bit_nat_eq_self_iff)
    then show ?thesis by simp
  qed
  then show ?thesis by (simp add: text_of_def bytes_of_def map_idI)
qed

lemma js_string_of_string:
  "json_laws lib \<Longrightarrow> js_string lib (js_of_string lib s) = Some s"
  by (simp add: js_string_def js_of_string_def json_lawsD)

lemma js_u64s_of_map: "json_laws lib \<Longrightarrow> js_u64s_of lib (map (js_of_u64 lib) ns) = Some ns"
  by (induction ns) (simp_all add: json_lawsD)

lemma js_field_object:
  "json_laws lib \<Longrightarrow> distinct (map fst kvs) \<Longrightarrow> js_field lib get (js_object lib kvs) k = Option.bind (map_of kvs k) get"
  by (simp add: js_field_def js_at_def json_lawsD)

lemma js_value_object:
  "json_laws lib \<Longrightarrow> distinct (map fst kvs) \<Longrightarrow>
    js_value lib get (js_object lib kvs) k dflt = (case map_of kvs k of None \<Rightarrow> Some dflt | Some v \<Rightarrow> get v)"
  by (simp add: js_value_def json_lawsD)

lemma js_contains_object:
  "json_laws lib \<Longrightarrow> distinct (map fst kvs) \<Longrightarrow> js_contains lib (js_object lib kvs) k \<longleftrightarrow> map_of kvs k \<noteq> None"
  by (cases "map_of kvs k") (simp_all add: js_contains_def json_lawsD del: not_None_eq)

section \<open>A library that keeps the promises\<close>

text \<open>Documents as trees.  Its printer knows one document, which it prints as one byte; the rest is the
  obvious.  It shows that the promises can be kept.\<close>

datatype tree =
    T_Null
  | T_Bool bool
  | T_U64 u64
  | T_U32 u32
  | T_Double rat
  | T_Bytes bytes
  | T_Array "tree list"
  | T_Object "(string \<times> tree) list"

fun tree_items :: "tree \<Rightarrow> (string \<times> tree) list option" where
  "tree_items T_Null = Some []"
| "tree_items (T_Object kvs) = Some kvs"
| "tree_items (T_Array []) = Some []"
| "tree_items _ = None"

definition tree_lib :: "tree \<Rightarrow> tree json_lib" where
  "tree_lib d0 = \<lparr>js_parse = (\<lambda>t. if t = [1] then Some d0 else None),
     js_dump = (\<lambda>d. if d = d0 then Some [1] else None),
     js_items = tree_items,
     js_elements = (\<lambda>d. case d of T_Array ds \<Rightarrow> ds | _ \<Rightarrow> []),
     js_find = (\<lambda>d k. case d of T_Object kvs \<Rightarrow> Some (map_of kvs k) | _ \<Rightarrow> None),
     js_u64 = (\<lambda>d. case d of T_U64 n \<Rightarrow> Some n | T_U32 n \<Rightarrow> Some (ucast n) | _ \<Rightarrow> None),
     js_u32 = (\<lambda>d. case d of T_U64 n \<Rightarrow> Some (ucast n) | T_U32 n \<Rightarrow> Some n | _ \<Rightarrow> None),
     js_bool = (\<lambda>d. case d of T_Bool b \<Rightarrow> Some b | _ \<Rightarrow> None),
     js_double = (\<lambda>d. case d of T_Double x \<Rightarrow> Some x | _ \<Rightarrow> None),
     js_bytes = (\<lambda>d. case d of T_Bytes s \<Rightarrow> Some s | _ \<Rightarrow> None),
     js_of_u64 = T_U64, js_of_u32 = T_U32, js_of_double = T_Double, js_of_bytes = T_Bytes,
     js_array = T_Array, js_object = T_Object\<rparr>"

lemma tree_lib_laws: "json_laws (tree_lib d0)"
  by (simp add: json_laws_def tree_lib_def)

end
