(* ===== verification/Config_Load.thy ===== *)
theory Config_Load
  imports Json Config Names
begin

text \<open>
  \<open>Config::load\<close>, \<open>Config::apply_env\<close> and \<open>Config::print\<close> of \<open>src/config.cpp\<close>: the built-in
  defaults, the JSON file over them, the environment over both.  The chain of comparisons on the key
  and the sequence of environment variables are tables with one row per line of the code.  A
  \<open>double\<close> is the rational its text denotes: \<open>std::stod\<close> and the printing of a \<open>double\<close> are the
  parameters \<open>stod\<close> and \<open>show_double\<close>.
\<close>

section \<open>Numbers in text\<close>

text \<open>\<open>std::stoull\<close>: blanks, a sign, digits; what follows is ignored.  No digits or a value beyond 64
  bits throw; a minus sign negates modulo $2^{64}$.  \<open>unsigned long\<close> has 64 bits on the platforms the
  code runs on except Windows, so \<open>std::stoul\<close> is the same function.\<close>

definition is_blank :: "char \<Rightarrow> bool" where
  "is_blank c \<longleftrightarrow> (of_char c :: nat) = 32 \<or> 9 \<le> (of_char c :: nat) \<and> (of_char c :: nat) \<le> 13"

definition stoull :: "string \<Rightarrow> u64 result" where
  "stoull s =
     (let t = dropWhile is_blank s;
          neg = (t \<noteq> [] \<and> hd t = CHR ''-'');
          u = (if t \<noteq> [] \<and> (hd t = CHR ''-'' \<or> hd t = CHR ''+'') then tl t else t);
          ds = takeWhile is_digit u
      in if ds = [] \<or> 2 ^ 64 \<le> digits_value ds then Inl Escaped
         else Inr (if neg then - of_nat (digits_value ds) else of_nat (digits_value ds)))"

definition stoul :: "string \<Rightarrow> u64 result" where
  "stoul = stoull"

text \<open>\<open>static_cast<std::uint32_t>(std::stoul(v))\<close>.\<close>

definition parse_u32 :: "string \<Rightarrow> u32 result" where
  "parse_u32 s = and_then (stoul s) (\<lambda>x. Inr (ucast x))"

section \<open>The file\<close>

definition from_doc :: "('j \<Rightarrow> 'a option) \<Rightarrow> ('a \<Rightarrow> config \<Rightarrow> config) \<Rightarrow> 'j \<Rightarrow> config \<Rightarrow> config result" where
  "from_doc get upd v c = (case get v of None \<Rightarrow> Inl Escaped | Some x \<Rightarrow> Inr (upd x c))"

definition from_text :: "'j json_lib \<Rightarrow> (string \<Rightarrow> 'a result) \<Rightarrow> ('a \<Rightarrow> config \<Rightarrow> config) \<Rightarrow> 'j \<Rightarrow> config \<Rightarrow> config result" where
  "from_text lib parse upd v c =
     (case js_string lib v of None \<Rightarrow> Inl Escaped | Some s \<Rightarrow> and_then (parse s) (\<lambda>x. Inr (upd x c)))"

definition known_keys :: "string list" where
  "known_keys = [
     ''data_dir'', ''memtable_max_bytes'', ''max_immutable_tables'', ''memtable_size_overhead_bytes_per_entry'',
     ''block_size'', ''bloom_false_positive'', ''sst_dir'', ''restart_interval'',
     ''max_build_buffer_mb'', ''block_cache_mb'', ''cache_index_blocks'', ''max_open_files'',
     ''wal_fsync_every_n'', ''wal_segment_roll_bytes'', ''compression'', ''log_level'',
     ''manifest_path'', ''publish_log_level'', ''size_tiered_fan_in'', ''size_tiered_size_ratio'',
     ''tombstone_grace_seconds'', ''compaction_max_concurrent'', ''compaction_io_mb_per_s'', ''l0_compaction_trigger'',
     ''l0_stop_writes'', ''bg_tick_ms'', ''shutdown_timeout_ms'', ''metrics_enabled'',
     ''http_listen_addr'', ''stats_sampling_interval_ms'', ''doctor_bundle_max_mb'']"

definition key_table :: "'j json_lib \<Rightarrow> (string \<times> ('j \<Rightarrow> config \<Rightarrow> config result)) list" where
  "key_table lib = [
     (''data_dir'', from_doc (js_string lib) (\<lambda>x. data_dir_update (\<lambda>_. x))),
     (''memtable_max_bytes'', from_doc (js_u64 lib) (\<lambda>x. memtable_max_bytes_update (\<lambda>_. x))),
     (''max_immutable_tables'', from_doc (js_u32 lib) (\<lambda>x. max_immutable_tables_update (\<lambda>_. x))),
     (''memtable_size_overhead_bytes_per_entry'', from_doc (js_u32 lib) (\<lambda>x. memtable_size_overhead_bytes_per_entry_update (\<lambda>_. x))),
     (''block_size'', from_doc (js_u32 lib) (\<lambda>x. block_size_update (\<lambda>_. x))),
     (''bloom_false_positive'', from_doc (js_double lib) (\<lambda>x. bloom_false_positive_update (\<lambda>_. x))),
     (''sst_dir'', from_doc (js_string lib) (\<lambda>x. sst_dir_update (\<lambda>_. x))),
     (''restart_interval'', from_doc (js_u32 lib) (\<lambda>x. restart_interval_update (\<lambda>_. x))),
     (''max_build_buffer_mb'', from_doc (js_u32 lib) (\<lambda>x. max_build_buffer_mb_update (\<lambda>_. x))),
     (''block_cache_mb'', from_doc (js_u32 lib) (\<lambda>x. block_cache_mb_update (\<lambda>_. x))),
     (''cache_index_blocks'', from_doc (js_bool lib) (\<lambda>x. cache_index_blocks_update (\<lambda>_. x))),
     (''max_open_files'', from_doc (js_u32 lib) (\<lambda>x. max_open_files_update (\<lambda>_. x))),
     (''wal_fsync_every_n'', from_doc (js_u32 lib) (\<lambda>x. wal_fsync_every_n_update (\<lambda>_. x))),
     (''wal_segment_roll_bytes'', from_doc (js_u64 lib) (\<lambda>x. wal_segment_roll_bytes_update (\<lambda>_. x))),
     (''compression'', from_text lib parse_compression (\<lambda>x. compression_update (\<lambda>_. x))),
     (''log_level'', from_text lib log_level_from_string (\<lambda>x. log_level_update (\<lambda>_. x))),
     (''manifest_path'', from_doc (js_string lib) (\<lambda>x. manifest_path_update (\<lambda>_. x))),
     (''publish_log_level'', from_text lib log_level_from_string (\<lambda>x. publish_log_level_update (\<lambda>_. x))),
     (''size_tiered_fan_in'', from_doc (js_u32 lib) (\<lambda>x. size_tiered_fan_in_update (\<lambda>_. x))),
     (''size_tiered_size_ratio'', from_doc (js_double lib) (\<lambda>x. size_tiered_size_ratio_update (\<lambda>_. x))),
     (''tombstone_grace_seconds'', from_doc (js_u32 lib) (\<lambda>x. tombstone_grace_seconds_update (\<lambda>_. x))),
     (''compaction_max_concurrent'', from_doc (js_u32 lib) (\<lambda>x. compaction_max_concurrent_update (\<lambda>_. x))),
     (''compaction_io_mb_per_s'', from_doc (js_u32 lib) (\<lambda>x. compaction_io_mb_per_s_update (\<lambda>_. x))),
     (''l0_compaction_trigger'', from_doc (js_u32 lib) (\<lambda>x. l0_compaction_trigger_update (\<lambda>_. x))),
     (''l0_stop_writes'', from_doc (js_u32 lib) (\<lambda>x. l0_stop_writes_update (\<lambda>_. x))),
     (''bg_tick_ms'', from_doc (js_u32 lib) (\<lambda>x. bg_tick_ms_update (\<lambda>_. x))),
     (''shutdown_timeout_ms'', from_doc (js_u32 lib) (\<lambda>x. shutdown_timeout_ms_update (\<lambda>_. x))),
     (''metrics_enabled'', from_doc (js_bool lib) (\<lambda>x. metrics_enabled_update (\<lambda>_. x))),
     (''http_listen_addr'', from_doc (js_string lib) (\<lambda>x. http_listen_addr_update (\<lambda>_. x))),
     (''stats_sampling_interval_ms'', from_doc (js_u32 lib) (\<lambda>x. stats_sampling_interval_ms_update (\<lambda>_. x))),
     (''doctor_bundle_max_mb'', from_doc (js_u32 lib) (\<lambda>x. doctor_bundle_max_mb_update (\<lambda>_. x)))]"

text \<open>The loop over the document's items, with the unknown keys it warns of.\<close>

fun load_items :: "'j json_lib \<Rightarrow> (string \<times> 'j) list \<Rightarrow> config \<Rightarrow> config result \<times> string list" where
  "load_items lib [] c = (Inr c, [])"
| "load_items lib ((k, v) # rest) c =
     (if k \<notin> set known_keys then (let (r, unknown) = load_items lib rest c in (r, k # unknown))
      else
        case map_of (key_table lib) k of
          None \<Rightarrow> load_items lib rest c
        | Some set_key \<Rightarrow>
            (case set_key v c of
               Inl err \<Rightarrow> (Inl err, [])
             | Inr c1 \<Rightarrow> load_items lib rest c1))"

section \<open>The environment\<close>

definition from_env :: "(string \<Rightarrow> 'a result) \<Rightarrow> ('a \<Rightarrow> config \<Rightarrow> config) \<Rightarrow> string \<Rightarrow> config \<Rightarrow> config result" where
  "from_env parse upd s c = and_then (parse s) (\<lambda>x. Inr (upd x c))"

definition env_table :: "(string \<Rightarrow> rat result) \<Rightarrow> (string \<times> (string \<Rightarrow> config \<Rightarrow> config result)) list" where
  "env_table stod = [
     (''LSMKV_DATA_DIR'', from_env Inr (\<lambda>x. data_dir_update (\<lambda>_. x))),
     (''LSMKV_MEMTABLE_MAX_BYTES'', from_env stoull (\<lambda>x. memtable_max_bytes_update (\<lambda>_. x))),
     (''LSMKV_MAX_IMMUTABLE_TABLES'', from_env parse_u32 (\<lambda>x. max_immutable_tables_update (\<lambda>_. x))),
     (''LSMKV_MEMTABLE_SIZE_OVERHEAD_BYTES_PER_ENTRY'', from_env parse_u32 (\<lambda>x. memtable_size_overhead_bytes_per_entry_update (\<lambda>_. x))),
     (''LSMKV_BLOCK_SIZE'', from_env parse_u32 (\<lambda>x. block_size_update (\<lambda>_. x))),
     (''LSMKV_BLOOM_FALSE_POSITIVE'', from_env stod (\<lambda>x. bloom_false_positive_update (\<lambda>_. x))),
     (''LSMKV_SST_DIR'', from_env Inr (\<lambda>x. sst_dir_update (\<lambda>_. x))),
     (''LSMKV_RESTART_INTERVAL'', from_env parse_u32 (\<lambda>x. restart_interval_update (\<lambda>_. x))),
     (''LSMKV_MAX_BUILD_BUFFER_MB'', from_env parse_u32 (\<lambda>x. max_build_buffer_mb_update (\<lambda>_. x))),
     (''LSMKV_BLOCK_CACHE_MB'', from_env parse_u32 (\<lambda>x. block_cache_mb_update (\<lambda>_. x))),
     (''LSMKV_CACHE_INDEX_BLOCKS'', from_env parse_bool (\<lambda>x. cache_index_blocks_update (\<lambda>_. x))),
     (''LSMKV_MAX_OPEN_FILES'', from_env parse_u32 (\<lambda>x. max_open_files_update (\<lambda>_. x))),
     (''LSMKV_WAL_FSYNC_EVERY_N'', from_env parse_u32 (\<lambda>x. wal_fsync_every_n_update (\<lambda>_. x))),
     (''LSMKV_WAL_SEGMENT_ROLL_BYTES'', from_env stoull (\<lambda>x. wal_segment_roll_bytes_update (\<lambda>_. x))),
     (''LSMKV_COMPRESSION'', from_env parse_compression (\<lambda>x. compression_update (\<lambda>_. x))),
     (''LSMKV_LOG_LEVEL'', from_env log_level_from_string (\<lambda>x. log_level_update (\<lambda>_. x))),
     (''LSMKV_MANIFEST_PATH'', from_env Inr (\<lambda>x. manifest_path_update (\<lambda>_. x))),
     (''LSMKV_PUBLISH_LOG_LEVEL'', from_env log_level_from_string (\<lambda>x. publish_log_level_update (\<lambda>_. x))),
     (''LSMKV_SIZE_TIERED_FAN_IN'', from_env parse_u32 (\<lambda>x. size_tiered_fan_in_update (\<lambda>_. x))),
     (''LSMKV_SIZE_TIERED_SIZE_RATIO'', from_env stod (\<lambda>x. size_tiered_size_ratio_update (\<lambda>_. x))),
     (''LSMKV_TOMBSTONE_GRACE_SECONDS'', from_env parse_u32 (\<lambda>x. tombstone_grace_seconds_update (\<lambda>_. x))),
     (''LSMKV_COMPACTION_MAX_CONCURRENT'', from_env parse_u32 (\<lambda>x. compaction_max_concurrent_update (\<lambda>_. x))),
     (''LSMKV_COMPACTION_IO_MB_PER_S'', from_env parse_u32 (\<lambda>x. compaction_io_mb_per_s_update (\<lambda>_. x))),
     (''LSMKV_L0_COMPACTION_TRIGGER'', from_env parse_u32 (\<lambda>x. l0_compaction_trigger_update (\<lambda>_. x))),
     (''LSMKV_L0_STOP_WRITES'', from_env parse_u32 (\<lambda>x. l0_stop_writes_update (\<lambda>_. x))),
     (''LSMKV_BG_TICK_MS'', from_env parse_u32 (\<lambda>x. bg_tick_ms_update (\<lambda>_. x))),
     (''LSMKV_SHUTDOWN_TIMEOUT_MS'', from_env parse_u32 (\<lambda>x. shutdown_timeout_ms_update (\<lambda>_. x))),
     (''LSMKV_METRICS_ENABLED'', from_env parse_bool (\<lambda>x. metrics_enabled_update (\<lambda>_. x))),
     (''LSMKV_HTTP_LISTEN_ADDR'', from_env Inr (\<lambda>x. http_listen_addr_update (\<lambda>_. x))),
     (''LSMKV_STATS_SAMPLING_INTERVAL_MS'', from_env parse_u32 (\<lambda>x. stats_sampling_interval_ms_update (\<lambda>_. x))),
     (''LSMKV_DOCTOR_BUNDLE_MAX_MB'', from_env parse_u32 (\<lambda>x. doctor_bundle_max_mb_update (\<lambda>_. x)))]"

fun apply_rows :: "(string \<Rightarrow> string option) \<Rightarrow> (string \<times> (string \<Rightarrow> config \<Rightarrow> config result)) list \<Rightarrow>
    config \<Rightarrow> config result" where
  "apply_rows env [] c = Inr c"
| "apply_rows env ((name, set_var) # rest) c =
     (case env name of
        None \<Rightarrow> apply_rows env rest c
      | Some v \<Rightarrow> and_then (set_var v c) (apply_rows env rest))"

definition apply_env :: "(string \<Rightarrow> rat result) \<Rightarrow> (string \<Rightarrow> string option) \<Rightarrow> config \<Rightarrow> config result" where
  "apply_env stod env c = apply_rows env (env_table stod) c"

section \<open>Loading and printing\<close>

text \<open>\<open>file\<close>: the contents of the file, if it exists; \<open>open_ok\<close>: whether it can be opened.\<close>

definition config_load :: "'j json_lib \<Rightarrow> (string \<Rightarrow> rat result) \<Rightarrow> (string \<Rightarrow> string option) \<Rightarrow> bool \<Rightarrow>
    bytes option \<Rightarrow> config result \<times> string list" where
  "config_load lib stod env open_ok file =
     (case file of
        None \<Rightarrow> (apply_env stod env default_config, [])
      | Some text \<Rightarrow>
          if \<not> open_ok then (Inl (Thrown IOFailure), [])
          else
            case js_parse lib text of
              None \<Rightarrow> (Inl (Thrown CorruptionDetected), [])
            | Some doc \<Rightarrow>
                (case js_items lib doc of
                   None \<Rightarrow> (Inl Escaped, [])
                 | Some items \<Rightarrow>
                     let (r, unknown) = load_items lib items default_config
                     in (and_then r (apply_env stod env), unknown)))"

definition show_bool :: "bool \<Rightarrow> string" where
  "show_bool b = (if b then ''true'' else ''false'')"

definition newline :: string where
  "newline = [CHR 0x0A]"

definition printed :: "(rat \<Rightarrow> string) \<Rightarrow> config \<Rightarrow> (string \<times> string) list" where
  "printed show_double c = [
     (''data_dir'', data_dir c),
     (''memtable_max_bytes'', decimal (unat (memtable_max_bytes c))),
     (''max_immutable_tables'', decimal (unat (max_immutable_tables c))),
     (''memtable_size_overhead_bytes_per_entry'', decimal (unat (memtable_size_overhead_bytes_per_entry c))),
     (''block_size'', decimal (unat (block_size c))),
     (''bloom_false_positive'', show_double (bloom_false_positive c)),
     (''sst_dir'', resolved_sst_dir c),
     (''restart_interval'', decimal (unat (restart_interval c))),
     (''max_build_buffer_mb'', decimal (unat (max_build_buffer_mb c))),
     (''block_cache_mb'', decimal (unat (block_cache_mb c))),
     (''cache_index_blocks'', show_bool (cache_index_blocks c)),
     (''max_open_files'', decimal (unat (max_open_files c))),
     (''wal_fsync_every_n'', decimal (unat (wal_fsync_every_n c))),
     (''wal_segment_roll_bytes'', decimal (unat (wal_segment_roll_bytes c))),
     (''compression'', compression_to_string (compression c)),
     (''log_level'', log_level_to_string (log_level c)),
     (''manifest_path'', resolved_manifest_path c),
     (''publish_log_level'', log_level_to_string (publish_log_level c)),
     (''size_tiered_fan_in'', decimal (unat (size_tiered_fan_in c))),
     (''size_tiered_size_ratio'', show_double (size_tiered_size_ratio c)),
     (''tombstone_grace_seconds'', decimal (unat (tombstone_grace_seconds c))),
     (''compaction_max_concurrent'', decimal (unat (compaction_max_concurrent c))),
     (''compaction_io_mb_per_s'', decimal (unat (compaction_io_mb_per_s c))),
     (''l0_compaction_trigger'', decimal (unat (l0_compaction_trigger c))),
     (''l0_stop_writes'', decimal (unat (l0_stop_writes c))),
     (''bg_tick_ms'', decimal (unat (bg_tick_ms c))),
     (''shutdown_timeout_ms'', decimal (unat (shutdown_timeout_ms c))),
     (''metrics_enabled'', show_bool (metrics_enabled c)),
     (''http_listen_addr'', http_listen_addr c),
     (''stats_sampling_interval_ms'', decimal (unat (stats_sampling_interval_ms c))),
     (''doctor_bundle_max_mb'', decimal (unat (doctor_bundle_max_mb c)))]"

definition config_print :: "(rat \<Rightarrow> string) \<Rightarrow> config \<Rightarrow> string" where
  "config_print show_double c = concat (map (\<lambda>(k, v). k @ ''='' @ v @ newline) (printed show_double c))"

section \<open>Settings\<close>

text \<open>A configuration as the list of its settings, in the order of the struct, each with its type.\<close>

datatype setting = Text string | Num64 u64 | Num32 u32 | Dbl rat | Flag bool | Comp compression | Level log_level

definition settings :: "config \<Rightarrow> setting list" where
  "settings c = [
     Text (data_dir c),
     Num64 (memtable_max_bytes c),
     Num32 (max_immutable_tables c),
     Num32 (memtable_size_overhead_bytes_per_entry c),
     Num32 (block_size c),
     Dbl (bloom_false_positive c),
     Text (sst_dir c),
     Num32 (restart_interval c),
     Num32 (max_build_buffer_mb c),
     Num32 (block_cache_mb c),
     Flag (cache_index_blocks c),
     Num32 (max_open_files c),
     Num32 (wal_fsync_every_n c),
     Num64 (wal_segment_roll_bytes c),
     Comp (compression c),
     Level (log_level c),
     Text (manifest_path c),
     Level (publish_log_level c),
     Num32 (size_tiered_fan_in c),
     Dbl (size_tiered_size_ratio c),
     Num32 (tombstone_grace_seconds c),
     Num32 (compaction_max_concurrent c),
     Num32 (compaction_io_mb_per_s c),
     Num32 (l0_compaction_trigger c),
     Num32 (l0_stop_writes c),
     Num32 (bg_tick_ms c),
     Num32 (shutdown_timeout_ms c),
     Flag (metrics_enabled c),
     Text (http_listen_addr c),
     Num32 (stats_sampling_interval_ms c),
     Num32 (doctor_bundle_max_mb c)]"

lemma settings_inject: "settings c = settings d \<longleftrightarrow> c = d"
proof
  assume "settings c = settings d"
  then show "c = d" unfolding settings_def by (intro config.equality) simp_all
qed simp

text \<open>What a document or a variable gives for a setting of the same type as \<open>s\<close>.\<close>

definition as_setting :: "('a \<Rightarrow> setting) \<Rightarrow> 'a option \<Rightarrow> setting result" where
  "as_setting f r = (case r of None \<Rightarrow> Inl Escaped | Some x \<Rightarrow> Inr (f x))"

fun read_doc :: "'j json_lib \<Rightarrow> setting \<Rightarrow> 'j \<Rightarrow> setting result" where
  "read_doc lib (Text _) v = as_setting Text (js_string lib v)"
| "read_doc lib (Num64 _) v = as_setting Num64 (js_u64 lib v)"
| "read_doc lib (Num32 _) v = as_setting Num32 (js_u32 lib v)"
| "read_doc lib (Dbl _) v = as_setting Dbl (js_double lib v)"
| "read_doc lib (Flag _) v = as_setting Flag (js_bool lib v)"
| "read_doc lib (Comp _) v = and_then (as_setting Text (js_string lib v))
     (\<lambda>s. case s of Text t \<Rightarrow> and_then (parse_compression t) (\<lambda>x. Inr (Comp x)) | _ \<Rightarrow> Inl Escaped)"
| "read_doc lib (Level _) v = and_then (as_setting Text (js_string lib v))
     (\<lambda>s. case s of Text t \<Rightarrow> and_then (log_level_from_string t) (\<lambda>x. Inr (Level x)) | _ \<Rightarrow> Inl Escaped)"

fun read_env :: "(string \<Rightarrow> rat result) \<Rightarrow> setting \<Rightarrow> string \<Rightarrow> setting result" where
  "read_env stod (Text _) s = Inr (Text s)"
| "read_env stod (Num64 _) s = and_then (stoull s) (\<lambda>x. Inr (Num64 x))"
| "read_env stod (Num32 _) s = and_then (parse_u32 s) (\<lambda>x. Inr (Num32 x))"
| "read_env stod (Dbl _) s = and_then (stod s) (\<lambda>x. Inr (Dbl x))"
| "read_env stod (Flag _) s = and_then (parse_bool s) (\<lambda>x. Inr (Flag x))"
| "read_env stod (Comp _) s = and_then (parse_compression s) (\<lambda>x. Inr (Comp x))"
| "read_env stod (Level _) s = and_then (log_level_from_string s) (\<lambda>x. Inr (Level x))"

text \<open>The name of a setting's variable.\<close>

definition upper :: "char \<Rightarrow> char" where
  "upper c = (if 97 \<le> (of_char c :: nat) \<and> (of_char c :: nat) \<le> 122 then char_of ((of_char c :: nat) - 32) else c)"

definition env_name :: "string \<Rightarrow> string" where
  "env_name k = ''LSMKV_'' @ map upper k"

section \<open>Each row sets its setting and no other\<close>

definition row_ok :: "nat \<Rightarrow> (config \<Rightarrow> config result) \<Rightarrow> setting result \<Rightarrow> bool" where
  "row_ok i f r \<longleftrightarrow> (\<forall>c. case f c of Inl err \<Rightarrow> r = Inl err
     | Inr c' \<Rightarrow> \<exists>s. r = Inr s \<and> settings c' = (settings c)[i := s])"

lemma row_okD:
  "row_ok i f r \<Longrightarrow> f c = Inr c' \<Longrightarrow> \<exists>s. r = Inr s \<and> settings c' = (settings c)[i := s]"
  unfolding row_ok_def by (drule spec [of _ c]) simp

lemma row_from_doc:
  "(\<And>x c. settings (upd x c) = (settings c)[i := mk x]) \<Longrightarrow> row_ok i (from_doc get upd v) (as_setting mk (get v))"
  by (simp add: row_ok_def from_doc_def as_setting_def split: option.split)

lemma row_from_text:
  "(\<And>x c. settings (upd x c) = (settings c)[i := mk x]) \<Longrightarrow>
    row_ok i (from_text lib parse upd v) (and_then (as_setting Text (js_string lib v))
      (\<lambda>s. case s of Text t \<Rightarrow> and_then (parse t) (\<lambda>x. Inr (mk x)) | _ \<Rightarrow> Inl Escaped))"
  by (cases "js_string lib v"; cases "parse (the (js_string lib v))")
    (simp_all add: row_ok_def from_text_def as_setting_def)

lemma row_from_env:
  "(\<And>x c. settings (upd x c) = (settings c)[i := mk x]) \<Longrightarrow>
    row_ok i (from_env parse upd s) (and_then (parse s) (\<lambda>x. Inr (mk x)))"
  by (cases "parse s") (simp_all add: row_ok_def from_env_def)

lemma row_from_env_text:
  "(\<And>x c. settings (upd x c) = (settings c)[i := Text x]) \<Longrightarrow> row_ok i (from_env Inr upd s) (Inr (Text s))"
  by (simp add: row_ok_def from_env_def)

lemmas row_intros = row_from_doc row_from_text row_from_env_text row_from_env

lemma all_below_31: "(\<forall>i < 31. P i) \<longleftrightarrow> list_all P [0, 1, 2, 3, 4, 5, 6, 7, 8, 9, 10, 11, 12, 13, 14, 15, 16, 17, 18, 19,
    20, 21, 22, 23, 24, 25, 26, 27, 28, 29, 30 :: nat]"
proof -
  have "{i :: nat. i < 31} = set [0..<31]" by auto
  moreover have "[0..<31] = [0, 1, 2, 3, 4, 5, 6, 7, 8, 9, 10, 11, 12, 13, 14, 15, 16, 17, 18, 19,
    20, 21, 22, 23, 24, 25, 26, 27, 28, 29, 30 :: nat]" by (simp add: upt_rec)
  ultimately show ?thesis by (metis list_all_iff mem_Collect_eq)
qed

lemma length_tables [simp]:
  "length (settings c) = 31" "length (key_table lib) = 31" "length (env_table stod) = 31" "length known_keys = 31"
  by (simp_all add: settings_def key_table_def env_table_def known_keys_def)

lemma keys_of_table: "map fst (key_table lib) = known_keys"
  by (simp add: key_table_def known_keys_def)

lemma known_keys_distinct: "distinct known_keys"
  by (simp add: known_keys_def)

lemma env_names: "map fst (env_table stod) = map env_name known_keys"
  by (simp add: env_table_def known_keys_def env_name_def upper_def char_of_def bit_0)

lemma key_rows: "\<forall>i < 31. row_ok i (snd (key_table lib ! i) v) (read_doc lib (settings default_config ! i) v)"
  unfolding all_below_31
  by (simp add: key_table_def settings_def default_config_def)
    (intro conjI; rule row_intros; simp add: settings_def)

lemma env_rows: "\<forall>i < 31. row_ok i (snd (env_table stod ! i) s) (read_env stod (settings default_config ! i) s)"
  unfolding all_below_31
  by (simp add: env_table_def settings_def default_config_def)
    (intro conjI; rule row_intros; simp add: settings_def)

section \<open>Loading\<close>

lemma key_lookup:
  "i < 31 \<Longrightarrow> map_of (key_table lib) (known_keys ! i) = Some (snd (key_table lib ! i))"
proof -
  assume i: "i < 31"
  have "known_keys ! i = fst (key_table lib ! i)" using i by (metis keys_of_table length_tables(2) nth_map)
  moreover have "distinct (map fst (key_table lib))" by (simp add: keys_of_table known_keys_distinct)
  moreover have "(fst (key_table lib ! i), snd (key_table lib ! i)) \<in> set (key_table lib)" using i by simp
  ultimately show ?thesis by simp
qed

lemma known_key_index: "k \<in> set known_keys \<longleftrightarrow> (\<exists>i < 31. known_keys ! i = k)"
  using in_set_conv_nth [of k known_keys] by simp

lemma known_keys_eq: "i < 31 \<Longrightarrow> j < 31 \<Longrightarrow> known_keys ! i = known_keys ! j \<longleftrightarrow> i = j"
  using nth_eq_iff_index_eq [OF known_keys_distinct] by simp

text \<open>What the items \<open>kvs\<close> make of setting \<open>i\<close> that was \<open>old\<close>.\<close>

definition doc_gives :: "'j json_lib \<Rightarrow> (string \<times> 'j) list \<Rightarrow> nat \<Rightarrow> setting \<Rightarrow> setting \<Rightarrow> bool" where
  "doc_gives lib kvs i old s \<longleftrightarrow> (case map_of (rev kvs) (known_keys ! i) of
      None \<Rightarrow> s = old | Some v \<Rightarrow> read_doc lib (settings default_config ! i) v = Inr s)"

lemma doc_gives_Cons:
  "doc_gives lib ((k, v) # kvs) i old s \<longleftrightarrow>
    (if known_keys ! i = k \<and> map_of (rev kvs) k = None then read_doc lib (settings default_config ! i) v = Inr s
     else doc_gives lib kvs i old s)"
  by (auto simp: doc_gives_def map_add_def split: option.split)

definition well_typed :: "'j json_lib \<Rightarrow> (string \<times> 'j) list \<Rightarrow> bool" where
  "well_typed lib kvs \<longleftrightarrow> (\<forall>i < 31. \<forall>v. (known_keys ! i, v) \<in> set kvs \<longrightarrow>
     (\<exists>s. read_doc lib (settings default_config ! i) v = Inr s))"

lemma load_items_result:
  "load_items lib kvs c = (Inr c', unknown) \<Longrightarrow>
    unknown = filter (\<lambda>k. k \<notin> set known_keys) (map fst kvs) \<and> well_typed lib kvs \<and>
    (\<forall>i < 31. doc_gives lib kvs i (settings c ! i) (settings c' ! i))"
proof (induction lib kvs c arbitrary: unknown rule: load_items.induct)
  case (1 lib c)
  then show ?case by (simp add: doc_gives_def well_typed_def)
next
  case (2 lib k v rest c)
  show ?case
  proof (cases "k \<in> set known_keys")
    case False
    obtain u where u: "load_items lib rest c = (Inr c', u)" "unknown = k # u"
      using 2(4) False by (auto split: prod.splits)
    have "known_keys ! i \<noteq> k" if "i < 31" for i using False that known_key_index by blast
    then show ?thesis using 2(1) [OF False u(1)] u(2) False by (auto simp: doc_gives_Cons well_typed_def)
  next
    case True
    obtain j where j: "j < 31" "known_keys ! j = k" using True known_key_index by blast
    note look = key_lookup [OF j(1), of lib, unfolded j(2)]
    obtain c1 where c1: "snd (key_table lib ! j) v c = Inr c1" "load_items lib rest c1 = (Inr c', unknown)"
      using 2(4) True look by (auto split: sum.splits)
    obtain s where s: "read_doc lib (settings default_config ! j) v = Inr s" "settings c1 = (settings c)[j := s]"
      using row_okD [OF key_rows [rule_format, OF j(1)] c1(1)] by blast
    have IH: "unknown = filter (\<lambda>k. k \<notin> set known_keys) (map fst rest)" "well_typed lib rest"
      "\<forall>i < 31. doc_gives lib rest i (settings c1 ! i) (settings c' ! i)"
      using 2(3) [OF _ look c1(1,2)] True by auto
    have "doc_gives lib ((k, v) # rest) i (settings c ! i) (settings c' ! i)" if i: "i < 31" for i
    proof (cases "i = j")
      case True
      have d: "doc_gives lib rest j s (settings c' ! j)" using IH(3) [rule_format, OF j(1)] j(1) s(2) by simp
      show ?thesis
      proof (cases "map_of (rev rest) k")
        case None
        then have "settings c' ! j = s" using d j(2) by (simp add: doc_gives_def)
        then show ?thesis using True j(2) None s(1) by (simp add: doc_gives_Cons)
      next
        case (Some w)
        then have "doc_gives lib rest j (settings c ! j) (settings c' ! j)" using d j(2) by (simp add: doc_gives_def)
        then show ?thesis using True Some by (simp add: doc_gives_Cons j(2))
      qed
    next
      case False
      then have "known_keys ! i \<noteq> k" using i j known_keys_eq by metis
      then show ?thesis using IH(3) [rule_format, OF i] s(2) False by (simp add: doc_gives_Cons)
    qed
    moreover have "well_typed lib ((k, v) # rest)"
      using IH(2) s(1) j known_keys_eq by (auto simp: well_typed_def)
    ultimately show ?thesis using IH(1) True by simp
  qed
qed

definition env_gives :: "(string \<Rightarrow> rat result) \<Rightarrow> (string \<Rightarrow> string option) \<Rightarrow> nat \<Rightarrow> setting \<Rightarrow> setting \<Rightarrow> bool" where
  "env_gives stod env i old s \<longleftrightarrow> (case env (env_name (known_keys ! i)) of
      None \<Rightarrow> s = old | Some t \<Rightarrow> read_env stod (settings default_config ! i) t = Inr s)"

lemma env_name_row: "i < 31 \<Longrightarrow> fst (env_table stod ! i) = env_name (known_keys ! i)"
  using env_names [of stod] by (metis length_tables(3,4) nth_map)

lemma apply_rows_result:
  assumes "apply_rows env (drop j (env_table stod)) c = Inr c'" and "j \<le> 31"
  shows "\<forall>i < 31. if i < j then settings c' ! i = settings c ! i else env_gives stod env i (settings c ! i) (settings c' ! i)"
  using assms
proof (induction "31 - j" arbitrary: j c)
  case 0
  then show ?case by simp
next
  case (Suc n)
  then have j: "j < 31" by simp
  obtain name f where row: "env_table stod ! j = (name, f)" by fastforce
  have d: "drop j (env_table stod) = (name, f) # drop (Suc j) (env_table stod)"
    using j by (simp add: Cons_nth_drop_Suc [symmetric] row)
  have name: "name = env_name (known_keys ! j)" using env_name_row [OF j, of stod] row by simp
  show ?case
  proof (cases "env name")
    case None
    then have "apply_rows env (drop (Suc j) (env_table stod)) c = Inr c'" using Suc.prems(1) d by simp
    then have IH: "\<forall>i < 31. if i < Suc j then settings c' ! i = settings c ! i
        else env_gives stod env i (settings c ! i) (settings c' ! i)" using Suc.hyps(1) [of "Suc j" c] Suc.hyps(2) j by simp
    show ?thesis
    proof (intro allI impI)
      fix i :: nat
      assume "i < 31"
      then show "if i < j then settings c' ! i = settings c ! i else env_gives stod env i (settings c ! i) (settings c' ! i)"
        using IH None name by (cases "i = j") (auto simp: env_gives_def less_Suc_eq)
    qed
  next
    case (Some t)
    then obtain c1 where c1: "f t c = Inr c1" "apply_rows env (drop (Suc j) (env_table stod)) c1 = Inr c'"
      using Suc.prems(1) d by (auto simp: and_then_Inr_iff)
    obtain s where s: "read_env stod (settings default_config ! j) t = Inr s" "settings c1 = (settings c)[j := s]"
      using row_okD [OF env_rows [rule_format, OF j]] c1(1) row by (metis snd_conv)
    have IH: "\<forall>i < 31. if i < Suc j then settings c' ! i = settings c1 ! i
        else env_gives stod env i (settings c1 ! i) (settings c' ! i)" using Suc.hyps(1) [OF _ c1(2)] Suc.hyps(2) j by simp
    show ?thesis
    proof (intro allI impI)
      fix i :: nat
      assume "i < 31"
      then show "if i < j then settings c' ! i = settings c ! i else env_gives stod env i (settings c ! i) (settings c' ! i)"
        using IH Some name s by (cases "i = j") (auto simp: env_gives_def less_Suc_eq)
    qed
  qed
qed

lemma apply_env_result:
  assumes "apply_env stod env c = Inr c'" and "i < 31"
  shows "env_gives stod env i (settings c ! i) (settings c' ! i)"
  using apply_rows_result [of env 0 stod c c'] assms by (simp add: apply_env_def)

section \<open>Printing\<close>

lemma stoull_decimal: "stoull (decimal (unat x)) = Inr x"
proof -
  have d: "list_all is_digit (decimal (unat x))" by (rule decimal_digits)
  have head: "\<not> is_blank c \<and> c \<noteq> CHR ''-'' \<and> c \<noteq> CHR ''+''" if "is_digit c" for c
    using that by (auto simp: is_digit_def is_blank_def)
  have blanks: "dropWhile is_blank (decimal (unat x)) = decimal (unat x)"
    using d head by (cases "decimal (unat x)") auto
  have digits: "takeWhile is_digit (decimal (unat x)) = decimal (unat x)"
    using d by (simp add: takeWhile_eq_all_conv list_all_iff)
  have sign: "hd (decimal (unat x)) \<noteq> CHR ''-''" "hd (decimal (unat x)) \<noteq> CHR ''+''"
    using d head by (cases "decimal (unat x)"; auto)+
  have "unat x < 2 ^ 64" using unsigned_less [where 'a = nat and w = x] by simp
  then show ?thesis by (simp add: stoull_def Let_def blanks digits sign digits_value_decimal)
qed

lemma ucast_of_int: "(ucast (of_int k :: u64) :: u32) = of_int k"
  by (rule bit_word_eqI) (auto simp: bit_simps)

lemma parse_u32_decimal: "parse_u32 (decimal (unat (x :: u32))) = Inr x"
proof -
  have "unat (ucast x :: u64) = unat x" using unat_u32_less [of x] by (simp add: unsigned_ucast_eq take_bit_nat_eq_self_iff)
  then have "stoull (decimal (unat x)) = Inr (ucast x)" using stoull_decimal [of "ucast x"] by simp
  moreover have "(ucast (ucast x :: u64) :: u32) = x" by (rule bit_word_eqI) (simp add: bit_simps)
  ultimately show ?thesis by (simp add: parse_u32_def stoul_def)
qed

lemma parse_bool_show: "parse_bool (show_bool b) = Inr b"
  by (simp add: parse_bool_def show_bool_def)

section \<open>Properties\<close>

text \<open>C38. The priority of the layers.  When a configuration is loaded, each of its 31 settings is what the
  environment says, if its variable (the key in upper case after \<open>LSMKV_\<close>) is set; otherwise what the
  file says, the last occurrence of its key counting; otherwise the built-in default; and nothing
  else, since the settings determine the configuration.  Every known key in the file had a value
  of its setting's type, for a value of another type makes the load throw; unknown keys are
  reported, in their order, and ignored.\<close>
theorem config_priority:
  assumes "config_load lib stod env open_ok file = (Inr c, unknown)"
  shows "\<exists>kvs. (case file of None \<Rightarrow> kvs = [] | Some t \<Rightarrow> open_ok \<and> Option.bind (js_parse lib t) (js_items lib) = Some kvs) \<and>
    unknown = filter (\<lambda>k. k \<notin> set known_keys) (map fst kvs) \<and> well_typed lib kvs \<and>
    (\<forall>i < 31. case env (env_name (known_keys ! i)) of
        Some t \<Rightarrow> read_env stod (settings default_config ! i) t = Inr (settings c ! i)
      | None \<Rightarrow> (case map_of (rev kvs) (known_keys ! i) of
            Some v \<Rightarrow> read_doc lib (settings default_config ! i) v = Inr (settings c ! i)
          | None \<Rightarrow> settings c ! i = settings default_config ! i)) \<and>
    (\<forall>d. settings d = settings c \<longrightarrow> d = c)"
proof -
  obtain kvs c1 where kvs: "case file of None \<Rightarrow> kvs = [] | Some t \<Rightarrow> open_ok \<and> Option.bind (js_parse lib t) (js_items lib) = Some kvs"
    "load_items lib kvs default_config = (Inr c1, unknown)" "apply_env stod env c1 = Inr c"
  proof (cases "file")
    case None
    then show thesis using that [of "[]" default_config] assms by (simp add: config_load_def)
  next
    case (Some t)
    then obtain doc kvs where d: "open_ok" "js_parse lib t = Some doc" "js_items lib doc = Some kvs"
      "(let (r, unknown) = load_items lib kvs default_config in (and_then r (apply_env stod env), unknown)) = (Inr c, unknown)"
      using assms by (auto simp: config_load_def split: if_splits option.splits)
    obtain r u where r: "load_items lib kvs default_config = (r, u)" by fastforce
    then obtain c1 where "r = Inr c1" "apply_env stod env c1 = Inr c" "u = unknown"
      using d(4) by (auto simp: and_then_Inr_iff)
    then show thesis using that [of kvs c1] Some d r by simp
  qed
  note L = load_items_result [OF kvs(2)]
  have "case env (env_name (known_keys ! i)) of
        Some t \<Rightarrow> read_env stod (settings default_config ! i) t = Inr (settings c ! i)
      | None \<Rightarrow> (case map_of (rev kvs) (known_keys ! i) of
            Some v \<Rightarrow> read_doc lib (settings default_config ! i) v = Inr (settings c ! i)
          | None \<Rightarrow> settings c ! i = settings default_config ! i)" if "i < 31" for i
    using apply_env_result [OF kvs(3) that] L that
    by (auto simp: env_gives_def doc_gives_def split: option.splits)
  then show ?thesis using kvs(1) L by (auto simp: settings_inject)
qed

theorem config_priority_witness:
  "\<exists>c. config_load (tree_lib (T_Object [(''block_size'', T_U64 4096), (''colour'', T_Null)])) (\<lambda>_. Inl Escaped)
      (\<lambda>name. if name = ''LSMKV_DATA_DIR'' then Some ''/tmp'' else None) True (Some [1]) = (Inr c, [''colour'']) \<and>
    settings c ! 0 = Text ''/tmp'' \<and> settings c ! 4 = Num32 4096"
proof -
  let ?lib = "tree_lib (T_Object [(''block_size'', T_U64 4096), (''colour'', T_Null)])"
  let ?env = "\<lambda>name. if name = ''LSMKV_DATA_DIR'' then Some ''/tmp'' else None"
  have "load_items ?lib [(''block_size'', T_U64 4096), (''colour'', T_Null)] default_config
      = (Inr (default_config\<lparr>block_size := 4096\<rparr>), [''colour''])"
    by (simp add: known_keys_def key_table_def from_doc_def tree_lib_def)
  then have load: "config_load ?lib (\<lambda>_. Inl Escaped) ?env True (Some [1]) =
      (Inr (default_config\<lparr>block_size := 4096, data_dir := ''/tmp''\<rparr>), [''colour''])"
    by (simp add: config_load_def tree_lib_def apply_env_def env_table_def from_env_def)
  obtain kvs where "kvs = [(''block_size'', T_U64 4096), (''colour'', T_Null)]"
    and all: "\<forall>i < 31. case ?env (env_name (known_keys ! i)) of
        Some t \<Rightarrow> read_env (\<lambda>_. Inl Escaped) (settings default_config ! i) t =
          Inr (settings (default_config\<lparr>block_size := 4096, data_dir := ''/tmp''\<rparr>) ! i)
      | None \<Rightarrow> (case map_of (rev kvs) (known_keys ! i) of
            Some v \<Rightarrow> read_doc ?lib (settings default_config ! i) v =
              Inr (settings (default_config\<lparr>block_size := 4096, data_dir := ''/tmp''\<rparr>) ! i)
          | None \<Rightarrow> settings (default_config\<lparr>block_size := 4096, data_dir := ''/tmp''\<rparr>) ! i = settings default_config ! i)"
    using config_priority [OF load] by (auto simp: tree_lib_def)
  then have "settings (default_config\<lparr>block_size := 4096, data_dir := ''/tmp''\<rparr>) ! 0 = Text ''/tmp''"
    "settings (default_config\<lparr>block_size := 4096, data_dir := ''/tmp''\<rparr>) ! 4 = Num32 4096"
    by (simp_all add: settings_def)
  then show ?thesis using load by blast
qed

text \<open>C39. What \<open>Config::print\<close> shows can be set again: given the printed lines as environment variables
  (the key in upper case after \<open>LSMKV_\<close>), any configuration becomes the printed one, with the paths
  of the tables and of the manifest resolved, provided the two floating-point values print in full.\<close>
theorem config_print_roundtrip:
  assumes "\<forall>(k, v) \<in> set (printed show_double c). env (env_name k) = Some v"
    and "stod (show_double (bloom_false_positive c)) = Inr (bloom_false_positive c)"
    and "stod (show_double (size_tiered_size_ratio c)) = Inr (size_tiered_size_ratio c)"
  shows "apply_env stod env c0 =
    Inr (c\<lparr>sst_dir := resolved_sst_dir c, manifest_path := resolved_manifest_path c\<rparr>)"
proof -
  have env: "env (fst (env_table stod ! i)) = Some (snd (printed show_double c ! i))" if "i < 31" for i
  proof -
    have "length (printed show_double c) = 31" "map fst (printed show_double c) = known_keys"
      by (simp_all add: printed_def known_keys_def)
    then have "printed show_double c ! i \<in> set (printed show_double c)" "fst (printed show_double c ! i) = known_keys ! i"
      using that by (simp, metis nth_map)
    moreover obtain k v where "printed show_double c ! i = (k, v)" by fastforce
    ultimately show ?thesis using bspec [OF assms(1), of "(k, v)"] that by (simp add: env_name_row)
  qed
  show ?thesis
    using env [of 0] env [of 1] env [of 2] env [of 3] env [of 4] env [of 5] env [of 6] env [of 7] env [of 8] env [of 9]
      env [of 10] env [of 11] env [of 12] env [of 13] env [of 14] env [of 15] env [of 16] env [of 17] env [of 18]
      env [of 19] env [of 20] env [of 21] env [of 22] env [of 23] env [of 24] env [of 25] env [of 26] env [of 27]
      env [of 28] env [of 29] env [of 30] assms(2,3)
    by (simp add: apply_env_def env_table_def printed_def from_env_def stoull_decimal parse_u32_decimal parse_bool_show)
qed

theorem config_print_roundtrip_witness:
  "apply_env (\<lambda>s. Inr (if s = ''0.01'' then 1 / 100 else 2))
     (\<lambda>name. map_of (map (\<lambda>(k, v). (env_name k, v)) (printed (\<lambda>x. if x = 2 then ''2'' else ''0.01'') default_config)) name)
     (default_config\<lparr>block_size := 1\<rparr>) =
   Inr (default_config\<lparr>sst_dir := ''./data/sst'', manifest_path := ''./data/manifest.json''\<rparr>)"
proof -
  let ?show = "\<lambda>x :: rat. if x = 2 then ''2'' else ''0.01''"
  let ?rows = "map (\<lambda>(k, v). (env_name k, v)) (printed ?show default_config)"
  have names: "map fst ?rows = map env_name known_keys"
    by (simp add: printed_def known_keys_def)
  have "distinct (map fst ?rows)"
    unfolding names by (simp add: known_keys_def env_name_def upper_def char_of_def bit_0)
  then have "\<forall>(k, v) \<in> set (printed ?show default_config). map_of ?rows (env_name k) = Some v"
    by (auto intro!: map_of_is_SomeI image_eqI)
  from config_print_roundtrip [OF this, of "\<lambda>s. Inr (if s = ''0.01'' then 1 / 100 else 2)" "default_config\<lparr>block_size := 1\<rparr>"]
  show ?thesis
    by (simp add: default_config_def resolved_sst_dir_def resolved_manifest_path_def path_join_def)
qed

text \<open>C40. Numbers in the environment are not checked against their width.  A run of digits, after blanks and
  before anything that is no digit, is read modulo $2^{32}$ for a 32-bit setting as long as it is below
  $2^{64}$, and a minus sign negates it: $2^{32}$ is read as 0, $-1$ as $2^{32} - 1$.  Larger numbers and text
  without digits throw.\<close>
theorem config_numbers_wrap:
  assumes "list_all is_blank blanks" and "junk = [] \<or> \<not> is_digit (hd junk)"
  shows "parse_u32 (blanks @ decimal n @ junk) = (if n < 2 ^ 64 then Inr (of_nat n) else Inl Escaped) \<and>
    parse_u32 (blanks @ ''-'' @ decimal n @ junk) = (if n < 2 ^ 64 then Inr (- of_nat n) else Inl Escaped) \<and>
    (\<not> is_digit (hd junk) \<and> junk \<noteq> [] \<and> hd junk \<notin> {CHR ''-'', CHR ''+''} \<and> \<not> is_blank (hd junk) \<longrightarrow>
      parse_u32 (blanks @ junk) = Inl Escaped)"
proof -
  have d: "list_all is_digit (decimal n)" by (rule decimal_digits)
  obtain x xs where x: "decimal n = x # xs" by (cases "decimal n") auto
  have "is_digit x" using d x by simp
  then have head: "\<not> is_blank x" "x \<noteq> CHR ''-''" "x \<noteq> CHR ''+''" by (auto simp: is_digit_def is_blank_def)
  have skip: "dropWhile is_blank (blanks @ u) = dropWhile is_blank u" for u
    using assms(1) by (induction blanks) auto
  have digits: "takeWhile is_digit (decimal n @ junk) = decimal n"
    using d assms(2) by (cases junk) (auto simp: takeWhile_append list_all_iff)
  have "\<not> is_blank CHR ''-''" by (simp add: is_blank_def)
  then have "dropWhile is_blank (blanks @ ''-'' @ decimal n @ junk) = ''-'' @ decimal n @ junk" by (simp add: skip)
  then have 2: "stoull (blanks @ ''-'' @ decimal n @ junk) = (if n < 2 ^ 64 then Inr (- of_nat n) else Inl Escaped)"
    using digits by (simp add: stoull_def Let_def digits_value_decimal)
  have "dropWhile is_blank (blanks @ decimal n @ junk) = decimal n @ junk" using head x by (simp add: skip)
  moreover have "hd (decimal n @ junk) = x" using x by simp
  ultimately have 1: "stoull (blanks @ decimal n @ junk) = (if n < 2 ^ 64 then Inr (of_nat n) else Inl Escaped)"
    using digits head by (simp add: stoull_def Let_def digits_value_decimal)
  have 3: "stoull (blanks @ junk) = Inl Escaped"
    if j: "\<not> is_digit (hd junk) \<and> junk \<noteq> [] \<and> hd junk \<notin> {CHR ''-'', CHR ''+''} \<and> \<not> is_blank (hd junk)"
    using j by (cases junk) (simp_all add: stoull_def skip)
  have cast: "(ucast (of_nat n :: u64) :: u32) = of_nat n" "(ucast (- of_nat n :: u64) :: u32) = - of_nat n"
    using ucast_of_int [of "int n"] ucast_of_int [of "- int n"] by simp_all
  show ?thesis using 1 2 3 cast by (simp add: parse_u32_def stoul_def)
qed

theorem config_numbers_wrap_witness:
  "parse_u32 ''4294967296'' = Inr 0 \<and> parse_u32 ''-1'' = Inr (- 1)"
proof -
  have "decimal 4294967296 = ''4294967296''" "decimal 1 = ''1''"
    by (simp_all add: decimal.simps digit_def char_of_def bit_0)
  then show ?thesis
    using config_numbers_wrap [of "[]" "[]" 4294967296] config_numbers_wrap [of "[]" "[]" 1] by simp
qed

end
