(* ===== verification/Http.thy ===== *)
theory Http
  imports Config_Load
begin

text \<open>
  The observability server of \<open>src/http_server.cpp\<close>: how the listen address is split, when starting it
  fails, what path a request asks for and the bytes of the answer.  The socket calls' answers are the
  argument \<open>net_io\<close>; the handler is a function from the path.
\<close>

section \<open>Starting\<close>

record net_io =
  ni_socket :: bool
  ni_host :: "string \<Rightarrow> bool"
  ni_bind :: bool

text \<open>\<open>std::stoi\<close>: as \<open>stoull\<close>, into 32 bits with a sign.\<close>

definition stoi :: "string \<Rightarrow> int result" where
  "stoi s =
     (let t = dropWhile is_blank s;
          neg = (t \<noteq> [] \<and> hd t = CHR ''-'');
          u = (if t \<noteq> [] \<and> (hd t = CHR ''-'' \<or> hd t = CHR ''+'') then tl t else t);
          ds = takeWhile is_digit u;
          n = (if neg then - int (digits_value ds) else int (digits_value ds))
      in if ds = [] \<or> n < - (2 ^ 31) \<or> 2 ^ 31 \<le> n then Inl Escaped else Inr n)"

text \<open>Host and text after the last colon.\<close>

definition split_addr :: "string \<Rightarrow> (string \<times> string) option" where
  "split_addr addr =
     (if CHR '':'' \<notin> set addr then None
      else let r = rev addr; after = takeWhile (\<lambda>c. c \<noteq> CHR '':'') r
           in Some (rev (drop (length after + 1) r), rev after))"

text \<open>The address that is bound: the host and the port as an \<open>unsigned short\<close>.\<close>

definition http_start :: "net_io \<Rightarrow> string \<Rightarrow> (string \<times> nat) result" where
  "http_start net addr =
     (case split_addr addr of
        None \<Rightarrow> Inl (Thrown InvalidArgument)
      | Some (host, port_text) \<Rightarrow>
          and_then (stoi port_text) (\<lambda>port.
          if \<not> ni_socket net then Inl (Thrown IOFailure)
          else if \<not> ni_host net host then Inl (Thrown InvalidArgument)
          else if \<not> ni_bind net then Inl (Thrown IOFailure)
          else Inr (host, nat (port mod 2 ^ 16))))"

section \<open>Answering\<close>

record http_response =
  hr_status :: nat
  hr_content_type :: string
  hr_body :: string

definition plain :: "nat \<Rightarrow> string \<Rightarrow> http_response" where
  "plain status body = \<lparr>hr_status = status, hr_content_type = ''text/plain'', hr_body = body\<rparr>"

definition status_text :: "nat \<Rightarrow> string" where
  "status_text n = (if n = 200 then ''OK'' else if n = 404 then ''Not Found''
     else if n = 503 then ''Service Unavailable'' else ''OK'')"

text \<open>What one \<open>recv\<close> brought, as the C string in the buffer.\<close>

definition recv_limit :: nat where
  "recv_limit = 2047"

definition request_path :: "string \<Rightarrow> string" where
  "request_path received =
     (let buf = takeWhile (\<lambda>c. c \<noteq> CHR 0x00) (take recv_limit received); rest = drop 4 buf
      in if take 4 buf = ''GET '' \<and> CHR '' '' \<in> set rest then takeWhile (\<lambda>c. c \<noteq> CHR '' '') rest else ''/'')"

definition crlf :: string where
  "crlf = [CHR 0x0D, CHR 0x0A]"

definition response_text :: "http_response \<Rightarrow> string" where
  "response_text r = ''HTTP/1.0 '' @ decimal (hr_status r) @ '' '' @ status_text (hr_status r) @ crlf @
     ''Content-Type: '' @ hr_content_type r @ crlf @
     ''Content-Length: '' @ decimal (length (hr_body r)) @ crlf @
     ''Connection: close'' @ crlf @ crlf @ hr_body r"

text \<open>One accepted connection: what is sent before it is closed.\<close>

definition serve_client :: "(string \<Rightarrow> http_response) option \<Rightarrow> string \<Rightarrow> string" where
  "serve_client handler received =
     (if received = [] then []
      else response_text (case handler of
             Some h \<Rightarrow> h (request_path received)
           | None \<Rightarrow> plain 404 ''no handler''))"

section \<open>Lemmas\<close>

lemma split_addr_join:
  assumes "CHR '':'' \<notin> set port"
  shows "split_addr (host @ '':'' @ port) = Some (host, port)"
proof -
  have "takeWhile (\<lambda>c. c \<noteq> CHR '':'') (rev port @ CHR '':'' # rev host) = rev port"
    by (subst takeWhile_append2) (use assms in auto)
  then show ?thesis by (simp add: split_addr_def)
qed

lemma request_path_get:
  assumes "CHR '' '' \<notin> set p" and "CHR 0x00 \<notin> set p" and "length p + 5 \<le> recv_limit"
  shows "request_path (''GET '' @ p @ '' '' @ rest) = p"
proof -
  have z: "takeWhile (\<lambda>c. c \<noteq> CHR 0x00) (''GET '' @ p @ '' '' @ xs) = ''GET '' @ p @ '' '' @ takeWhile (\<lambda>c. c \<noteq> CHR 0x00) xs" for xs
    by simp (subst takeWhile_append2; use assms(2) in auto)
  have "take recv_limit (''GET '' @ p @ '' '' @ rest) = ''GET '' @ p @ '' '' @ take (recv_limit - (length p + 5)) rest"
    using assms(3) by (simp add: take_append recv_limit_def take_Cons')
  moreover have "takeWhile (\<lambda>c. c \<noteq> CHR '' '') (p @ CHR '' '' # xs) = p" for xs
    by (subst takeWhile_append2) (use assms(1) in auto)
  ultimately show ?thesis
    using z [of "take (recv_limit - (length p + 5)) rest"] by (simp add: request_path_def Let_def)
qed

end
