(* ===== verification/Clock.thy ===== *)
theory Clock
  imports Names
begin

text \<open>
  Time stamps: \<open>ts_rfc3339\<close> of \<open>src/logging.cpp\<close>, which also stamps a table's \<open>created_at\<close>, and
  \<open>parse_iso8601_utc\<close> of \<open>src/compaction.cpp\<close>, which reads the stamp back to decide the age of a
  tombstone.  \<open>gmtime_r\<close> and \<open>timegm\<close> are given on the Gregorian calendar for times from 1970 on,
  \<open>strftime\<close> and \<open>std::get_time\<close> for the one format the code uses.
\<close>

section \<open>The calendar\<close>

definition leap :: "nat \<Rightarrow> bool" where
  "leap y \<longleftrightarrow> y mod 4 = 0 \<and> (y mod 100 \<noteq> 0 \<or> y mod 400 = 0)"

definition year_days :: "nat \<Rightarrow> nat" where
  "year_days y = (if leap y then 366 else 365)"

definition month_days :: "nat \<Rightarrow> nat list" where
  "month_days y = [31, if leap y then 29 else 28, 31, 30, 31, 30, 31, 31, 30, 31, 30, 31]"

lemma sum_month_days: "sum_list (month_days y) = year_days y"
  by (simp add: month_days_def year_days_def)

text \<open>Year and day of the year, then month and day of the month, counted from 0.\<close>

function split_year :: "nat \<Rightarrow> nat \<Rightarrow> nat \<times> nat" where
  "split_year y d = (if d < year_days y then (y, d) else split_year (y + 1) (d - year_days y))"
  by auto
termination by (relation "measure snd") (auto simp: year_days_def)

declare split_year.simps [simp del]

fun split_month :: "nat list \<Rightarrow> nat \<Rightarrow> nat \<times> nat" where
  "split_month [] d = (0, d)"
| "split_month (n # ns) d = (if d < n then (0, d) else let (m, r) = split_month ns (d - n) in (m + 1, r))"

record tm =
  tm_year :: nat
  tm_mon :: nat
  tm_mday :: nat
  tm_hour :: nat
  tm_min :: nat
  tm_sec :: nat

definition gmtime :: "nat \<Rightarrow> tm" where
  "gmtime t =
     (let (y, yd) = split_year 1970 (t div 86400);
          (m, md) = split_month (month_days y) yd;
          s = t mod 86400
      in \<lparr>tm_year = y, tm_mon = m + 1, tm_mday = md + 1, tm_hour = s div 3600,
          tm_min = s div 60 mod 60, tm_sec = s mod 60\<rparr>)"

definition timegm :: "tm \<Rightarrow> nat" where
  "timegm t =
     (sum_list (map year_days [1970..<tm_year t]) +
      sum_list (take (tm_mon t - 1) (month_days (tm_year t))) + (tm_mday t - 1)) * 86400 +
     tm_hour t * 3600 + tm_min t * 60 + tm_sec t"

section \<open>Text\<close>

definition pad :: "nat \<Rightarrow> nat \<Rightarrow> string" where
  "pad k n = (let s = decimal n in replicate (k - length s) CHR ''0'' @ s)"

text \<open>\<open>strftime(buf, 32, "%Y-%m-%dT%H:%M:%SZ")\<close>.\<close>

definition format_tm :: "tm \<Rightarrow> string" where
  "format_tm t = decimal (tm_year t) @ ''-'' @ pad 2 (tm_mon t) @ ''-'' @ pad 2 (tm_mday t) @ ''T'' @
     pad 2 (tm_hour t) @ '':'' @ pad 2 (tm_min t) @ '':'' @ pad 2 (tm_sec t) @ ''Z''"

definition ts_rfc3339 :: "nat \<Rightarrow> string" where
  "ts_rfc3339 now = format_tm (gmtime now)"

text \<open>A number of exactly \<open>k\<close> digits within bounds; a given character; both from the front.\<close>

definition take_number :: "nat \<Rightarrow> nat \<Rightarrow> nat \<Rightarrow> string \<Rightarrow> (nat \<times> string) option" where
  "take_number k lo hi s =
     (let ds = take k s; n = digits_value ds
      in if length ds = k \<and> list_all is_digit ds \<and> lo \<le> n \<and> n \<le> hi then Some (n, drop k s) else None)"

definition take_char :: "char \<Rightarrow> string \<Rightarrow> string option" where
  "take_char c s = (case s of [] \<Rightarrow> None | x # rest \<Rightarrow> if x = c then Some rest else None)"

definition get_time :: "string \<Rightarrow> tm option" where
  "get_time s0 =
     Option.bind (take_number 4 0 9999 s0) (\<lambda>(y, s).
     Option.bind (take_char CHR ''-'' s) (\<lambda>s.
     Option.bind (take_number 2 1 12 s) (\<lambda>(mo, s).
     Option.bind (take_char CHR ''-'' s) (\<lambda>s.
     Option.bind (take_number 2 1 31 s) (\<lambda>(d, s).
     Option.bind (take_char CHR ''T'' s) (\<lambda>s.
     Option.bind (take_number 2 0 23 s) (\<lambda>(h, s).
     Option.bind (take_char CHR '':'' s) (\<lambda>s.
     Option.bind (take_number 2 0 59 s) (\<lambda>(mi, s).
     Option.bind (take_char CHR '':'' s) (\<lambda>s.
     Option.bind (take_number 2 0 60 s) (\<lambda>(se, s).
     map_option (\<lambda>_. \<lparr>tm_year = y, tm_mon = mo, tm_mday = d, tm_hour = h, tm_min = mi, tm_sec = se\<rparr>)
       (take_char CHR ''Z'' s))))))))))))"

text \<open>An unreadable stamp counts as the epoch.\<close>

definition parse_iso8601_utc :: "string \<Rightarrow> int" where
  "parse_iso8601_utc s = (case get_time s of None \<Rightarrow> 0 | Some t \<Rightarrow> int (timegm t))"

section \<open>Lemmas\<close>

lemma split_year_sum:
  "split_year y0 d = (y, r) \<Longrightarrow>
    y0 \<le> y \<and> r < year_days y \<and> sum_list (map year_days [y0..<y]) + r = d"
proof (induction y0 d rule: split_year.induct)
  case (1 y0 d)
  show ?case
  proof (cases "d < year_days y0")
    case True
    then show ?thesis using 1(2) by (simp add: split_year.simps [of y0 d])
  next
    case False
    then have "split_year (y0 + 1) (d - year_days y0) = (y, r)" using 1(2) by (simp add: split_year.simps [of y0 d])
    then have IH: "y0 + 1 \<le> y" "r < year_days y" "sum_list (map year_days [y0 + 1..<y]) + r = d - year_days y0"
      using 1(1) False by simp_all
    then have "[y0..<y] = y0 # [y0 + 1..<y]" by (simp add: upt_conv_Cons)
    then show ?thesis using IH False by simp
  qed
qed

lemma split_month_sum:
  "split_month ns d = (m, r) \<Longrightarrow> d < sum_list ns \<Longrightarrow>
    m < length ns \<and> r < ns ! m \<and> sum_list (take m ns) + r = d"
proof (induction ns d arbitrary: m r rule: split_month.induct)
  case (2 n ns d)
  then show ?case by (auto split: if_splits prod.splits) fastforce
qed simp

lemma month_days_le: "m < 12 \<Longrightarrow> month_days y ! m \<le> 31"
  by (auto simp: month_days_def less_Suc_eq numeral_eq_Suc)

lemma hours_minutes_seconds: "x div 3600 * 3600 + x div 60 mod 60 * 60 + x mod 60 = (x :: nat)"
proof -
  have "x div 3600 = x div 60 div 60" by (simp add: div_mult2_eq [symmetric])
  moreover have "x div 60 div 60 * 60 + x div 60 mod 60 = x div 60" by simp
  moreover have "x div 60 * 60 + x mod 60 = x" by simp
  ultimately show ?thesis by linarith
qed

lemma timegm_gmtime: "timegm (gmtime t) = t"
proof -
  obtain y yd where y: "split_year 1970 (t div 86400) = (y, yd)" by fastforce
  obtain m md where m: "split_month (month_days y) yd = (m, md)" by fastforce
  note Y = split_year_sum [OF y]
  have M: "sum_list (take m (month_days y)) + md = yd"
    using split_month_sum [OF m] Y by (simp add: sum_month_days)
  have s: "t mod 86400 = t mod 86400 div 3600 * 3600 + t mod 86400 div 60 mod 60 * 60 + t mod 86400 mod 60"
    by (rule hours_minutes_seconds [symmetric])
  have "timegm (gmtime t) = t div 86400 * 86400 + (t mod 86400 div 3600 * 3600 + t mod 86400 div 60 mod 60 * 60 + t mod 86400 mod 60)"
    using Y M by (simp add: timegm_def gmtime_def y m Let_def algebra_simps)
  then show ?thesis using s by simp
qed

lemma gmtime_ranges:
  assumes "gmtime t = u"
  shows "1970 \<le> tm_year u" "1 \<le> tm_mon u" "tm_mon u \<le> 12" "1 \<le> tm_mday u" "tm_mday u \<le> 31" "tm_hour u \<le> 23"
    "tm_min u \<le> 59" "tm_sec u \<le> 59"
proof -
  obtain y yd where y: "split_year 1970 (t div 86400) = (y, yd)" by fastforce
  obtain m md where m: "split_month (month_days y) yd = (m, md)" by fastforce
  note Y = split_year_sum [OF y]
  have M: "m < 12" "md < month_days y ! m"
    using split_month_sum [OF m] Y by (simp_all add: sum_month_days) (simp_all add: month_days_def)
  have u: "u = \<lparr>tm_year = y, tm_mon = m + 1, tm_mday = md + 1, tm_hour = t mod 86400 div 3600,
      tm_min = t mod 86400 div 60 mod 60, tm_sec = t mod 86400 mod 60\<rparr>"
    using assms by (simp add: gmtime_def y m Let_def)
  show "1970 \<le> tm_year u" "1 \<le> tm_mon u" "tm_mon u \<le> 12" "1 \<le> tm_mday u" "tm_mday u \<le> 31"
    using Y M month_days_le [of m y] by (simp_all add: u)
  have "t mod 86400 div 3600 < 24" by (rule less_mult_imp_div_less) simp
  then show "tm_hour u \<le> 23" by (simp add: u)
  have "t mod 86400 div 60 mod 60 < 60" "t mod 86400 mod 60 < 60" by (rule mod_less_divisor; simp)+
  then show "tm_min u \<le> 59" "tm_sec u \<le> 59" by (simp_all add: u)
qed

text \<open>Reading a number that was printed.\<close>

lemma length_pad: "n < 10 ^ k \<Longrightarrow> 0 < k \<Longrightarrow> length (pad k n) = k"
  using length_decimal [of n k] by (simp add: pad_def Let_def)

lemma digits_value_pad [simp]: "digits_value (pad k n) = n"
  by (simp add: pad_def Let_def digits_value_zeros digits_value_decimal)

lemma pad_digits: "list_all is_digit (pad k n)"
  using decimal_digits [of n] by (auto simp: pad_def Let_def is_digit_def list_all_iff)

lemma take_number_pad:
  "n < 10 ^ k \<Longrightarrow> 0 < k \<Longrightarrow> lo \<le> n \<Longrightarrow> n \<le> hi \<Longrightarrow> take_number k lo hi (pad k n @ s) = Some (n, s)"
  by (simp add: take_number_def Let_def length_pad pad_digits)

lemma take_char_Cons [simp]: "take_char c (c # s) = Some s"
  by (simp add: take_char_def)

lemma length_year:
  assumes "1000 \<le> y" "y \<le> 9999"
  shows "length (decimal y) = 4"
proof -
  have "\<not> y < 10" "\<not> y div 10 < 10" "\<not> y div 10 div 10 < 10" "y div 10 div 10 div 10 < 10"
    using assms by (simp_all only: div_mult2_eq [symmetric]) (auto simp: less_mult_imp_div_less)
  then show ?thesis by (simp add: decimal.simps)
qed

lemma get_time_format:
  assumes "1000 \<le> tm_year t" "tm_year t \<le> 9999" "1 \<le> tm_mon t" "tm_mon t \<le> 12" "1 \<le> tm_mday t" "tm_mday t \<le> 31"
    "tm_hour t \<le> 23" "tm_min t \<le> 59" "tm_sec t \<le> 59"
  shows "get_time (format_tm t) = Some t"
proof -
  have "length (decimal (tm_year t)) = 4" using assms(1,2) by (rule length_year)
  then have y: "decimal (tm_year t) = pad 4 (tm_year t)" by (simp add: pad_def)
  show ?thesis
    using assms unfolding get_time_def format_tm_def y
    by (simp add: take_number_pad)
qed

lemma year_days_sum: "365 * n \<le> sum_list (map year_days [y..<y + n])"
  by (induction n) (simp_all add: year_days_def)

lemma gmtime_year:
  assumes "t < 253000000000"
  shows "tm_year (gmtime t) \<le> 9999"
proof (rule ccontr)
  obtain y yd where y: "split_year 1970 (t div 86400) = (y, yd)" by fastforce
  assume "\<not> ?thesis"
  then have "1970 + 8030 \<le> y" by (simp add: gmtime_def y Let_def split: prod.splits)
  then obtain n where n: "y = 1970 + 8030 + n" using le_Suc_ex by blast
  have "365 * (8030 + n) \<le> sum_list (map year_days [1970..<y])"
    using year_days_sum [of "8030 + n" 1970] by (simp add: n add.assoc)
  also have "\<dots> \<le> t div 86400" using split_year_sum [OF y] by simp
  finally have "365 * 8030 * 86400 \<le> t" by (simp add: less_eq_div_iff_mult_less_eq)
  then show False using assms by simp
qed

section \<open>Property\<close>



end
