(* ===== verification/Logging.thy ===== *)
theory Logging
  imports Config Clock
begin

text \<open>
  Structured log lines, error counters and the crash points of \<open>src/logging.cpp\<close>.  The process-wide
  state is the log level and one counter per error code; the lines go to standard error.
\<close>

record log_state =
  lg_level :: nat
  lg_errors :: "u64 list"

definition level_index :: "log_level \<Rightarrow> nat" where
  "level_index l = (case l of Debug \<Rightarrow> 0 | Info \<Rightarrow> 1 | Warn \<Rightarrow> 2 | Error \<Rightarrow> 3)"

definition code_index :: "error_code \<Rightarrow> nat" where
  "code_index c = (case c of InvalidArgument \<Rightarrow> 0 | StoreClosed \<Rightarrow> 1 | IOFailure \<Rightarrow> 2 | CorruptionDetected \<Rightarrow> 3
     | NotImplemented \<Rightarrow> 4 | Backpressure \<Rightarrow> 5)"

definition log_init :: log_state where
  "log_init = \<lparr>lg_level = level_index Info, lg_errors = replicate 6 0\<rparr>"

definition set_log_level :: "log_level \<Rightarrow> log_state \<Rightarrow> log_state" where
  "set_log_level l s = s\<lparr>lg_level := level_index l\<rparr>"

text \<open>The line of an event, and whether it is written at all.\<close>

definition event_line :: "nat \<Rightarrow> log_level \<Rightarrow> string \<Rightarrow> (string \<times> string) list \<Rightarrow> string" where
  "event_line now l event fs =
     ''ts='' @ ts_rfc3339 now @ '' level='' @ log_level_to_string l @ '' event='' @ event @
     concat (map (\<lambda>(k, v). '' '' @ k @ ''='' @ v) fs) @ [CHR 0x0A]"

definition log_event :: "nat \<Rightarrow> log_level \<Rightarrow> string \<Rightarrow> (string \<times> string) list \<Rightarrow> log_state \<Rightarrow> string" where
  "log_event now l event fs s =
     (if level_index l < lg_level s then [] else event_line now l event fs)"

definition count_error :: "error_code \<Rightarrow> log_state \<Rightarrow> log_state" where
  "count_error c s = (let i = code_index c in
     if i < length (lg_errors s) then s\<lparr>lg_errors := (lg_errors s)[i := lg_errors s ! i + 1]\<rparr> else s)"

definition error_count :: "log_state \<Rightarrow> error_code \<Rightarrow> u64" where
  "error_count s c = (let i = code_index c in if i < length (lg_errors s) then lg_errors s ! i else 0)"

text \<open>A crash point ends the process, with status 137 and nothing flushed, when the environment names
  it.\<close>

definition crash_point :: "string option \<Rightarrow> string \<Rightarrow> nat option" where
  "crash_point target name = (if target = Some name then Some 137 else None)"

lemma code_index_less: "code_index c < 6"
  by (cases c) (simp_all add: code_index_def)

lemma code_index_inject: "code_index c = code_index d \<longleftrightarrow> c = d"
  by (cases c; cases d) (simp_all add: code_index_def)

lemma error_count_count:
  "length (lg_errors s) = 6 \<Longrightarrow> error_count (count_error c s) d = (if c = d then error_count s d + 1 else error_count s d)"
  using code_index_less code_index_inject [of c d] by (auto simp: error_count_def count_error_def Let_def)

lemma count_error_length [simp]: "length (lg_errors (count_error c s)) = length (lg_errors s)"
  by (simp add: count_error_def Let_def)

end
