(* ===== verification/Cli_Text.thy ===== *)
theory Cli_Text
  imports Http Logging
begin

text \<open>
  The command line of \<open>src/main.cpp\<close>: its usage text, the parsing of flags, required flags, where the
  configuration comes from, and how numbers and lines are printed.
\<close>

section \<open>Usage\<close>

definition usage_lines :: "string list" where
  "usage_lines = [
     ''usage: lsmkv <command> [flags]'',
     '''',
     ''commands:'',
     ''  init                       prepare data/ and data/wal/, print resolved config'',
     ''  put   --key K --value V    WAL append + memtable update'',
     ''  get   --key K              read memtables then SSTables; value or NOT FOUND'',
     ''  probe --key K --repeat N   N in-process gets of one key (cache demo)'',
     ''  probe --absent N           N gets of random absent keys (bloom demo)'',
     ''  sst-info --file F          footer, index, bloom and block-size details'',
     ''  del   --key K              WAL append + memtable tombstone'',
     ''  stats [--json|--full]      human 10-line summary; JSON or full detail'',
     ''  manifest-info              manifest epoch and live table listing'',
     ''  version-info               current Version: epoch/id, immutables, SSTables'',
     ''  close                      finish appends, sync, exit cleanly'',
     ''  flush-now                  flush pending immutable memtables to SSTables'',
     ''  list-sst                   list live SSTables from the manifest'',
     ''  verify-sst --file F        check footer magic and all block checksums'',
     ''  compaction-run [--files 1,3,4]   run one compaction job (picker or manual)'',
     ''  compaction-stats           backlog, last job summary, paused state'',
     ''  compaction-pause           stop picker/auto compactions (flag file)'',
     ''  compaction-resume          allow compactions again'',
     ''  repl                       interactive session with background workers'',
     ''  serve [--addr H:P]         repl + HTTP endpoints (/healthz /readyz /metrics /stats)'',
     ''  doctor [--bundle PATH]     collect a support bundle (config, manifest, stats...)'',
     ''  stress --threads N --ops M [--read-pct P]   concurrent hammer test'',
     ''  bg-status                  worker states, queues, job totals'',
     ''  shutdown [--fast]          exercise graceful (default) or fast shutdown'',
     ''  wal-verify                 scan WAL segments, print a recovery report (read-only)'',
     ''  wal-truncate --segment S --offset N   truncate a WAL segment (careful!)'',
     '''',
     ''global flags:'',
     ''  --config PATH              config file (default: config/default.json)'',
     ''  --log-level LEVEL          override log_level (debug prints get traces)'']"

definition usage :: string where
  "usage = concat (map (\<lambda>l. l @ newline) usage_lines)"

section \<open>Flags\<close>

type_synonym flags = "string \<Rightarrow> string option"

definition is_flag :: "string \<Rightarrow> bool" where
  "is_flag tok \<longleftrightarrow> take 2 tok = ''--''"

text \<open>Tokens are \<open>--name value\<close> or \<open>--name=value\<close>; a flag that another flag follows has the empty value,
  other tokens are skipped, a later flag overrides an earlier one.\<close>

fun parse_flags :: "string list \<Rightarrow> flags \<Rightarrow> flags" where
  "parse_flags [] m = m"
| "parse_flags (tok # rest) m =
     (if \<not> is_flag tok then parse_flags rest m
      else
        let name = drop 2 tok in
        if CHR ''='' \<in> set name then
          parse_flags rest (m(takeWhile (\<lambda>c. c \<noteq> CHR ''='') name \<mapsto> tl (dropWhile (\<lambda>c. c \<noteq> CHR ''='') name)))
        else
          case rest of
            v # others \<Rightarrow> if \<not> is_flag v then parse_flags others (m(name \<mapsto> v)) else parse_flags rest (m(name \<mapsto> []))
          | [] \<Rightarrow> m(name \<mapsto> []))"

text \<open>A flag that is present and not empty.\<close>

definition flag :: "flags \<Rightarrow> string \<Rightarrow> string option" where
  "flag flags name = (case flags name of Some v \<Rightarrow> if v = [] then None else Some v | None \<Rightarrow> None)"

definition require_flag :: "flags \<Rightarrow> string \<Rightarrow> string result" where
  "require_flag flags name = (case flag flags name of None \<Rightarrow> Inl (Thrown InvalidArgument) | Some v \<Rightarrow> Inr v)"

definition resolve_config_path :: "flags \<Rightarrow> string" where
  "resolve_config_path flags = (case flag flags ''config'' of Some p \<Rightarrow> p | None \<Rightarrow> path_join ''config'' ''default.json'')"

text \<open>What the process finds around it: the environment and the files that hold configurations, each with
  whether it can be opened.\<close>

record 'j surroundings =
  sr_json :: "'j json_lib"
  sr_stod :: "string \<Rightarrow> rat result"
  sr_env :: "string \<Rightarrow> string option"
  sr_open_ok :: "string \<Rightarrow> bool"
  sr_file :: "string \<Rightarrow> bytes option"

definition load_config :: "'j surroundings \<Rightarrow> flags \<Rightarrow> config result" where
  "load_config sr flags =
     (let path = resolve_config_path flags in
      and_then (fst (config_load (sr_json sr) (sr_stod sr) (sr_env sr) (sr_open_ok sr path) (sr_file sr path))) (\<lambda>cfg.
      case flag flags ''log-level'' of
        Some l \<Rightarrow> and_then (log_level_from_string l) (\<lambda>x. Inr (cfg\<lparr>log_level := x\<rparr>))
      | None \<Rightarrow> Inr cfg))"

section \<open>Printing\<close>

definition num :: "u64 \<Rightarrow> string" where
  "num n = decimal (unat n)"

text \<open>A run of names and values as the stream operators of the code put them one after the other.\<close>

definition joined :: "(string \<times> string) list \<Rightarrow> string" where
  "joined kvs = concat (map (\<lambda>(k, v). k @ v) kvs)"

definition line_of :: "(string \<times> string) list \<Rightarrow> string" where
  "line_of kvs = joined kvs @ newline"

definition tick :: string where
  "tick = [CHR 0xE2, CHR 0x9C, CHR 0x93]"

definition yes_no :: "bool \<Rightarrow> string" where
  "yes_no b = (if b then ''yes'' else ''no'')"

definition bit_text :: "bool \<Rightarrow> string" where
  "bit_text b = (if b then ''1'' else ''0'')"

section \<open>Lemmas\<close>

lemma flag_Some [simp]: "m name = Some v \<Longrightarrow> v \<noteq> [] \<Longrightarrow> flag m name = Some v"
  by (simp add: flag_def)

lemma require_flag_cases:
  "require_flag m name = (if m name = None \<or> m name = Some [] then Inl (Thrown InvalidArgument) else Inr (the (m name)))"
  by (auto simp: require_flag_def flag_def split: option.split)

end
