(* ===== verification/Documents.thy ===== *)
theory Documents
  imports Json Clock Manifest_Edits
begin

text \<open>
  The JSON documents of the store: \<open>manifest.json\<close>, as \<open>Manifest::save\<close> builds and
  \<open>Manifest::load_or_create\<close> reads it (\<open>src/manifest.cpp\<close>), and \<open>compaction_stats.json\<close>
  (\<open>src/compaction.cpp\<close>).  They turn the JSON library into the parameters \<open>json_api\<close> and \<open>jobs_api\<close> that
  the manifest and the engine take, and the laws of the library into the round trips those rely on.
\<close>

section \<open>The manifest\<close>

definition meta_doc :: "'j json_lib \<Rightarrow> table_meta \<Rightarrow> 'j" where
  "meta_doc lib t = js_object lib [
     (''id'', js_of_u64 lib (tm_id t)),
     (''file_name'', js_of_string lib (tm_file_name t)),
     (''min_key'', js_of_bytes lib (tm_min_key t)),
     (''max_key'', js_of_bytes lib (tm_max_key t)),
     (''min_seqno'', js_of_u64 lib (tm_min_seqno t)),
     (''max_seqno'', js_of_u64 lib (tm_max_seqno t)),
     (''created_at'', js_of_string lib (tm_created_at t)),
     (''file_size'', js_of_u64 lib (tm_file_size t)),
     (''entries'', js_of_u64 lib (tm_entries t)),
     (''bloom_bits_per_key'', js_of_double lib (tm_bloom_bits_per_key t)),
     (''bloom_hashes'', js_of_u32 lib (tm_bloom_hashes t))]"

definition manifest_doc :: "'j json_lib \<Rightarrow> manifest \<Rightarrow> 'j" where
  "manifest_doc lib m = js_object lib [
     (''manifest_version'', js_of_u64 lib 1),
     (''epoch'', js_of_u64 lib (mf_epoch m)),
     (''next_sst_id'', js_of_u64 lib (mf_next_sst_id m)),
     (''tables'', js_array lib (map (meta_doc lib) (mf_tables m)))]"

text \<open>Reading; \<open>None\<close> is a \<open>json::exception\<close>, which \<open>load_or_create\<close> turns into \<open>CorruptionDetected\<close>.\<close>

definition meta_of_doc :: "'j json_lib \<Rightarrow> 'j \<Rightarrow> table_meta option" where
  "meta_of_doc lib d =
     Option.bind (js_field lib (js_u64 lib) d ''id'') (\<lambda>i.
     Option.bind (js_field lib (js_string lib) d ''file_name'') (\<lambda>name.
     Option.bind (js_field lib (js_bytes lib) d ''min_key'') (\<lambda>mink.
     Option.bind (js_field lib (js_bytes lib) d ''max_key'') (\<lambda>maxk.
     Option.bind (js_field lib (js_u64 lib) d ''min_seqno'') (\<lambda>mins.
     Option.bind (js_field lib (js_u64 lib) d ''max_seqno'') (\<lambda>maxs.
     Option.bind (js_field lib (js_string lib) d ''created_at'') (\<lambda>created.
     Option.bind (js_field lib (js_u64 lib) d ''file_size'') (\<lambda>sz.
     Option.bind (js_field lib (js_u64 lib) d ''entries'') (\<lambda>n.
     Option.bind (js_field lib (js_double lib) d ''bloom_bits_per_key'') (\<lambda>bpk.
     map_option (\<lambda>h. \<lparr>tm_id = i, tm_file_name = name, tm_min_key = mink, tm_max_key = maxk,
         tm_min_seqno = mins, tm_max_seqno = maxs, tm_created_at = created, tm_file_size = sz,
         tm_entries = n, tm_bloom_bits_per_key = bpk, tm_bloom_hashes = h\<rparr>)
       (js_field lib (js_u32 lib) d ''bloom_hashes'')))))))))))"

fun metas_of_docs :: "'j json_lib \<Rightarrow> 'j list \<Rightarrow> table_meta list option" where
  "metas_of_docs lib [] = Some []"
| "metas_of_docs lib (d # ds) =
     Option.bind (meta_of_doc lib d) (\<lambda>t. map_option (Cons t) (metas_of_docs lib ds))"

definition manifest_of_doc :: "'j json_lib \<Rightarrow> 'j \<Rightarrow> manifest option" where
  "manifest_of_doc lib d =
     Option.bind (js_field lib (js_u64 lib) d ''next_sst_id'') (\<lambda>next_id.
     Option.bind (js_value lib (js_u64 lib) d ''epoch'' 0) (\<lambda>epoch.
     Option.bind (js_at lib d ''tables'') (\<lambda>ts.
     map_option (\<lambda>tables. \<lparr>mf_next_sst_id = next_id, mf_epoch = epoch, mf_tables = tables\<rparr>)
       (metas_of_docs lib (js_elements lib ts)))))"

definition manifest_api :: "'j json_lib \<Rightarrow> json_api" where
  "manifest_api lib = \<lparr>ja_dump = (\<lambda>m. js_dump lib (manifest_doc lib m)),
     ja_parse = (\<lambda>t. Option.bind (js_parse lib t) (manifest_of_doc lib))\<rparr>"

section \<open>The statistics of compaction\<close>

definition job_doc :: "'j json_lib \<Rightarrow> compaction_job \<Rightarrow> 'j" where
  "job_doc lib r = js_object lib [
     (''job_id'', js_of_u64 lib (cj_job_id r)),
     (''input_ids'', js_array lib (map (js_of_u64 lib) (cj_input_ids r))),
     (''output_file'', js_of_string lib (cj_output_file r)),
     (''bytes_in'', js_of_u64 lib (cj_bytes_in r)),
     (''bytes_out'', js_of_u64 lib (cj_bytes_out r)),
     (''keys_in'', js_of_u64 lib (cj_keys_in r)),
     (''keys_out'', js_of_u64 lib (cj_keys_out r)),
     (''keys_dropped'', js_of_u64 lib (cj_keys_dropped r)),
     (''tombstones_kept'', js_of_u64 lib (cj_tombstones_kept r)),
     (''tombstones_dropped'', js_of_u64 lib (cj_tombstones_dropped r)),
     (''duration_ms'', js_of_u64 lib (cj_duration_ms r))]"

definition state_doc :: "'j json_lib \<Rightarrow> compaction_state \<Rightarrow> 'j" where
  "state_doc lib s = js_object lib ((''next_job_id'', js_of_u64 lib (cs_next_job_id s)) #
     (case cs_last_job s of
        None \<Rightarrow> []
      | Some r \<Rightarrow> [(''last_job'', job_doc lib r),
                 (''finished_at'', js_of_string lib (cs_last_job_finished_at s))]))"

definition job_of_doc :: "'j json_lib \<Rightarrow> 'j \<Rightarrow> compaction_job option" where
  "job_of_doc lib j =
     Option.bind (js_value lib (js_u64 lib) j ''job_id'' 0) (\<lambda>i.
     Option.bind (js_value lib (js_u64s_of lib \<circ> js_elements lib) j ''input_ids'' []) (\<lambda>ids.
     Option.bind (js_value lib (js_string lib) j ''output_file'' []) (\<lambda>out.
     Option.bind (js_value lib (js_u64 lib) j ''bytes_in'' 0) (\<lambda>bin.
     Option.bind (js_value lib (js_u64 lib) j ''bytes_out'' 0) (\<lambda>bout.
     Option.bind (js_value lib (js_u64 lib) j ''keys_in'' 0) (\<lambda>kin.
     Option.bind (js_value lib (js_u64 lib) j ''keys_out'' 0) (\<lambda>kout.
     Option.bind (js_value lib (js_u64 lib) j ''keys_dropped'' 0) (\<lambda>kdrop.
     Option.bind (js_value lib (js_u64 lib) j ''tombstones_kept'' 0) (\<lambda>tkept.
     Option.bind (js_value lib (js_u64 lib) j ''tombstones_dropped'' 0) (\<lambda>tdrop.
     map_option (\<lambda>ms. \<lparr>cj_job_id = i, cj_input_ids = ids, cj_output_file = out, cj_bytes_in = bin,
         cj_bytes_out = bout, cj_keys_in = kin, cj_keys_out = kout, cj_keys_dropped = kdrop,
         cj_tombstones_kept = tkept, cj_tombstones_dropped = tdrop, cj_duration_ms = ms\<rparr>)
       (js_value lib (js_u64 lib) j ''duration_ms'' 0)))))))))))"

definition state_of_doc :: "'j json_lib \<Rightarrow> 'j \<Rightarrow> compaction_state option" where
  "state_of_doc lib d =
     Option.bind (js_value lib (js_u64 lib) d ''next_job_id'' 1) (\<lambda>next_id.
     if js_contains lib d ''last_job'' then
       Option.bind (js_at lib d ''last_job'') (\<lambda>j.
       Option.bind (job_of_doc lib j) (\<lambda>r.
       map_option (\<lambda>fin. \<lparr>cs_next_job_id = next_id, cs_last_job = Some r, cs_last_job_finished_at = fin\<rparr>)
         (js_value lib (js_string lib) d ''finished_at'' [])))
     else Some \<lparr>cs_next_job_id = next_id, cs_last_job = None, cs_last_job_finished_at = []\<rparr>)"

text \<open>The dump of a document of numbers and names cannot throw.\<close>

definition jobs_api_of :: "'j json_lib \<Rightarrow> jobs_api" where
  "jobs_api_of lib = \<lparr>jo_dump = (\<lambda>s. case js_dump lib (state_doc lib s) of Some t \<Rightarrow> t | None \<Rightarrow> []),
     jo_parse = (\<lambda>t. Option.bind (js_parse lib t) (state_of_doc lib))\<rparr>"

section \<open>The line of a finished job\<close>

text \<open>\<open>percent\<close> prints the share of dropped keys without decimals; it is the formatting of a
  \<open>double\<close>, a parameter.\<close>

definition format_job_line :: "(u64 \<Rightarrow> u64 \<Rightarrow> string) \<Rightarrow> compaction_job \<Rightarrow> string" where
  "format_job_line percent r =
     (let n = (\<lambda>x :: u64. decimal (unat x)) in
      ''compact job='' @ n (cj_job_id r) @ '' inputs='' @ decimal (length (cj_input_ids r)) @
      '' bytes_in='' @ n (cj_bytes_in r) @ '' bytes_out='' @ n (cj_bytes_out r) @
      '' keys_in='' @ n (cj_keys_in r) @ '' keys_out='' @ n (cj_keys_out r) @
      '' drop='' @ (if cj_keys_in r \<noteq> 0 then percent (cj_keys_dropped r) (cj_keys_in r) else ''0'') @ ''%'' @
      '' tombstones_kept='' @ n (cj_tombstones_kept r) @
      '' tombstones_dropped='' @ n (cj_tombstones_dropped r) @
      '' dur='' @ n (cj_duration_ms r) @ ''ms'' @
      '' output='' @ (if cj_output_file r = [] then ''(none)'' else cj_output_file r))"

section \<open>Round trips\<close>

lemma meta_roundtrip: "json_laws lib \<Longrightarrow> meta_of_doc lib (meta_doc lib t) = Some t"
  unfolding meta_of_doc_def meta_doc_def
  by (simp add: js_field_object js_string_of_string json_lawsD)

lemma metas_roundtrip: "json_laws lib \<Longrightarrow> metas_of_docs lib (map (meta_doc lib) ts) = Some ts"
  by (induction ts) (simp_all add: meta_roundtrip)

lemma manifest_doc_roundtrip: "json_laws lib \<Longrightarrow> manifest_of_doc lib (manifest_doc lib m) = Some m"
  unfolding manifest_of_doc_def manifest_doc_def
  by (simp add: js_field_object js_value_object js_at_def metas_roundtrip json_lawsD)

lemma manifest_api_roundtrip: "json_laws lib \<Longrightarrow> json_roundtrip (manifest_api lib)"
  by (auto simp: json_roundtrip_def manifest_api_def json_lawsD(1) manifest_doc_roundtrip)

lemma job_roundtrip: "json_laws lib \<Longrightarrow> job_of_doc lib (job_doc lib r) = Some r"
  unfolding job_of_doc_def job_doc_def
  by (simp add: js_value_object js_string_of_string js_u64s_of_map json_lawsD)

text \<open>Without a last job its time of finishing is not written.\<close>

definition state_ok :: "compaction_state \<Rightarrow> bool" where
  "state_ok s \<longleftrightarrow> (cs_last_job s = None \<longrightarrow> cs_last_job_finished_at s = [])"

lemma state_roundtrip:
  "json_laws lib \<Longrightarrow> state_ok s \<Longrightarrow> state_of_doc lib (state_doc lib s) = Some s"
  unfolding state_of_doc_def state_doc_def state_ok_def
  by (cases "cs_last_job s")
    (simp_all add: js_value_object js_contains_object js_at_def js_string_of_string job_roundtrip json_lawsD)

section \<open>Property\<close>

text \<open>C37. The documents on disk.  Given what the JSON library promises, every manifest the store saves
  is the manifest a restart reads: all eleven fields of every table, in their order, the epoch and
  the next id; so the hypothesis on JSON of the crash theorems holds of the code's own reader and
  writer.  The statistics of compaction come back too.  A manifest file that is JSON but lacks a
  field, or has it with another type, is \<open>CorruptionDetected\<close>, and so is one that is no JSON; garbled
  statistics start over.\<close>
theorem documents_roundtrip:
  assumes "json_laws lib"
  shows "json_roundtrip (manifest_api lib) \<and>
    (js_dump lib (manifest_doc lib m) = Some t \<longrightarrow> ja_parse (manifest_api lib) t = Some m) \<and>
    (state_ok s \<and> js_dump lib (state_doc lib s) \<noteq> None \<longrightarrow>
      load_compaction_state (jobs_api_of lib) (save_compaction_state (jobs_api_of lib) s) = s) \<and>
    (js_parse lib u = None \<or> Option.bind (js_parse lib u) (manifest_of_doc lib) = None \<longrightarrow>
      load_or_create (manifest_api lib) True (Some u) = Inl (Thrown CorruptionDetected)) \<and>
    (Option.bind (js_parse lib u) (state_of_doc lib) = None \<longrightarrow>
      load_compaction_state (jobs_api_of lib) (Some u) = compaction_state_new)"
proof (intro conjI impI)
  show "json_roundtrip (manifest_api lib)" using assms by (rule manifest_api_roundtrip)
  show "ja_parse (manifest_api lib) t = Some m" if "js_dump lib (manifest_doc lib m) = Some t"
    using assms that by (simp add: manifest_api_def json_lawsD(1) manifest_doc_roundtrip)
  show "load_compaction_state (jobs_api_of lib) (save_compaction_state (jobs_api_of lib) s) = s"
    if "state_ok s \<and> js_dump lib (state_doc lib s) \<noteq> None"
    using assms that by (auto simp: load_compaction_state_def save_compaction_state_def jobs_api_of_def
        json_lawsD(1) state_roundtrip)
  show "load_or_create (manifest_api lib) True (Some u) = Inl (Thrown CorruptionDetected)"
    if "js_parse lib u = None \<or> Option.bind (js_parse lib u) (manifest_of_doc lib) = None"
    using that by (auto simp: load_or_create_def manifest_api_def)
  show "load_compaction_state (jobs_api_of lib) (Some u) = compaction_state_new"
    if "Option.bind (js_parse lib u) (state_of_doc lib) = None"
    using that by (simp add: load_compaction_state_def jobs_api_of_def)
qed

definition sample_doc :: tree where
  "sample_doc = manifest_doc (tree_lib T_Null) sample_manifest"

lemma sample_doc_any: "manifest_doc (tree_lib d0) sample_manifest = sample_doc"
  by (simp add: sample_doc_def manifest_doc_def meta_doc_def [abs_def] tree_lib_def js_of_string_def)

theorem documents_roundtrip_witness:
  "ja_parse (manifest_api (tree_lib sample_doc)) [1] = Some sample_manifest \<and>
   load_or_create (manifest_api (tree_lib sample_doc)) True (Some [2]) = Inl (Thrown CorruptionDetected)"
proof -
  have "js_dump (tree_lib sample_doc) (manifest_doc (tree_lib sample_doc) sample_manifest) = Some [1]"
    unfolding sample_doc_any by (simp add: tree_lib_def)
  moreover have "js_parse (tree_lib sample_doc) [2] = None" by (simp add: tree_lib_def)
  ultimately show ?thesis
    using documents_roundtrip [OF tree_lib_laws [of sample_doc], of sample_manifest "[1]" compaction_state_new "[2]"] by blast
qed

end
