(* ===== verification/Cli.thy ===== *)
theory Cli
  imports Cli_Text Documents Engine
begin

text \<open>
  The commands of \<open>src/main.cpp\<close> over the engine: what each opens, does, prints and returns.  A command
  that throws has printed what it printed; the engine it had opened is destroyed on the way out.
  The output is what \<open>main.cpp\<close> writes to standard output; lines that the engine writes of its own
  accord (deleted segments, finished jobs, events) are left out.
\<close>

section \<open>Running a command\<close>

text \<open>The parameters: the engine's, the surroundings, and the printing of a \<open>double\<close> by a stream
  and by the JSON library, of a percentage and of a JSON document, the message of an error, and the random numbers
  \<open>std::mt19937_64\<close> gives for a seed.\<close>

datatype stat = Count u64 | Rate rat

record 'j cli =
  cl_cx :: engine_ctx
  cl_sr :: "'j surroundings"
  cl_show :: "rat \<Rightarrow> string"
  cl_rate :: "rat \<Rightarrow> string"
  cl_percent :: "u64 \<Rightarrow> u64 \<Rightarrow> string"
  cl_dump :: "(string \<times> stat) list \<Rightarrow> string"
  cl_what :: "error_code \<Rightarrow> string"
  cl_random :: "u64 \<Rightarrow> nat \<Rightarrow> u64"

text \<open>A moment of the stress test: a turn of one of its threads, or a round of a worker.\<close>

datatype turn = Thread_turn nat engine_io | Worker_turn bool engine_io

text \<open>What \<open>doctor\<close> meets: whether it can create its directory, what was in it, the order in which a
  directory lists its entries, and the size of the archive, if it can be made.\<close>

record support =
  sp_mkdir :: bool
  sp_before :: "(string, string) std_map"
  sp_listed :: "(string \<times> nat) list \<Rightarrow> (string \<times> nat) list"
  sp_zip :: "nat option"
  sp_now :: nat

text \<open>The operating system's answers to the operations of one command, the rounds the workers make
  (\<open>True\<close> for the flush worker) and the lines typed into a session.\<close>

record answers =
  su_open :: engine_io
  su_op :: "nat \<Rightarrow> engine_io"
  su_flush :: "nat \<Rightarrow> engine_io"
  su_compact :: "nat \<Rightarrow> engine_io"
  su_close :: engine_io
  su_rounds :: "(bool \<times> engine_io) list"
  su_lines :: "(string \<times> (bool \<times> engine_io) list) list"
  su_net :: net_io
  su_resize :: bool
  su_mtime :: nat
  su_turns :: "turn list"
  su_elapsed_ms :: u64
  su_support :: support

record session =
  se_engine :: engine
  se_out :: string
  se_log :: log_state

type_synonym 'a cmd = "session \<Rightarrow> 'a result \<times> session"

definition say :: "string \<Rightarrow> unit cmd" where
  "say t s = (Inr (), s\<lparr>se_out := se_out s @ t\<rparr>)"

definition on_engine :: "(engine \<Rightarrow> 'a result \<times> engine) \<Rightarrow> 'a cmd" where
  "on_engine f s = (case f (se_engine s) of (r, e) \<Rightarrow> (r, s\<lparr>se_engine := e\<rparr>))"

definition ask :: "(engine \<Rightarrow> 'a result) \<Rightarrow> 'a cmd" where
  "ask f s = (f (se_engine s), s)"

definition ret :: "'a \<Rightarrow> 'a cmd" where
  "ret x s = (Inr x, s)"

definition fail :: "fault \<Rightarrow> 'a cmd" where
  "fail err s = (Inl err, s)"

definition then_do :: "'a cmd \<Rightarrow> ('a \<Rightarrow> 'b cmd) \<Rightarrow> 'b cmd" where
  "then_do c f s = bind_st (c s) f"

definition lift_result :: "'a result \<Rightarrow> 'a cmd" where
  "lift_result r s = (r, s)"

text \<open>A one-shot command runs no workers, so no writer waits there.\<close>

definition settled :: "'a result option \<times> engine \<Rightarrow> 'a result \<times> engine" where
  "settled p = (case p of (Some r, e) \<Rightarrow> (r, e) | (None, e) \<Rightarrow> (Inl Undefined, e))"

text \<open>The destructors: the workers are stopped, the log is closed as well as it goes.\<close>

definition engine_drop :: "engine_io \<Rightarrow> engine \<Rightarrow> engine" where
  "engine_drop io e = (let e1 = stop_workers e in
     e1\<lparr>en_wal := map_option (\<lambda>w. snd (wal_close (eo_wal io) w)) (en_wal e1)\<rparr>)"

text \<open>A command over an engine: its result, its output, the disk it leaves.\<close>

definition with_engine :: "answers \<Rightarrow> config \<Rightarrow> 'a cmd \<Rightarrow> disk \<Rightarrow> 'a result \<times> string \<times> disk" where
  "with_engine su cfg body d =
     (case body \<lparr>se_engine = engine_new cfg d, se_out = [], se_log = log_init\<rparr> of
        (r, s) \<Rightarrow> (r, se_out s, disk_of (engine_drop (su_close su) (se_engine s))))"

section \<open>Reports\<close>

record wal_stats =
  ws_active_segment_id :: nat
  ws_active_segment_bytes :: nat
  ws_total_segments :: nat
  ws_last_seqno :: u64
  ws_fsync_every_n :: u32
  ws_roll_bytes :: u64

definition wal_stats_of :: "wal \<Rightarrow> wal_stats" where
  "wal_stats_of w = \<lparr>ws_active_segment_id = w_active_id w, ws_active_segment_bytes = w_active_bytes w,
     ws_total_segments = w_total_segments w, ws_last_seqno = w_last_seqno w,
     ws_fsync_every_n = w_fsync_every_n w, ws_roll_bytes = w_roll_bytes w\<rparr>"

definition engine_wal_stats :: "engine \<Rightarrow> wal_stats result" where
  "engine_wal_stats e = and_then (ensure_open e) (\<lambda>_. Inr (wal_stats_of (the (en_wal e))))"

definition report_text :: "wal_recovery_report \<Rightarrow> string" where
  "report_text r = line_of ([
     (''recovery: segments='', decimal (rr_segments r)), ('' records='', decimal (rr_records r)),
     ('' truncated='', decimal (rr_truncated r)), ('' last_seqno='', num (rr_last_seqno r)), ('' status=OK'', [])] @
     (if rr_truncated r > 0 then
        [('' truncated_segment='', case rr_truncated_segment r of Some i \<Rightarrow> segment_name (of_nat i) | None \<Rightarrow> []),
         ('' truncated_to='', decimal (rr_truncated_to r))]
      else []))"

definition recovery_text :: "engine_recovery \<Rightarrow> string" where
  "recovery_text r = report_text (er_wal r) @
     line_of ([(''recovery: memtable_keys='', num (er_memtable_keys r)),
       ('' memtable_bytes='', num (er_memtable_bytes r)), ('' last_seqno='', num (rr_last_seqno (er_wal r))),
       ('' sst_count='', decimal (er_sst_count r))] @
       (if er_tmp_files_removed r > 0 then [('' tmp_files_removed='', decimal (er_tmp_files_removed r))] else [])) @
     line_of [(''startup: manifest_tables='', decimal (er_sst_count r)), ('' epoch='', num (er_epoch r)),
       ('' wal_records='', decimal (rr_records (er_wal r))), ('' version_published='', num (er_version_published r))]"

definition open_engine :: "'j cli \<Rightarrow> answers \<Rightarrow> bool \<Rightarrow> unit cmd" where
  "open_engine cl su quiet =
     then_do (on_engine (engine_open (cl_cx cl) (su_open su))) (\<lambda>r.
     if quiet then ret () else say (recovery_text r))"

definition close_engine :: "'j cli \<Rightarrow> answers \<Rightarrow> bool \<Rightarrow> unit cmd" where
  "close_engine cl su graceful = on_engine (close (cl_cx cl) (su_close su) (su_flush su) graceful)"

definition trace_text :: "get_trace \<Rightarrow> bool \<Rightarrow> string" where
  "trace_text t found = line_of [
     (''trace: memtable='', if gt_memtable_hit t then ''hit'' else ''miss''),
     ('' immutables_consulted='', num (ucast (gt_immutables_consulted t))),
     ('' sstables_consulted='', num (ucast (gt_sstables_consulted t))),
     ('' range_skipped='', num (ucast (gt_range_skipped t))),
     ('' blooms_skipped='', num (ucast (gt_blooms_skipped t))),
     ('' block_reads='', num (ucast (gt_block_reads t))),
     ('' cache_hits='', num (ucast (gt_cache_hits t))),
     ('' result='', if found then ''found'' else ''not_found'')]"

definition hit_rate :: "read_stats \<Rightarrow> rat" where
  "hit_rate r = (let lookups = rs_cache_hits r + rs_cache_misses r in
     if lookups = 0 then 0 else of_nat (unat (rs_cache_hits r)) / of_nat (unat lookups))"

definition read_stats_text :: "'j cli \<Rightarrow> engine \<Rightarrow> string" where
  "read_stats_text cl e = (let r = en_read_stats e in
     line_of [(''read.sstables_open='', decimal (fd_open_count (en_fds e)))] @
     line_of [(''read.blooms_checked='', num (rs_blooms_checked r))] @
     line_of [(''read.blooms_negative='', num (rs_blooms_negative r))] @
     line_of [(''read.block_cache_hits='', num (rs_cache_hits r))] @
     line_of [(''read.block_cache_misses='', num (rs_cache_misses r))] @
     line_of [(''read.block_cache_hit_rate='', cl_show cl (hit_rate r))] @
     line_of [(''read.disk_block_reads='', num (rs_disk_block_reads r))])"

section \<open>put, get, del\<close>

definition read_key :: "'j cli \<Rightarrow> answers \<Rightarrow> nat \<Rightarrow> bytes \<Rightarrow> (bytes option \<times> get_trace) cmd" where
  "read_key cl su i key = on_engine (\<lambda>e. case get (su_op su i) key e of
     (Inl err, e1, _) \<Rightarrow> (Inl err, e1) | (Inr v, e1, tr) \<Rightarrow> (Inr (v, tr), e1))"

definition value_text :: "bytes option \<Rightarrow> string" where
  "value_text v = (case v of Some x \<Rightarrow> text_of x | None \<Rightarrow> ''NOT FOUND'')"

definition say_written :: "u64 \<Rightarrow> unit cmd" where
  "say_written seqno = then_do (ask engine_memtable_stats) (\<lambda>m.
     say (line_of [(''ok seqno='', num seqno), ('' memtable_bytes='', num (ms_active_bytes m))]))"

definition run_mutation :: "'j cli \<Rightarrow> answers \<Rightarrow> string \<Rightarrow> flags \<Rightarrow> config \<Rightarrow> disk \<Rightarrow> nat result \<times> string \<times> disk" where
  "run_mutation cl su cmd flags cfg d =
     (case require_flag flags ''key'' of
        Inl err \<Rightarrow> (Inl err, [], d)
      | Inr key \<Rightarrow> with_engine su cfg (
          then_do (open_engine cl su False) (\<lambda>_.
          then_do
            (if cmd = ''put'' then
               then_do (on_engine (\<lambda>e. settled (put (su_op su 0) (bytes_of key)
                   (case flags ''value'' of Some v \<Rightarrow> bytes_of v | None \<Rightarrow> []) e))) say_written
             else if cmd = ''del'' then
               then_do (on_engine (\<lambda>e. settled (remove_key (su_op su 0) (bytes_of key) e))) say_written
             else
               then_do (read_key cl su 0 (bytes_of key)) (\<lambda>(v, tr).
               then_do (if log_level cfg = Debug then say (trace_text tr (v \<noteq> None)) else ret ()) (\<lambda>_.
               say (value_text v @ newline))))
          (\<lambda>_. then_do (close_engine cl su True) (\<lambda>_. ret 0)))) d)"

section \<open>probe\<close>

text \<open>The keys of \<open>probe --absent\<close>; the product wraps.\<close>

definition absent_key :: "nat \<Rightarrow> string" where
  "absent_key i = ''absent-'' @ decimal i @ ''-x9q7z-'' @ num (of_nat i * 2654435761)"

primrec probe_absent :: "'j cli \<Rightarrow> answers \<Rightarrow> nat \<Rightarrow> nat cmd" where
  "probe_absent cl su 0 = ret 0"
| "probe_absent cl su (Suc i) =
     then_do (probe_absent cl su i) (\<lambda>found.
     then_do (read_key cl su i (bytes_of (absent_key i))) (\<lambda>(v, _).
     ret (if v \<noteq> None then found + 1 else found)))"

primrec probe_repeat :: "'j cli \<Rightarrow> answers \<Rightarrow> bytes \<Rightarrow> nat \<Rightarrow> bytes option cmd" where
  "probe_repeat cl su key 0 = ret None"
| "probe_repeat cl su key (Suc i) =
     then_do (probe_repeat cl su key i) (\<lambda>_.
     then_do (read_key cl su i key) (\<lambda>(v, _). ret v))"

definition run_probe :: "'j cli \<Rightarrow> answers \<Rightarrow> flags \<Rightarrow> config \<Rightarrow> disk \<Rightarrow> nat result \<times> string \<times> disk" where
  "run_probe cl su flags cfg = with_engine su cfg (
     then_do (open_engine cl su False) (\<lambda>_.
     then_do
       (case flag flags ''absent'' of
          Some text \<Rightarrow>
            then_do (lift_result (stoull text)) (\<lambda>count.
            then_do (probe_absent cl su (unat count)) (\<lambda>found.
            say (line_of [(''probed '', num count), ('' absent keys, found='', decimal found)])))
        | None \<Rightarrow>
            then_do (lift_result (require_flag flags ''key'')) (\<lambda>key.
            then_do (lift_result (case flag flags ''repeat'' of Some text \<Rightarrow> stoull text | None \<Rightarrow> Inr 1)) (\<lambda>repeat.
            then_do (probe_repeat cl su (bytes_of key) (unat repeat)) (\<lambda>v.
            say (line_of [(''probed key='', key), ('' x'', num repeat), ('' -> '', value_text v)])))))
     (\<lambda>_.
     then_do (\<lambda>s. say (read_stats_text cl (se_engine s)) s) (\<lambda>_.
     then_do (close_engine cl su True) (\<lambda>_. ret 0)))))"

end
