(* ===== verification/Cli_Inspect.thy ===== *)
theory Cli_Inspect
  imports Cli
begin

text \<open>
  What the commands show of a running engine (\<open>src/main.cpp\<close>): the statistics as a JSON document and
  for humans, the Prometheus metrics, the state of the background work, and the HTTP handler that
  serves them.  \<open>compacting\<close> is the flag \<open>compact_running\<close>, which only another thread can see raised.
\<close>

section \<open>Statistics\<close>

definition backlog :: "'j cli \<Rightarrow> config \<Rightarrow> engine \<Rightarrow> u64" where
  "backlog cl cfg e = (case pick_compaction (cx_similar (cl_cx cl)) (mf_tables (en_manifest e)) cfg of
     Some p \<Rightarrow> pk_total_bytes p | None \<Rightarrow> 0)"

definition current_version :: "engine \<Rightarrow> version result" where
  "current_version e = (case en_version e of Some v \<Rightarrow> Inr v | None \<Rightarrow> Inl Undefined)"

definition stats_json :: "'j cli \<Rightarrow> config \<Rightarrow> bool \<Rightarrow> engine \<Rightarrow> (string \<times> stat) list result" where
  "stats_json cl cfg compacting e =
     and_then (engine_wal_stats e) (\<lambda>w.
     and_then (engine_memtable_stats e) (\<lambda>m.
     and_then (current_version e) (\<lambda>v.
     let t = engine_sst_stats e; r = en_read_stats e in
     Inr [(''epoch'', Count (ve_epoch v)),
           (''version_id'', Count (ve_id v)),
           (''last_seqno'', Count (ws_last_seqno w)),
           (''active_bytes'', Count (ms_active_bytes m)),
           (''active_entries'', Count (ms_active_entries m)),
           (''immutables'', Count (of_nat (ms_immutables_count m))),
           (''immutables_bytes'', Count (ms_immutables_bytes_total m)),
           (''sst_live'', Count (of_nat (ss_sst_count t))),
           (''sst_total_bytes'', Count (ss_sst_total_bytes t)),
           (''block_cache_hit_rate'', Rate (hit_rate r)),
           (''disk_block_reads'', Count (rs_disk_block_reads r)),
           (''blooms_checked'', Count (rs_blooms_checked r)),
           (''blooms_negative'', Count (rs_blooms_negative r)),
           (''compaction_backlog_bytes'', Count (backlog cl cfg e)),
           (''jobs_running'', Count ((if bg_flush_running (en_bg e) then 1 else 0) + (if compacting then 1 else 0))),
           (''wal_segments'', Count (of_nat (ws_total_segments w))),
           (''wal_active_segment_bytes'', Count (of_nat (ws_active_segment_bytes w)))])))"

definition stat_text :: "'j cli \<Rightarrow> stat \<Rightarrow> string" where
  "stat_text cl x = (case x of Count n \<Rightarrow> num n | Rate q \<Rightarrow> cl_rate cl q)"

definition human_text :: "'j cli \<Rightarrow> (string \<times> stat) list \<Rightarrow> string" where
  "human_text cl j =
     (let g = (\<lambda>k. case map_of j k of Some x \<Rightarrow> stat_text cl x | None \<Rightarrow> ''null'') in
      line_of [(''epoch='', g ''epoch''), ('' version_id='', g ''version_id''), ('' last_seqno='', g ''last_seqno'')] @
      line_of [(''active_bytes='', g ''active_bytes''), ('' active_entries='', g ''active_entries'')] @
      line_of [(''immutables='', g ''immutables''), ('' immutables_bytes='', g ''immutables_bytes'')] @
      line_of [(''sst_live='', g ''sst_live''), ('' sst_total_bytes='', g ''sst_total_bytes'')] @
      line_of [(''block_cache_hit_rate='', g ''block_cache_hit_rate''), ('' disk_block_reads='', g ''disk_block_reads'')] @
      line_of [(''blooms_checked='', g ''blooms_checked''), ('' blooms_negative='', g ''blooms_negative'')] @
      line_of [(''compaction_backlog_bytes='', g ''compaction_backlog_bytes''), ('' jobs_running='', g ''jobs_running'')] @
      line_of [(''wal_segments='', g ''wal_segments''), ('' wal_active_segment_bytes='', g ''wal_active_segment_bytes'')])"

definition prometheus_text :: "'j cli \<Rightarrow> config \<Rightarrow> log_state \<Rightarrow> engine \<Rightarrow> string result" where
  "prometheus_text cl cfg lg e =
     and_then (engine_wal_stats e) (\<lambda>w.
     and_then (engine_memtable_stats e) (\<lambda>m.
     and_then (current_version e) (\<lambda>v.
     let t = engine_sst_stats e; r = en_read_stats e; b = en_bg e;
         emit = (\<lambda>(name, kind, n). line_of [(''# TYPE '', name), ('' '', kind)] @ line_of [(name, '' ''), (num n, [])])
     in Inr (concat (map emit
          [(''lsm_writes_total'', ''counter'', bg_writes_total b),
           (''lsm_wal_appends_total'', ''counter'', bg_writes_total b),
           (''lsm_wal_active_segment_bytes'', ''gauge'', of_nat (ws_active_segment_bytes w)),
           (''lsm_wal_segments_total'', ''gauge'', of_nat (ws_total_segments w)),
           (''lsm_memtable_active_bytes'', ''gauge'', ms_active_bytes m),
           (''lsm_memtable_active_entries'', ''gauge'', ms_active_entries m),
           (''lsm_memtables_immutable'', ''gauge'', of_nat (ms_immutables_count m)),
           (''lsm_flush_jobs_total'', ''counter'', bg_flush_jobs_total b),
           (''lsm_sst_created_total'', ''counter'', bg_flush_jobs_total b),
           (''lsm_sst_bytes_written_total'', ''counter'', bg_sst_bytes_written_total b),
           (''lsm_reads_total'', ''counter'', rs_reads_total r),
           (''lsm_read_hit_memtable_total'', ''counter'', rs_hit_memtable_total r),
           (''lsm_read_sstable_consulted_total'', ''counter'', rs_sstables_consulted_total r),
           (''lsm_bloom_checks_total'', ''counter'', rs_blooms_checked r),
           (''lsm_bloom_negative_total'', ''counter'', rs_blooms_negative r),
           (''lsm_block_cache_hits_total'', ''counter'', rs_cache_hits r),
           (''lsm_block_cache_misses_total'', ''counter'', rs_cache_misses r),
           (''lsm_disk_block_reads_total'', ''counter'', rs_disk_block_reads r),
           (''lsm_compaction_jobs_total'', ''counter'', bg_compactions_total b),
           (''lsm_compaction_bytes_in_total'', ''counter'', bg_compaction_bytes_in_total b),
           (''lsm_compaction_bytes_out_total'', ''counter'', bg_compaction_bytes_out_total b),
           (''lsm_compaction_backlog_bytes'', ''gauge'', backlog cl cfg e),
           (''lsm_versions_published_total'', ''counter'', bg_versions_published_total b),
           (''lsm_epoch_current'', ''gauge'', ve_epoch v),
           (''lsm_sst_live_total'', ''gauge'', of_nat (ss_sst_count t)),
           (''lsm_write_stalls_total'', ''counter'', bg_write_stalls_total b)]) @
        line_of [(''# TYPE lsm_errors_total counter'', [])] @
        concat (map (\<lambda>c. line_of [(''lsm_errors_total{type='', [CHR 0x22]), (error_to_string c, [CHR 0x22]), (''} '', num (error_count lg c))])
          [InvalidArgument, StoreClosed, IOFailure, CorruptionDetected, NotImplemented, Backpressure])))))"

definition bg_status_text :: "'j cli \<Rightarrow> config \<Rightarrow> bool \<Rightarrow> engine \<Rightarrow> string result" where
  "bg_status_text cl cfg compacting e =
     and_then (engine_memtable_stats e) (\<lambda>m.
     let b = en_bg e; state = load_compaction_state (cx_jobs (cl_cx cl)) (en_jobs_file e) in
     Inr (line_of [(''workers: running='', if en_workers_running e then ''yes'' else ''no (one-shot)''),
            ('' flush_running='', bit_text (bg_flush_running b)), ('' compact_running='', bit_text compacting)] @
          line_of [(''queues: immutables='', decimal (ms_immutables_count m)),
            ('' immutable_bytes='', num (ms_immutables_bytes_total m)),
            ('' compaction_backlog_bytes='', num (backlog cl cfg e))] @
          line_of [(''totals: flush_jobs='', num (bg_flush_jobs_total b)), ('' flush_last_ms='', num (bg_flush_last_ms b)),
            ('' compactions='', num (bg_compactions_total b)), ('' compaction_last_ms='', num (bg_compaction_last_ms b)),
            ('' versions_published='', num (bg_versions_published_total b))] @
          line_of [(''stalls: write_stalls='', num (bg_write_stalls_total b)),
            ('' stall_time_ms='', num (bg_stall_time_ms_total b))] @
          line_of [(''compaction_paused='', yes_no (en_paused e))] @
          (case cs_last_job state of
             Some job \<Rightarrow> line_of [(''last job ('', cs_last_job_finished_at state), (''): '', format_job_line (cl_percent cl) job)]
           | None \<Rightarrow> [])))"

section \<open>HTTP\<close>

definition http_handler :: "'j cli \<Rightarrow> config \<Rightarrow> log_state \<Rightarrow> bool \<Rightarrow> engine \<Rightarrow> string \<Rightarrow> http_response result" where
  "http_handler cl cfg lg compacting e path =
     (if path = ''/healthz'' then Inr (plain 200 ''ok'')
      else if path = ''/readyz'' then
        Inr (if en_workers_running e \<and> \<not> en_closed e then plain 200 ''ready'' else plain 503 ''not ready'')
      else if path = ''/metrics'' then
        (if \<not> metrics_enabled cfg then Inr (plain 404 ''metrics disabled'')
         else and_then (prometheus_text cl cfg lg e) (\<lambda>t. Inr (plain 200 t)))
      else if path = ''/stats'' then
        and_then (stats_json cl cfg compacting e) (\<lambda>j.
        Inr \<lparr>hr_status = 200, hr_content_type = ''application/json'', hr_body = cl_dump cl j\<rparr>)
      else Inr (plain 404 ''not found (try /healthz /readyz /metrics /stats)''))"

section \<open>stats\<close>

definition say_of :: "(engine \<Rightarrow> string result) \<Rightarrow> unit cmd" where
  "say_of f = then_do (ask f) say"

definition say_human :: "'j cli \<Rightarrow> config \<Rightarrow> unit cmd" where
  "say_human cl cfg = say_of (\<lambda>e. and_then (stats_json cl cfg False e) (\<lambda>j. Inr (human_text cl j)))"

definition run_stats :: "'j cli \<Rightarrow> answers \<Rightarrow> flags \<Rightarrow> config \<Rightarrow> disk \<Rightarrow> nat result \<times> string \<times> disk" where
  "run_stats cl su flags cfg = with_engine su cfg (
     then_do (open_engine cl su (flags ''json'' \<noteq> None)) (\<lambda>_.
     then_do
       (if flags ''json'' \<noteq> None then
          say_of (\<lambda>e. and_then (stats_json cl cfg False e) (\<lambda>j. Inr (cl_dump cl j @ newline)))
        else if flags ''full'' \<noteq> None then
          then_do (say_of (\<lambda>e. Inr (config_print (cl_show cl) (en_config e)))) (\<lambda>_.
          then_do (ask engine_wal_stats) (\<lambda>w.
          then_do (say (line_of [(''wal.active_segment='', decimal (ws_active_segment_id w))] @
             line_of [(''wal.fsync_every_n='', num (ucast (ws_fsync_every_n w)))] @
             line_of [(''wal.segment_roll_bytes='', num (ws_roll_bytes w))])) (\<lambda>_.
          then_do (ask engine_memtable_stats) (\<lambda>m.
          then_do (say_of (\<lambda>e. Inr (line_of [(''memtable.flush_requested='', num (ms_flush_requested m))] @
             line_of [(''sst.newest_id='', num (ss_newest_id (engine_sst_stats e)))]))) (\<lambda>_.
          then_do (say_of (\<lambda>e. Inr (read_stats_text cl e))) (\<lambda>_.
          say_human cl cfg))))))
        else say_human cl cfg)
     (\<lambda>_. then_do (close_engine cl su True) (\<lambda>_. ret 0))))"

end
