(* ===== verification/Cli_Workers.thy ===== *)
theory Cli_Workers
  imports Cli_Inspect
begin

text \<open>
  Commands with background workers (\<open>src/main.cpp\<close>): the rounds of the workers, a write that may have to
  wait for them, and the stress test, whose threads and the workers take turns in the order of an argument.
\<close>

section \<open>Workers\<close>

text \<open>A round of a worker; an exception that is no \<open>Error\<close> leaves the thread and ends the process.\<close>

definition worker_round :: "'j cli \<Rightarrow> bool \<times> engine_io \<Rightarrow> unit cmd" where
  "worker_round cl r = on_engine (\<lambda>e.
     case (if fst r then flush_worker_round (cl_cx cl) (snd r) e else compaction_worker_round (cl_cx cl) (snd r) e) of
       (Inl _, e1) \<Rightarrow> (Inl Undefined, e1) | (Inr _, e1) \<Rightarrow> (Inr (), e1))"

fun worker_rounds :: "'j cli \<Rightarrow> (bool \<times> engine_io) list \<Rightarrow> unit cmd" where
  "worker_rounds cl [] = ret ()"
| "worker_rounds cl (r # rs) = then_do (worker_round cl r) (\<lambda>_. worker_rounds cl rs)"

text \<open>A write of the session: if it has to wait, the workers go on until it can.  A schedule in which they
  never come back to it leaves the session waiting.\<close>

fun write_wait :: "'j cli \<Rightarrow> engine_io \<Rightarrow> bool \<Rightarrow> bytes \<Rightarrow> bytes \<Rightarrow> (bool \<times> engine_io) list \<Rightarrow> u64 cmd" where
  "write_wait cl io d key v [] = fail Undefined"
| "write_wait cl io d key v (r # rs) =
     then_do (worker_round cl r) (\<lambda>_.
     then_do (on_engine (\<lambda>e. case resume_write io d key v e of
         (None, e1) \<Rightarrow> (Inr None, e1) | (Some (Inl err), e1) \<Rightarrow> (Inl err, e1) | (Some (Inr n), e1) \<Rightarrow> (Inr (Some n), e1))) (\<lambda>res.
     case res of
       None \<Rightarrow> write_wait cl io d key v rs
     | Some n \<Rightarrow> then_do (worker_rounds cl rs) (\<lambda>_. ret n)))"

definition session_write :: "'j cli \<Rightarrow> engine_io \<Rightarrow> bool \<Rightarrow> bytes \<Rightarrow> bytes \<Rightarrow> (bool \<times> engine_io) list \<Rightarrow> u64 cmd" where
  "session_write cl io d key v rs =
     then_do (on_engine (\<lambda>e. case guarded_write io d key v e of
         (None, e1) \<Rightarrow> (Inr None, e1) | (Some (Inl err), e1) \<Rightarrow> (Inl err, e1) | (Some (Inr n), e1) \<Rightarrow> (Inr (Some n), e1))) (\<lambda>res.
     case res of
       None \<Rightarrow> write_wait cl io d key v rs
     | Some n \<Rightarrow> then_do (worker_rounds cl rs) (\<lambda>_. ret n))"

section \<open>The stress test\<close>

text \<open>A thread: how many operations it has done and the write it waits with; and the counters.\<close>

record hammer =
  hm_next :: nat
  hm_waiting :: "(bytes \<times> bytes) option"

record tally =
  ta_writes :: u64
  ta_reads :: u64
  ta_hits :: u64
  ta_errors :: u64

text \<open>What an operation came to: not yet over, a write, a read, an \<open>Error\<close>.\<close>

datatype outcome = Waits "bytes \<times> bytes" | Wrote_key | Read_key bool | Failed

definition count_outcome :: "outcome \<Rightarrow> tally \<Rightarrow> tally" where
  "count_outcome o1 t = (case o1 of
      Waits _ \<Rightarrow> t
    | Wrote_key \<Rightarrow> t\<lparr>ta_writes := ta_writes t + 1\<rparr>
    | Read_key hit \<Rightarrow> t\<lparr>ta_reads := ta_reads t + 1, ta_hits := (if hit then ta_hits t + 1 else ta_hits t)\<rparr>
    | Failed \<Rightarrow> t\<lparr>ta_errors := ta_errors t + 1\<rparr>)"

definition after_outcome :: "outcome \<Rightarrow> hammer \<Rightarrow> hammer" where
  "after_outcome o1 h = (case o1 of Waits kv \<Rightarrow> h\<lparr>hm_waiting := Some kv\<rparr>
     | _ \<Rightarrow> \<lparr>hm_next = hm_next h + 1, hm_waiting = None\<rparr>)"

text \<open>An \<open>Error\<close> is counted; any other exception ends the process.\<close>

definition write_outcome :: "bytes \<times> bytes \<Rightarrow> u64 result option \<Rightarrow> outcome result" where
  "write_outcome kv r = (case r of None \<Rightarrow> Inr (Waits kv) | Some (Inr _) \<Rightarrow> Inr Wrote_key
     | Some (Inl (Thrown _)) \<Rightarrow> Inr Failed | Some (Inl _) \<Rightarrow> Inl Undefined)"

definition read_outcome :: "bytes option result \<Rightarrow> outcome result" where
  "read_outcome r = (case r of Inr v \<Rightarrow> Inr (Read_key (v \<noteq> None)) | Inl (Thrown _) \<Rightarrow> Inr Failed | Inl _ \<Rightarrow> Inl Undefined)"

text \<open>One operation of thread \<open>t\<close>: its two random numbers choose the key and whether to read.\<close>

definition stress_key :: "'j cli \<Rightarrow> u64 \<Rightarrow> u64 \<Rightarrow> nat \<Rightarrow> nat \<Rightarrow> string" where
  "stress_key cl threads ops t i =
     ''s'' @ num (cl_random cl (of_nat t * 7919 + 17) (2 * i) mod (threads * ops div 4 + 1))"

definition stress_op :: "'j cli \<Rightarrow> u64 \<Rightarrow> u64 \<Rightarrow> u64 \<Rightarrow> nat \<Rightarrow> nat \<Rightarrow> engine_io \<Rightarrow> engine \<Rightarrow> outcome result \<times> engine" where
  "stress_op cl threads ops pct t i io e =
     (let key = bytes_of (stress_key cl threads ops t i) in
      if cl_random cl (of_nat t * 7919 + 17) (2 * i + 1) mod 100 < pct then
        (case get io key e of (r, e1, _) \<Rightarrow> (read_outcome r, e1))
      else
        let val = bytes_of (''stress-value-'' @ decimal i)
        in case put io key val e of (r, e1) \<Rightarrow> (write_outcome (key, val) r, e1))"

definition thread_turn :: "'j cli \<Rightarrow> u64 \<Rightarrow> u64 \<Rightarrow> u64 \<Rightarrow> nat \<Rightarrow> engine_io \<Rightarrow> hammer \<Rightarrow> engine \<Rightarrow> outcome result \<times> engine" where
  "thread_turn cl threads ops pct t io h e =
     (case hm_waiting h of
        Some kv \<Rightarrow> (case resume_write io False (fst kv) (snd kv) e of (r, e1) \<Rightarrow> (write_outcome kv r, e1))
      | None \<Rightarrow> stress_op cl threads ops pct t (hm_next h) io e)"

text \<open>The test up to \<open>join\<close>: a turn of a thread that has finished does nothing; when the turns end with a
  thread unfinished, the test has not returned.\<close>

definition hammers_done :: "u64 \<Rightarrow> hammer list \<Rightarrow> bool" where
  "hammers_done ops hs \<longleftrightarrow> list_all (\<lambda>h. hm_next h = unat ops) hs"

fun stress_turns :: "'j cli \<Rightarrow> u64 \<Rightarrow> u64 \<Rightarrow> u64 \<Rightarrow> turn list \<Rightarrow> hammer list \<Rightarrow> tally \<Rightarrow> tally cmd" where
  "stress_turns cl threads ops pct [] hs c = (if hammers_done ops hs then ret c else fail Undefined)"
| "stress_turns cl threads ops pct (Worker_turn f io # rest) hs c =
     then_do (worker_round cl (f, io)) (\<lambda>_. stress_turns cl threads ops pct rest hs c)"
| "stress_turns cl threads ops pct (Thread_turn t io # rest) hs c =
     (if t < length hs \<and> hm_next (hs ! t) < unat ops then
        then_do (on_engine (thread_turn cl threads ops pct t io (hs ! t))) (\<lambda>o1.
        stress_turns cl threads ops pct rest (hs[t := after_outcome o1 (hs ! t)]) (count_outcome o1 c))
      else stress_turns cl threads ops pct rest hs c)"

definition number_flag :: "flags \<Rightarrow> string \<Rightarrow> u64 \<Rightarrow> u64 result" where
  "number_flag flags name dflt = (case flag flags name of Some text \<Rightarrow> stoull text | None \<Rightarrow> Inr dflt)"

definition stress_text :: "u64 \<Rightarrow> u64 \<Rightarrow> u64 \<Rightarrow> tally \<Rightarrow> string" where
  "stress_text threads ops ms c = line_of [(''stress: threads='', num threads), ('' ops_per_thread='', num ops),
     ('' writes='', num (ta_writes c)), ('' reads='', num (ta_reads c)), ('' read_hits='', num (ta_hits c)),
     ('' errors='', num (ta_errors c)), ('' dur='', num ms),
     (''ms ops_per_sec='', num (if 0 < ms then (ta_writes c + ta_reads c) * 1000 div ms else 0))]"

definition run_stress :: "'j cli \<Rightarrow> answers \<Rightarrow> flags \<Rightarrow> config \<Rightarrow> disk \<Rightarrow> nat result \<times> string \<times> disk" where
  "run_stress cl su flags cfg d =
     (case and_then (number_flag flags ''threads'' 4) (\<lambda>threads.
           and_then (number_flag flags ''ops'' 2000) (\<lambda>ops.
           and_then (number_flag flags ''read-pct'' 50) (\<lambda>pct. Inr (threads, ops, pct)))) of
        Inl err \<Rightarrow> (Inl err, [], d)
      | Inr (threads, ops, pct) \<Rightarrow> with_engine su cfg (
          then_do (open_engine cl su False) (\<lambda>_.
          then_do (on_engine (\<lambda>e. (Inr (), start_background e))) (\<lambda>_.
          then_do (stress_turns cl threads ops pct (su_turns su)
            (replicate (unat threads) \<lparr>hm_next = 0, hm_waiting = None\<rparr>) \<lparr>ta_writes = 0, ta_reads = 0, ta_hits = 0, ta_errors = 0\<rparr>) (\<lambda>c.
          then_do (say (stress_text threads ops (su_elapsed_ms su) c)) (\<lambda>_.
          then_do (say_of (bg_status_text cl cfg False)) (\<lambda>_.
          then_do (close_engine cl su True) (\<lambda>_.
          then_do (say (line_of [(''closed '', tick), ('' (graceful)'', [])])) (\<lambda>_. ret 0)))))))) d)"

text \<open>Every operation is counted once.\<close>

lemma stress_counts:
  assumes "stress_turns cl threads ops pct turns hs c s = (Inr c', s')"
    and "ta_writes c + ta_reads c + ta_errors c = of_nat (sum_list (map hm_next hs))"
  shows "ta_writes c' + ta_reads c' + ta_errors c' = of_nat (length hs * unat ops)"
  using assms
proof (induction cl threads ops pct turns hs c arbitrary: s rule: stress_turns.induct)
  case (1 cl threads ops pct hs c)
  then have "hammers_done ops hs" "c' = c" by (auto simp: ret_def fail_def split: if_splits)
  moreover from this have "sum_list (map hm_next hs) = length hs * unat ops"
    by (induction hs) (auto simp: hammers_done_def)
  ultimately show ?case using 1(2) by simp
next
  case (2 cl threads ops pct f io rest hs c)
  then show ?case by (auto simp: then_do_def bind_st_Inr_iff)
next
  case (3 cl threads ops pct t io rest hs c)
  show ?case
  proof (cases "t < length hs \<and> hm_next (hs ! t) < unat ops")
    case False
    then show ?thesis using 3(2) [OF False _ 3(4)] 3(3) by (simp only: stress_turns.simps if_False)
  next
    case True
    then obtain o1 s1 where r: "stress_turns cl threads ops pct rest (hs[t := after_outcome o1 (hs ! t)]) (count_outcome o1 c) s1 = (Inr c', s')"
      using 3(3) by (auto simp: then_do_def bind_st_Inr_iff)
    have le: "hm_next (hs ! t) \<le> sum_list (map hm_next hs)" using True member_le_sum_list [of "hm_next (hs ! t)" "map hm_next hs"] by simp
    let ?hs = "hs[t := after_outcome o1 (hs ! t)]"
    have sum: "sum_list (map hm_next ?hs) = sum_list (map hm_next hs) + (case o1 of Waits _ \<Rightarrow> 0 | _ \<Rightarrow> 1)"
      using True le by (simp add: map_update sum_list_update after_outcome_def split: outcome.split)
    have "ta_writes (count_outcome o1 c) + ta_reads (count_outcome o1 c) + ta_errors (count_outcome o1 c) =
        of_nat (sum_list (map hm_next ?hs))"
      using 3(4) unfolding sum by (cases o1) (simp_all add: count_outcome_def algebra_simps)
    from 3(1) [OF True r this] show ?thesis by simp
  qed
qed

end
