(* ===== verification/Cli_Doctor.thy ===== *)
theory Cli_Doctor
  imports Cli_Inspect
begin

text \<open>
  The support bundle of \<open>doctor\<close> (\<open>run_doctor\<close> in \<open>src/main.cpp\<close>): the files it writes beside the store,
  their size cap, and what it says of them.  \<open>std::isdigit\<close> keeps the digits of the time stamp;
  the archiver is an answer of the operating system.
\<close>

definition stamp_of :: "string \<Rightarrow> string" where
  "stamp_of ts = (let ds = filter is_digit ts in take 8 ds @ ''-'' @ take 4 (drop 8 ds))"

definition bundle_name :: "string \<Rightarrow> string" where
  "bundle_name ts = ''lsmkv-support-'' @ stamp_of ts"

definition zip_path :: "flags \<Rightarrow> string \<Rightarrow> string" where
  "zip_path flags ts = (case flag flags ''bundle'' of Some p \<Rightarrow> p | None \<Rightarrow> bundle_name ts @ ''.zip'')"

text \<open>\<open>path::parent_path\<close> of a path without doubled separators.\<close>

definition parent_path :: "string \<Rightarrow> string" where
  "parent_path p =
     (let r = dropWhile (\<lambda>c. c \<noteq> CHR ''/'') (rev p) in if length r \<le> 1 then rev r else rev (tl r))"

definition bundle_dir :: "flags \<Rightarrow> string \<Rightarrow> string" where
  "bundle_dir flags ts =
     (let p = parent_path (zip_path flags ts) in if p = [] then bundle_name ts else path_join p (bundle_name ts))"

text \<open>The listings, and the last 64 KiB of the segment with the greatest name.\<close>

definition listing :: "(string \<times> nat) list \<Rightarrow> string" where
  "listing entries = concat (map (\<lambda>(name, n). line_of [(name, []), ('' size='', decimal n)]) entries)"

definition sst_sizes :: "engine \<Rightarrow> (string \<times> nat) list" where
  "sst_sizes e = map (\<lambda>(name, bs). (name, length bs)) (en_sst e)"

definition wal_files :: "engine \<Rightarrow> wal_dir" where
  "wal_files e = dk_wal (disk_of e)"

definition wal_sizes :: "engine \<Rightarrow> (string \<times> nat) list" where
  "wal_sizes e = map (\<lambda>(i, f). (segment_name (of_nat i), length (sf_content f))) (wal_files e)"

definition newest_wal :: "wal_dir \<Rightarrow> (string \<times> bytes) option" where
  "newest_wal dir = fold (\<lambda>(i, f) best. let name = segment_name (of_nat i) in
     case best of
       None \<Rightarrow> Some (name, sf_content f)
     | Some (b, _) \<Rightarrow> if bytes_of b < bytes_of name then Some (name, sf_content f) else best) dir None"

definition tail_limit :: nat where
  "tail_limit = 64 * 1024"

definition wal_tail :: "bytes \<Rightarrow> bytes" where
  "wal_tail bs = drop (length bs - min (length bs) tail_limit) bs"

definition env_text :: "string \<Rightarrow> string" where
  "env_text ts = line_of [(''executable=lsmkv (Phase A, Section 8)'', [])] @ line_of [(''built_standard=C++23'', [])] @
     line_of [(''os='', ''posix'')] @ line_of [(''captured_at='', ts)] @
     line_of [(''note=logs go to stderr; capture with 2>file'', [])]"

text \<open>The files in the order they are written; each replaces one of its name.\<close>

definition bundle_files :: "'j cli \<Rightarrow> config \<Rightarrow> support \<Rightarrow> string \<Rightarrow> engine \<Rightarrow> (string \<times> string) list result" where
  "bundle_files cl cfg sp ts e =
     and_then (stats_json cl cfg False e) (\<lambda>j.
     and_then (bg_status_text cl cfg False e) (\<lambda>bg.
     Inr ([(''config_active.txt'', config_print (cl_show cl) (en_config e))] @
       (case en_manifest_file e of Some t \<Rightarrow> [(''manifest.json'', text_of t)] | None \<Rightarrow> []) @
       [(''sst_listing.txt'', listing (sp_listed sp (sst_sizes e))),
        (''wal_listing.txt'', listing (sp_listed sp (wal_sizes e)))] @
       (case newest_wal (wal_files e) of Some (_, bs) \<Rightarrow> [(''wal_active_tail.bin'', text_of (wal_tail bs))] | None \<Rightarrow> []) @
       [(''stats.json'', cl_dump cl j @ newline),
        (''stats_and_bg_status.txt'', human_text cl j @ bg),
        (''env.txt'', env_text ts)])))"

definition write_bundle :: "(string \<times> string) list \<Rightarrow> (string, string) std_map \<Rightarrow> (string, string) std_map" where
  "write_bundle fs dir = fold (\<lambda>(name, content). map_assign name content) fs dir"

text \<open>Over the cap the tail of the log goes.\<close>

definition cap_bundle :: "config \<Rightarrow> (string, string) std_map \<Rightarrow> (string, string) std_map" where
  "cap_bundle cfg dir =
     (if unat (ucast (doctor_bundle_max_mb cfg) * 1024 * 1024 :: u64) < sum_list (map (length \<circ> snd) dir)
      then map_erase ''wal_active_tail.bin'' dir else dir)"

text \<open>The command, with the directory it fills.\<close>

definition support_bundle :: "'j cli \<Rightarrow> answers \<Rightarrow> flags \<Rightarrow> config \<Rightarrow> disk \<Rightarrow> (string, string) std_map result \<times> string \<times> disk" where
  "support_bundle cl su flags cfg =
     (let sp = su_support su; ts = ts_rfc3339 (sp_now sp) in
      with_engine su cfg (
        then_do (open_engine cl su False) (\<lambda>_.
        then_do (lift_result (if sp_mkdir sp then Inr () else Inl Escaped)) (\<lambda>_.
        then_do (ask (bundle_files cl cfg sp ts)) (\<lambda>fs.
        then_do (close_engine cl su True) (\<lambda>_.
        then_do (say (case sp_zip sp of
            Some n \<Rightarrow> line_of [(''support bundle written: '', zip_path flags ts), ('' ('', decimal n), ('' bytes)'', [])]
          | None \<Rightarrow> line_of [(''zip unavailable; bundle left as directory: '', bundle_dir flags ts)])) (\<lambda>_.
        ret (cap_bundle cfg (write_bundle fs (sp_before sp))))))))))"

definition run_doctor :: "'j cli \<Rightarrow> answers \<Rightarrow> flags \<Rightarrow> config \<Rightarrow> disk \<Rightarrow> nat result \<times> string \<times> disk" where
  "run_doctor cl su flags cfg d =
     (case support_bundle cl su flags cfg d of (r, out, d1) \<Rightarrow> (and_then r (\<lambda>_. Inr 0), out, d1))"

text \<open>The bundle takes no more than 64 KiB of the log, its end.\<close>

lemma wal_tail_bounded: "length (wal_tail bs) \<le> tail_limit" "\<exists>pre. bs = pre @ wal_tail bs"
proof -
  show "length (wal_tail bs) \<le> tail_limit" by (simp add: wal_tail_def)
  show "\<exists>pre. bs = pre @ wal_tail bs" unfolding wal_tail_def by (metis append_take_drop_id)
qed

end
