(* ===== verification/Cli_Main.thy ===== *)
theory Cli_Main
  imports Cli_Workers Cli_Doctor
begin

text \<open>
  The other commands of \<open>src/main.cpp\<close>, the interactive session, and \<open>main\<close>: the
  choice of the command, the exit status and what goes to standard error.
\<close>

section \<open>Files\<close>

definition find_segment :: "string \<Rightarrow> wal_dir \<Rightarrow> nat option" where
  "find_segment name dir = map_option fst (find (\<lambda>(i, _). segment_name (of_nat i) = name) dir)"

text \<open>\<open>fs::resize_file\<close> to a smaller size.\<close>

definition cut_file :: "nat \<Rightarrow> seg_file \<Rightarrow> seg_file" where
  "cut_file n f = \<lparr>sf_synced = take n (sf_synced f), sf_pending = take (n - length (sf_synced f)) (sf_pending f)\<rparr>"

text \<open>The segment is named by its file name; a path that leads out of the log's directory, which the code
  would follow, is taken to name nothing.\<close>

definition run_wal_truncate :: "answers \<Rightarrow> flags \<Rightarrow> disk \<Rightarrow> nat result \<times> string \<times> disk" where
  "run_wal_truncate su flags d =
     (case and_then (require_flag flags ''segment'') (\<lambda>segment.
           and_then (require_flag flags ''offset'') (\<lambda>offset_text.
           and_then (case stoull offset_text of Inl _ \<Rightarrow> Inl (Thrown InvalidArgument) | Inr n \<Rightarrow> Inr n) (\<lambda>offset.
           case find_segment segment (dk_wal d) of
             None \<Rightarrow> Inl (Thrown InvalidArgument)
           | Some i \<Rightarrow>
               let content = sf_content (file_of i (dk_wal d)) in
               if unat offset > length content then Inl (Thrown InvalidArgument)
               else if \<not> su_resize su then Inl Escaped
               else Inr (segment, i, unat offset, content)))) of
        Inl err \<Rightarrow> (Inl err, [], d)
      | Inr (segment, i, offset, content) \<Rightarrow>
          (Inr 0, line_of [(''truncated '', segment), ('' from '', decimal (length content)),
             ('' to '', decimal offset), ('' bytes'', [])],
           d\<lparr>dk_wal := map_assign i (cut_file offset (file_of i (dk_wal d))) (dk_wal d)\<rparr>))"

text \<open>A file named without a directory is in the directory of the tables.\<close>

definition table_path :: "'j surroundings \<Rightarrow> disk \<Rightarrow> string \<Rightarrow> bytes option" where
  "table_path sr d file = (if CHR ''/'' \<in> set file then sr_file sr file else map_find (dk_sst d) file)"

definition base_name :: "string \<Rightarrow> string" where
  "base_name path = rev (takeWhile (\<lambda>c. c \<noteq> CHR ''/'') (rev path))"

definition verdict_text :: "verdict \<Rightarrow> string" where
  "verdict_text v = (case v of
      OK \<Rightarrow> ''OK''
    | TooSmall \<Rightarrow> ''file too small for footer''
    | BadMagic \<Rightarrow> ''bad footer magic''
    | UnsupportedVersion \<Rightarrow> ''unsupported version''
    | OffsetsOutOfRange \<Rightarrow> ''footer offsets out of range''
    | CannotReadIndex \<Rightarrow> ''cannot read index block''
    | IndexChecksum \<Rightarrow> ''index block checksum mismatch''
    | CannotReadFilter \<Rightarrow> ''cannot read filter block''
    | FilterChecksum \<Rightarrow> ''filter block checksum mismatch''
    | TruncatedIndex \<Rightarrow> ''truncated index entry''
    | DataOffset n \<Rightarrow> ''data block offset out of range at file offset '' @ num n
    | CannotReadData n \<Rightarrow> ''cannot read data block at offset '' @ num n
    | DataChecksum n \<Rightarrow> ''data block checksum mismatch at offset '' @ num n)"

definition run_verify_sst :: "'j cli \<Rightarrow> flags \<Rightarrow> disk \<Rightarrow> nat result \<times> string \<times> disk" where
  "run_verify_sst cl flags d =
     (case require_flag flags ''file'' of
        Inl err \<Rightarrow> (Inl err, [], d)
      | Inr file \<Rightarrow>
          (case table_path (cl_sr cl) d file of
             None \<Rightarrow> (Inr 1, line_of [(base_name file, '': ''), (''cannot open file'', [])], d)
           | Some bs \<Rightarrow>
               (case verify_sstable bs of
                  Inl err \<Rightarrow> (Inl err, [], d)
                | Inr v \<Rightarrow> (Inr (if v = OK then 0 else 1), line_of [(base_name file, '': ''), (verdict_text v, [])], d))))"

definition per :: "u64 \<Rightarrow> u64 \<Rightarrow> rat" where
  "per a b = (if b = 0 then 0 else of_nat (unat a) / of_nat (unat b))"

definition block_avg :: "sst_info \<Rightarrow> rat" where
  "block_avg i = per (sum_list (map (\<lambda>e. ucast (ie_size e)) (si_index i))) (si_data_blocks i)"

definition run_sst_info :: "'j cli \<Rightarrow> flags \<Rightarrow> disk \<Rightarrow> nat result \<times> string \<times> disk" where
  "run_sst_info cl flags d =
     (case require_flag flags ''file'' of
        Inl err \<Rightarrow> (Inl err, [], d)
      | Inr file \<Rightarrow>
          (case (case table_path (cl_sr cl) d file of None \<Rightarrow> Inl (Thrown IOFailure) | Some bs \<Rightarrow> inspect_sstable bs) of
             Inl err \<Rightarrow> (Inl err, [], d)
           | Inr i \<Rightarrow>
               let ft = si_footer i in
               (Inr 0,
                line_of [(base_name file, '':'')] @
                line_of [(''  file_size='', num (si_file_size i)), ('' version='', num (ucast (fo_version ft)))] @
                line_of [(''  index: offset='', num (fo_index_off ft)), ('' size='', num (fo_index_size ft)),
                  ('' entries='', num (si_data_blocks i))] @
                line_of [(''  blocks: count='', num (si_data_blocks i)), ('' min='', num (ucast (si_block_min i))),
                  ('' avg='', cl_show cl (block_avg i)), ('' max='', num (ucast (si_block_max i)))] @
                line_of [(''  bloom: offset='', num (fo_filter_off ft)), ('' size='', num (fo_filter_size ft)),
                  ('' bits='', num (si_bloom_bits i)), ('' k='', num (ucast (si_bloom_hashes i))),
                  ('' keys='', num (si_bloom_keys i)), ('' bits_per_key='', cl_show cl (per (si_bloom_bits i) (si_bloom_keys i)))],
                d)))"

section \<open>Listings\<close>

definition keys_text :: "table_meta \<Rightarrow> string" where
  "keys_text t = joined [('' keys=['', text_of (tm_min_key t)), (''..'', text_of (tm_max_key t)), ('']'', [])]"

definition seqno_text :: "u64 \<Rightarrow> u64 \<Rightarrow> string" where
  "seqno_text a b = joined [('' seqno=['', num a), (''..'', num b), ('']'', [])]"

definition flush_text :: "sst_build_result list \<Rightarrow> string" where
  "flush_text rs =
     (if rs = [] then line_of [(''nothing to flush (no immutable memtables)'', [])] else []) @
     concat (map (\<lambda>r. line_of [(''flushed '', br_file_name r), ('' bytes='', num (br_file_size r)),
       ('' entries='', num (br_entries r)), (seqno_text (br_min_seqno r) (br_max_seqno r), [])]) rs)"

definition manifest_text :: "nat \<Rightarrow> engine \<Rightarrow> string" where
  "manifest_text mtime e =
     (let m = en_manifest e in
      line_of ([(''manifest: epoch='', num (mf_epoch m)), ('' tables='', decimal (length (mf_tables m))),
        ('' next_sst_id='', num (mf_next_sst_id m)), ('' total_bytes='', num (total_bytes m))] @
        (case en_manifest_file e of
           Some t \<Rightarrow> [('' json_bytes='', decimal (length t)), ('' last_modified='', ts_rfc3339 mtime)]
         | None \<Rightarrow> [])) @
      concat (map (\<lambda>t. line_of [(''  '', tm_file_name t), ('' size='', num (tm_file_size t)),
        (keys_text t, seqno_text (tm_min_seqno t) (tm_max_seqno t))]) (mf_tables m)))"

definition version_text :: "engine \<Rightarrow> string result" where
  "version_text e =
     and_then (current_version e) (\<lambda>v.
     Inr (line_of [(''version: id='', num (ve_id v)), ('' epoch='', num (ve_epoch v)),
            ('' active_bytes='', num (mt_bytes (en_mem e (ve_active v)))),
            ('' immutables='', decimal (length (ve_immutables v))), ('' sstables='', decimal (length (ve_tables v)))] @
          concat (map (\<lambda>(i, a). line_of [(''  immutable['', decimal i), (''] entries='', num (memtable_entries (en_mem e a))),
            ('' bytes='', num (mt_bytes (en_mem e a)))]) (zip [0..<length (ve_immutables v)] (ve_immutables v))) @
          concat (map (\<lambda>i. let t = rd_meta (en_reader e i) in
            line_of [(''  sst '', tm_file_name t), (seqno_text (tm_min_seqno t) (tm_max_seqno t), [])]) (ve_tables v))))"

definition list_text :: "'j cli \<Rightarrow> table_meta list \<Rightarrow> string" where
  "list_text cl ts =
     (if ts = [] then line_of [(''no live SSTables'', [])] else []) @
     concat (map (\<lambda>t. line_of [(tm_file_name t, []), ('' size='', num (tm_file_size t)), ('' entries='', num (tm_entries t)),
       (keys_text t, seqno_text (tm_min_seqno t) (tm_max_seqno t)),
       ('' bloom='', cl_show cl (tm_bloom_bits_per_key t)), (''bits/key,k='', num (ucast (tm_bloom_hashes t))),
       ('' created='', tm_created_at t)]) ts)"

fun separated :: "string list \<Rightarrow> string list" where
  "separated [] = []"
| "separated [x] = [x]"
| "separated (x # y # zs) = x # '','' # separated (y # zs)"

definition compaction_stats_text :: "'j cli \<Rightarrow> config \<Rightarrow> engine \<Rightarrow> string" where
  "compaction_stats_text cl cfg e =
     (let state = load_compaction_state (cx_jobs (cl_cx cl)) (en_jobs_file e);
          tables = mf_tables (en_manifest e)
      in line_of [(''compaction: paused='', yes_no (en_paused e)), ('' running=0 tables='', decimal (length tables)),
           ('' backlog_bytes='', num (backlog cl cfg e))] @
         (case pick_compaction (cx_similar (cl_cx cl)) tables cfg of
            Some p \<Rightarrow> line_of [(''next pick: ['', concat (separated (map num (pk_ids p)))), (''] reason='', pk_reason p)]
          | None \<Rightarrow> []) @
         (case cs_last_job state of
            Some job \<Rightarrow> line_of [(''last job ('', cs_last_job_finished_at state), (''): '', format_job_line (cl_percent cl) job)]
          | None \<Rightarrow> line_of [(''last job: none'', [])]))"

section \<open>Commands over an engine\<close>

text \<open>Open, do, close.\<close>

definition over_engine :: "'j cli \<Rightarrow> answers \<Rightarrow> config \<Rightarrow> nat cmd \<Rightarrow> disk \<Rightarrow> nat result \<times> string \<times> disk" where
  "over_engine cl su cfg body = with_engine su cfg (
     then_do (open_engine cl su False) (\<lambda>_.
     then_do body (\<lambda>status.
     then_do (close_engine cl su True) (\<lambda>_. ret status))))"

definition run_init :: "'j cli \<Rightarrow> answers \<Rightarrow> config \<Rightarrow> disk \<Rightarrow> nat result \<times> string \<times> disk" where
  "run_init cl su cfg = with_engine su cfg (
     then_do (open_engine cl su False) (\<lambda>_.
     then_do (close_engine cl su True) (\<lambda>_.
     then_do (say (line_of [(''config loaded '', tick), ('', data dir ready '', tick), ('', wal dir ready '', tick),
       ('', manifest placeholder '', tick)])) (\<lambda>_.
     then_do (say (config_print (cl_show cl) cfg)) (\<lambda>_. ret 0)))))"

definition run_close :: "'j cli \<Rightarrow> answers \<Rightarrow> config \<Rightarrow> disk \<Rightarrow> nat result \<times> string \<times> disk" where
  "run_close cl su cfg = with_engine su cfg (
     then_do (open_engine cl su False) (\<lambda>_.
     then_do (close_engine cl su True) (\<lambda>_.
     then_do (say (line_of [(''closed '', tick), ('' (wal synced)'', [])])) (\<lambda>_. ret 0))))"

definition run_flush_now :: "'j cli \<Rightarrow> answers \<Rightarrow> config \<Rightarrow> disk \<Rightarrow> nat result \<times> string \<times> disk" where
  "run_flush_now cl su cfg = over_engine cl su cfg (
     then_do (on_engine (flush_pending (cl_cx cl) (su_flush su) (su_compact su))) (\<lambda>rs.
     then_do (say (flush_text rs)) (\<lambda>_. ret 0)))"

definition show_only :: "'j cli \<Rightarrow> answers \<Rightarrow> config \<Rightarrow> (engine \<Rightarrow> string result) \<Rightarrow> disk \<Rightarrow> nat result \<times> string \<times> disk" where
  "show_only cl su cfg f = over_engine cl su cfg (then_do (say_of f) (\<lambda>_. ret 0))"

text \<open>\<open>std::getline\<close> with a separator: no line after the last separator.\<close>

function getlines :: "char \<Rightarrow> string \<Rightarrow> string list" where
  "getlines c s =
     (if s = [] then [] else takeWhile (\<lambda>x. x \<noteq> c) s # getlines c (tl (dropWhile (\<lambda>x. x \<noteq> c) s)))"
  by auto
termination
proof (relation "measure (\<lambda>(_, s). length s)")
  fix c :: char and s :: string
  assume "s \<noteq> []"
  have "length (tl (dropWhile (\<lambda>x. x \<noteq> c) s)) < length s"
    using \<open>s \<noteq> []\<close> length_dropWhile_le [of "\<lambda>x. x \<noteq> c" s]
    by (cases "dropWhile (\<lambda>x. x \<noteq> c) s") (auto simp del: dropWhile_eq_Nil_conv)
  then show "((c, tl (dropWhile (\<lambda>x. x \<noteq> c) s)), c, s) \<in> measure (\<lambda>(_, s). length s)" by simp
qed simp

declare getlines.simps [simp del]

definition strip_sst :: "string \<Rightarrow> string" where
  "strip_sst tok = (if length tok > 4 \<and> drop (length tok - 4) tok = ''.sst'' then take (length tok - 4) tok else tok)"

fun parse_ids :: "string list \<Rightarrow> u64 list result" where
  "parse_ids [] = Inr []"
| "parse_ids (tok # rest) = and_then (stoull (strip_sst tok)) (\<lambda>n. and_then (parse_ids rest) (\<lambda>ns. Inr (n # ns)))"

definition run_compaction_run :: "'j cli \<Rightarrow> answers \<Rightarrow> flags \<Rightarrow> config \<Rightarrow> disk \<Rightarrow> nat result \<times> string \<times> disk" where
  "run_compaction_run cl su flags cfg = over_engine cl su cfg (
     then_do (ask (\<lambda>e. Inr (en_paused e))) (\<lambda>paused.
     if paused then
       then_do (say (line_of [(''compaction is paused (data/compaction.paused); run compaction-resume first'', [])])) (\<lambda>_. ret 1)
     else
       then_do (lift_result (case flag flags ''files'' of
           None \<Rightarrow> Inr None
         | Some text \<Rightarrow> and_then (parse_ids (getlines CHR '','' text)) (\<lambda>ids. Inr (Some ids)))) (\<lambda>ids.
       then_do (on_engine (run_compaction (cl_cx cl) (su_op su 0) ids)) (\<lambda>job.
       then_do (if job = None then say (line_of [(''no compaction set available (need >= '', num (ucast (size_tiered_fan_in cfg))),
           ('' tables)'', [])]) else ret ()) (\<lambda>_. ret 0)))))"

definition run_pause :: "'j cli \<Rightarrow> answers \<Rightarrow> bool \<Rightarrow> config \<Rightarrow> disk \<Rightarrow> nat result \<times> string \<times> disk" where
  "run_pause cl su pause cfg = over_engine cl su cfg (
     then_do (on_engine (\<lambda>e. (Inr (), set_compaction_paused (su_op su 0) pause e))) (\<lambda>_.
     then_do (say (line_of [(if pause then ''compaction paused'' else ''compaction resumed'', [])])) (\<lambda>_. ret 0)))"

section \<open>The interactive session\<close>

text \<open>\<open>is >> cmd >> a >> b\<close>.\<close>

function words :: "string \<Rightarrow> string list" where
  "words s = (let t = dropWhile is_blank s in
     if t = [] then [] else takeWhile (\<lambda>c. \<not> is_blank c) t # words (dropWhile (\<lambda>c. \<not> is_blank c) t))"
  by auto
termination
proof (relation "measure length")
  fix s t :: string
  assume t: "t = dropWhile is_blank s" "t \<noteq> []"
  then have "\<not> is_blank (hd t)" by (simp add: hd_dropWhile)
  then have "length (dropWhile (\<lambda>c. \<not> is_blank c) t) < length t"
    using t(2) by (cases t) (auto simp: length_dropWhile_le le_imp_less_Suc)
  also have "\<dots> \<le> length s" using t(1) by (simp add: length_dropWhile_le)
  finally show "(dropWhile (\<lambda>c. \<not> is_blank c) t, s) \<in> measure length" by simp
qed simp

declare words.simps [simp del]

definition word :: "nat \<Rightarrow> string list \<Rightarrow> string" where
  "word i ws = (if i < length ws then ws ! i else [])"

definition repl_command :: "'j cli \<Rightarrow> answers \<Rightarrow> config \<Rightarrow> nat \<Rightarrow> string \<Rightarrow> string \<Rightarrow> string \<Rightarrow> (bool \<times> engine_io) list \<Rightarrow> unit cmd" where
  "repl_command cl su cfg i cmd a b rs =
     (let io = su_op su i; after = (\<lambda>c. then_do c (\<lambda>_. worker_rounds cl rs)) in
      if cmd = ''put'' then
        then_do (session_write cl io False (bytes_of a) (bytes_of b) rs) (\<lambda>n. say (line_of [(''ok seqno='', num n)]))
      else if cmd = ''del'' then
        then_do (session_write cl io True (bytes_of a) [] rs) (\<lambda>n. say (line_of [(''ok seqno='', num n)]))
      else if cmd = ''get'' then
        after (then_do (read_key cl su i (bytes_of a)) (\<lambda>(v, _). say (value_text v @ newline)))
      else if cmd = ''stats'' then
        after (then_do (ask engine_memtable_stats) (\<lambda>m.
          say_of (\<lambda>e. and_then (current_version e) (\<lambda>v.
            Inr (line_of [(''active_bytes='', num (ms_active_bytes m)), ('' immutables='', decimal (ms_immutables_count m)),
              ('' sst_count='', decimal (ss_sst_count (engine_sst_stats e))), ('' version='', num (ve_id v))])))))
      else if cmd = ''bg-status'' then after (say_of (bg_status_text cl cfg False))
      else if cmd = ''flush'' then
        after (then_do (on_engine (flush_pending (cl_cx cl) (su_flush su) (su_compact su))) (\<lambda>results.
          say (concat (map (\<lambda>r. line_of [(''flushed '', br_file_name r)]) results))))
      else if cmd = ''compact'' then
        after (then_do (on_engine (run_compaction (cl_cx cl) io None)) (\<lambda>job.
          if job = None then say (line_of [(''no compaction set available'', [])]) else ret ()))
      else if cmd = ''pause'' then after (on_engine (\<lambda>e. (Inr (), set_compaction_paused io True e)))
      else if cmd = ''resume'' then after (on_engine (\<lambda>e. (Inr (), set_compaction_paused io False e)))
      else after (say (line_of [(''unknown repl command: '', cmd)])))"

text \<open>An \<open>Error\<close> is counted and printed, and the session goes on.\<close>

definition caught :: "'j cli \<Rightarrow> unit cmd \<Rightarrow> unit cmd" where
  "caught cl c s = (case c s of
     (Inl (Thrown code), s1) \<Rightarrow>
       say (line_of [(''['', error_to_string code), (''] '', cl_what cl code)]) (s1\<lparr>se_log := count_error code (se_log s1)\<rparr>)
   | p \<Rightarrow> p)"

text \<open>The loop; its result is whether the shutdown is graceful.  Each line comes with the rounds the workers
  make while it is carried out.\<close>

fun repl :: "'j cli \<Rightarrow> answers \<Rightarrow> config \<Rightarrow> nat \<Rightarrow> (string \<times> (bool \<times> engine_io) list) list \<Rightarrow> bool cmd" where
  "repl cl su cfg i [] = ret True"
| "repl cl su cfg i ((line, rs) # rest) =
     (let ws = words line; cmd = word 0 ws in
      if cmd = [] then repl cl su cfg (i + 1) rest
      else if cmd = ''quit'' \<or> cmd = ''exit'' then ret (word 1 ws \<noteq> ''--fast'')
      else then_do (caught cl (repl_command cl su cfg i cmd (word 1 ws) (word 2 ws) rs)) (\<lambda>_. repl cl su cfg (i + 1) rest))"

definition run_repl :: "'j cli \<Rightarrow> answers \<Rightarrow> config \<Rightarrow> bool \<Rightarrow> disk \<Rightarrow> nat result \<times> string \<times> disk" where
  "run_repl cl su cfg with_http = with_engine su cfg (
     then_do (open_engine cl su False) (\<lambda>_.
     then_do (on_engine (\<lambda>e. (Inr (), start_background e))) (\<lambda>_.
     then_do (if with_http then
         then_do (lift_result (http_start (su_net su) (http_listen_addr cfg))) (\<lambda>_.
         say (line_of [(''http listening on '', http_listen_addr cfg), ('' (/healthz /readyz /metrics /stats)'', [])]))
       else ret ()) (\<lambda>_.
     then_do (say (line_of [(''repl ready (put K V | get K | del K | stats | bg-status | flush | compact | pause | resume | quit [--fast])'', [])])) (\<lambda>_.
     then_do (repl cl su cfg 0 (su_lines su)) (\<lambda>graceful.
     then_do (say (line_of [(if graceful then ''shutting down (graceful)...'' else ''shutting down (fast)...'', [])])) (\<lambda>_.
     then_do (close_engine cl su graceful) (\<lambda>_.
     then_do (say (line_of [(''closed '', tick)])) (\<lambda>_. ret 0)))))))))"

definition run_shutdown :: "'j cli \<Rightarrow> answers \<Rightarrow> flags \<Rightarrow> config \<Rightarrow> disk \<Rightarrow> nat result \<times> string \<times> disk" where
  "run_shutdown cl su flags cfg =
     (let fast = (flags ''fast'' \<noteq> None) in
      with_engine su cfg (
        then_do (open_engine cl su False) (\<lambda>_.
        then_do (on_engine (\<lambda>e. (Inr (), start_background e))) (\<lambda>_.
        then_do (worker_rounds cl (su_rounds su)) (\<lambda>_.
        then_do (close_engine cl su (\<not> fast)) (\<lambda>_.
        then_do (say (line_of [(''closed '', tick), ('' ('', if fast then ''fast'' else ''graceful''), ('')'', [])])) (\<lambda>_. ret 0)))))))"

section \<open>main\<close>

definition run_command :: "'j cli \<Rightarrow> answers \<Rightarrow> string \<Rightarrow> flags \<Rightarrow> config \<Rightarrow> disk \<Rightarrow> (nat result \<times> string \<times> disk) option" where
  "run_command cl su cmd flags cfg d =
     (if cmd = ''init'' then Some (run_init cl su cfg d)
      else if cmd = ''put'' \<or> cmd = ''get'' \<or> cmd = ''del'' then Some (run_mutation cl su cmd flags cfg d)
      else if cmd = ''probe'' then Some (run_probe cl su flags cfg d)
      else if cmd = ''stats'' then Some (run_stats cl su flags cfg d)
      else if cmd = ''close'' then Some (run_close cl su cfg d)
      else if cmd = ''flush-now'' then Some (run_flush_now cl su cfg d)
      else if cmd = ''manifest-info'' then Some (show_only cl su cfg (\<lambda>e. Inr (manifest_text (su_mtime su) e)) d)
      else if cmd = ''version-info'' then Some (show_only cl su cfg version_text d)
      else if cmd = ''list-sst'' then Some (show_only cl su cfg (\<lambda>e. Inr (list_text cl (mf_tables (en_manifest e)))) d)
      else if cmd = ''verify-sst'' then Some (run_verify_sst cl flags d)
      else if cmd = ''sst-info'' then Some (run_sst_info cl flags d)
      else if cmd = ''compaction-run'' then Some (run_compaction_run cl su flags cfg d)
      else if cmd = ''compaction-stats'' then Some (show_only cl su cfg (\<lambda>e. Inr (compaction_stats_text cl cfg e)) d)
      else if cmd = ''compaction-pause'' \<or> cmd = ''compaction-resume'' then Some (run_pause cl su (cmd = ''compaction-pause'') cfg d)
      else if cmd = ''repl'' \<or> cmd = ''serve'' then
        Some (run_repl cl su (case flag flags ''addr'' of Some a \<Rightarrow> cfg\<lparr>http_listen_addr := a\<rparr> | None \<Rightarrow> cfg) (cmd = ''serve'') d)
      else if cmd = ''doctor'' then Some (run_doctor cl su flags cfg d)
      else if cmd = ''stress'' then Some (run_stress cl su flags cfg d)
      else if cmd = ''bg-status'' then Some (show_only cl su cfg (bg_status_text cl cfg False) d)
      else if cmd = ''shutdown'' then Some (run_shutdown cl su flags cfg d)
      else if cmd = ''wal-verify'' then Some (Inr 0, report_text (wal_verify (dk_wal d)), d)
      else if cmd = ''wal-truncate'' then Some (run_wal_truncate su flags d)
      else if cmd = ''-h'' \<or> cmd = ''--help'' \<or> cmd = ''help'' then Some (Inr 0, usage, d)
      else None)"

text \<open>The exit status; \<open>None\<close> when the process does not return from \<open>main\<close>.\<close>

definition exit_status :: "nat result \<Rightarrow> nat option" where
  "exit_status r = (case r of
      Inr n \<Rightarrow> Some n
    | Inl (Thrown code) \<Rightarrow> Some (if code = InvalidArgument then 2 else 1)
    | Inl Escaped \<Rightarrow> Some 1
    | Inl Undefined \<Rightarrow> None)"

definition main :: "'j cli \<Rightarrow> answers \<Rightarrow> string list \<Rightarrow> disk \<Rightarrow> nat option \<times> string \<times> disk" where
  "main cl su args d =
     (case args of
        [] \<Rightarrow> (Some 2, [], d)
      | cmd # rest \<Rightarrow>
          let flags = parse_flags rest Map.empty in
          (case load_config (cl_sr cl) flags of
             Inl err \<Rightarrow> (exit_status (Inl err), [], d)
           | Inr cfg \<Rightarrow>
               (case run_command cl su cmd flags cfg d of
                  None \<Rightarrow> (Some 2, [], d)
                | Some (r, out, d1) \<Rightarrow> (exit_status r, out, d1))))"

end
