(* ===== verification/Simulation.thy ===== *)
theory Simulation
  imports Prelude
begin

text \<open>
  Sequences of operations against a specification: an operation of the implementation, when it succeeds,
  is matched by a step of the abstract state and gives an answer the abstract state allows.  The number in
  the relation is a budget (of sequence numbers) that every operation takes one from.
\<close>

text \<open>Run the operations in order; the first failure ends the run without a result.\<close>

fun run_all :: "('c \<Rightarrow> 'd \<Rightarrow> ('o \<times> 'd) option) \<Rightarrow> 'c list \<Rightarrow> 'd \<Rightarrow> ('o list \<times> 'd) option" where
  "run_all exec [] d = Some ([], d)"
| "run_all exec (c # cs) d =
     Option.bind (exec c d) (\<lambda>(out, d1). map_option (apfst (Cons out)) (run_all exec cs d1))"

text \<open>Every answer is one the abstract state of its moment allows.\<close>

fun answers_all :: "('m \<Rightarrow> 'c \<Rightarrow> 'o \<Rightarrow> bool) \<Rightarrow> ('m \<Rightarrow> 'c \<Rightarrow> 'm) \<Rightarrow> 'm \<Rightarrow> 'c list \<Rightarrow> 'o list \<Rightarrow> bool" where
  "answers_all answer effect m [] outs \<longleftrightarrow> outs = []"
| "answers_all answer effect m (c # cs) [] \<longleftrightarrow> False"
| "answers_all answer effect m (c # cs) (out # outs) \<longleftrightarrow>
     answer m c out \<and> answers_all answer effect (effect m c) cs outs"

locale simulation =
  fixes rel :: "nat \<Rightarrow> 'd \<Rightarrow> 'm \<Rightarrow> bool"
    and exec :: "'c \<Rightarrow> 'd \<Rightarrow> ('o \<times> 'd) option"
    and effect :: "'m \<Rightarrow> 'c \<Rightarrow> 'm"
    and answer :: "'m \<Rightarrow> 'c \<Rightarrow> 'o \<Rightarrow> bool"
    and ok :: "'c \<Rightarrow> bool"
  assumes sim: "rel (Suc n) d m \<Longrightarrow> ok c \<Longrightarrow> exec c d = Some (out, d') \<Longrightarrow> rel n d' (effect m c) \<and> answer m c out"
begin

lemma run_follows:
  "rel (length cs + n) d m \<Longrightarrow> list_all ok cs \<Longrightarrow> run_all exec cs d = Some (outs, d') \<Longrightarrow>
     rel n d' (foldl effect m cs) \<and> answers_all answer effect m cs outs"
proof (induction cs arbitrary: d m outs)
  case (Cons c cs)
  obtain out d1 outs1 where 1: "exec c d = Some (out, d1)" "run_all exec cs d1 = Some (outs1, d')" "outs = out # outs1"
    using Cons.prems(3) by (auto simp: bind_eq_Some_conv)
  have "rel (length cs + n) d1 (effect m c) \<and> answer m c out"
    using sim [of "length cs + n" d m c out d1] Cons.prems(1,2) 1(1) by simp
  then show ?case using Cons.IH [of d1 "effect m c" outs1] Cons.prems(2) 1(2,3) by simp
qed simp

end

end
