(* ===== verification/Cli_Store.thy ===== *)
theory Cli_Store
  imports Cli_Main Engine_Correct Simulation
begin

text \<open>
  What the processes of the command line do to the store on the disk: a disk holds a map, and each of
  \<open>put\<close>, \<open>get\<close> and \<open>del\<close>, a process of its own, opens the store, changes or reads the map, and leaves a
  disk that holds the result.
\<close>

section \<open>A log left on the disk\<close>

text \<open>All but the last segment are whole; the last one may be cut or garbled at its end, but a restart of
  the machine or a sync has settled what it holds.\<close>

definition settled_dir :: "wal_dir \<Rightarrow> bool" where
  "settled_dir dir \<longleftrightarrow> keys_ascending dir \<and> log_ascending (dir_log dir) \<and>
     (\<forall>p \<in> set dir. sf_pending (snd p) = []) \<and> (\<forall>p \<in> set (butlast dir). seg_closed (snd p))"

lemma reopened_closed:
  assumes "sf_pending f = []"
  shows "seg_holds (reopened_file (repair_file f)) (seg_records f) []"
proof (cases "sf_content f" rule: scan_segment_cases)
  case bad
  then have "repair_file f = \<lparr>sf_synced = [], sf_pending = []\<rparr>" by (simp add: repair_file_def)
  moreover have "seg_records f = []" using bad by (simp add: seg_records_def)
  ultimately show ?thesis
    using seg_holds_header by (simp add: reopened_file_def sf_content_def [of "\<lparr>sf_synced = [], sf_pending = []\<rparr>"] kHeaderSize_def)
next
  case (good h rs tail)
  have rs: "seg_records f = rs" using good by (simp add: seg_records_def)
  have "repair_file f = \<lparr>sf_synced = h @ encode_log rs, sf_pending = []\<rparr>"
    using good assms by (cases "tail = []") (auto simp: repair_file_def scan_report_def Let_def sf_content_def)
  moreover have "kHeaderSize \<le> length (sf_content \<lparr>sf_synced = h @ encode_log rs, sf_pending = []\<rparr>)"
    using good(2) by (simp add: sf_content_def)
  ultimately show ?thesis using good(1,2,4) by (auto simp: reopened_file_def seg_holds_def rs)
qed

lemma settled_opens_ok:
  assumes S: "settled_dir dir" and run: "wal_open io (wal_new dir n roll) = (Inr (rep, replayed), w')"
  shows "wal_ok w'"
proof (cases dir rule: rev_cases)
  case Nil
  then have "w_dir (wal_new dir n roll) = []" "w_segment_max_seqno (wal_new dir n roll) = []" by (simp_all add: wal_new_def)
  note W = wal_open_empty [OF this run]
  show ?thesis
    using seg_holds_header seg_records_holds [OF seg_holds_header]
    by (auto simp: W(1) wal_ok_def wal_new_def wal_log_def seg_max_ok_def log_ascending_def sf_content_def word_gt_0 unat_gt_0)
next
  case (snoc older p)
  obtain a f where p: "p = (a, f)" by (cases p)
  have asc: "keys_ascending (older @ [(a, x)])" for x
    using S by (simp add: settled_dir_def snoc p keys_ascending_append)
  have older: "\<forall>q \<in> set older. seg_closed (snd q)" and f: "sf_pending f = []" and log: "log_ascending (dir_log dir)"
    using S by (simp_all add: settled_dir_def snoc p)
  define w where "w = wal_new dir n roll"
  let ?h = "reopened_file (repair_file f)"
  have dir: "w_dir w = older @ [(a, f)]" and sm: "w_segment_max_seqno w = []" by (simp_all add: w_def wal_new_def snoc p)
  have len: "length dir = length (w_dir w)" by (simp add: w_def wal_new_def)
  have h: "seg_holds ?h (seg_records f) []" "seg_records ?h = seg_records f"
    using reopened_closed [OF f] seg_records_reopened by simp_all
  have wlog: "wal_log w = dir_log dir" by (simp add: w_def wal_log_def wal_new_def)
  have w': "w' = w\<lparr>w_dir := older @ [(a, ?h)], w_open := True, w_active_id := a, w_active_bytes := length (sf_content ?h),
      w_segment_max_seqno := dir_seg_max (older @ [(a, f)]), w_last_seqno := max_rec_seqno (dir_log dir),
      w_total_segments := length dir\<rparr>"
    using wal_open_last(1) [OF asc dir sm run [folded w_def]] by (simp only: crash_dir_closed(2) [OF older] wlog len dir)
  have log': "wal_log w' = dir_log dir" by (simp add: wal_log_def w' h snoc p)
  have smok: "seg_max_ok (dir_seg_max (older @ [(a, f)])) q" if q: "q \<in> set (older @ [(a, ?h)])" for q
  proof (cases "q = (a, ?h)")
    case True
    then show ?thesis by (simp add: seg_max_ok_def map_find_dir_seg_max map_find_last [OF asc] h del: dir_seg_max_simps)
  next
    case False
    then obtain b x where q': "q = (b, x)" "(b, x) \<in> set older" using q by (cases q) auto
    have "map_find (older @ [(a, f)]) b = Some x" using q' map_find_iff [OF asc] by simp
    then show ?thesis by (simp add: q' seg_max_ok_def map_find_dir_seg_max del: dir_seg_max_simps)
  qed
  have ascm: "keys_ascending (dir_seg_max (older @ [(a, f)]))" unfolding keys_ascending_dir_seg_max by (rule asc)
  show ?thesis
    unfolding wal_ok_def log'
    using older log h(1) smok asc ascm max_rec_seqno_ge [of _ "dir_log dir"]
    by (auto simp: w' w_def wal_new_def word_gt_0 unat_gt_0)
qed

text \<open>What a clean close leaves.\<close>

lemma closed_settled:
  assumes ok: "wal_ok w" and run: "wal_close io w = (Inr u, w')"
  shows "settled_dir (w_dir w')" "dir_log (w_dir w') = wal_log w" "\<not> w_open w'"
proof -
  obtain older f rs0 rs1 where d: "w_dir w = older @ [(w_active_id w, f)]" and older: "\<forall>p \<in> set older. seg_closed (snd p)"
    and f: "seg_holds f rs0 rs1" and log: "wal_log w = dir_log older @ rs0 @ rs1"
    and asc: "keys_ascending (older @ [(w_active_id w, f)])"
    using wal_okE [OF ok] by metis
  let ?g = "\<lparr>sf_synced = sf_content f, sf_pending = []\<rparr>"
  have w': "w' = w\<lparr>w_dir := older @ [(w_active_id w, ?g)], w_appends_since_sync := 0, w_open := False\<rparr>"
    using run wal_okD(1) [OF ok] by (auto simp: wal_close_def d sync_file_last [OF asc] split: if_splits)
  have g: "seg_records ?g = rs0 @ rs1" using seg_records_holds [OF seg_holds_sync [OF f]] by simp
  have pend: "sf_pending (snd p) = []" if "p \<in> set older" for p
    using older that by (fastforce simp: seg_closed_def seg_holds_def encode_log_def)
  show "dir_log (w_dir w') = wal_log w" by (simp add: w' g log)
  then show "settled_dir (w_dir w')"
    using older wal_okD(8) [OF ok] keys_ascending_last_change [THEN iffD1, OF asc] pend
    by (auto simp: settled_dir_def w')
  show "\<not> w_open w'" by (simp add: w')
qed

lemma crashed_settled:
  assumes ok: "wal_ok w" and sync: "w_appends_since_sync w = 0"
  shows "settled_dir (crash_dir kept (w_dir w))"
proof -
  obtain older f rs0 rs1 where d: "w_dir w = older @ [(w_active_id w, f)]" and older: "\<forall>p \<in> set older. seg_closed (snd p)"
    using wal_okE [OF ok] by metis
  have "crash_dir kept (w_dir w) = older @ [(w_active_id w, crash_file (kept (w_active_id w)) f)]"
    using older by (simp add: d crash_dir_closed)
  moreover have "sf_pending (snd p) = []" if "p \<in> set older" for p
    using older that by (fastforce simp: seg_closed_def seg_holds_def encode_log_def)
  moreover have "keys_ascending (crash_dir kept (w_dir w))" using wal_okD(2) [OF ok] by (simp add: crash_dir_ascending)
  moreover have "log_ascending (dir_log (crash_dir kept (w_dir w)))"
    using wal_okD(8) [OF ok] by (simp add: synced_crash_log [OF ok sync])
  ultimately show ?thesis using older by (auto simp: settled_dir_def crash_file_def)
qed

section \<open>A disk that holds a map\<close>

definition holds :: "engine_ctx \<Rightarrow> disk \<Rightarrow> store_map \<Rightarrow> bool" where
  "holds cx d m \<longleftrightarrow> settled_dir (dk_wal d) \<and>
     (\<exists>man T. load_or_create (cx_json cx) True (dk_manifest d) = Inr man \<and> tables_on man (dk_sst d) T \<and>
        log_over (dir_log (dk_wal d)) (mf_tables man) T = m)"

text \<open>The last sequence number the disk knows.\<close>

definition disk_seqno :: "engine_ctx \<Rightarrow> disk \<Rightarrow> u64" where
  "disk_seqno cx d = max (max_rec_seqno (dir_log (dk_wal d)))
     (case load_or_create (cx_json cx) True (dk_manifest d) of Inr man \<Rightarrow> manifest_max_seqno man | Inl _ \<Rightarrow> 0)"

lemma empty_holds: "holds cx empty_disk Map.empty" "disk_seqno cx empty_disk = 0"
  by (simp_all add: holds_def empty_disk_def settled_dir_def log_ascending_def load_or_create_def tables_on_def ids_ok_def
      manifest_new_def log_over_def fun_eq_iff visible_def disk_seqno_def max_rec_seqno_def manifest_max_seqno_def)

lemma crashed_holds:
  assumes R: "recoverable cx (e, wk) m" and sy: "synced e"
  shows "holds cx (crashed kept e) m"
proof -
  obtain T where T: "load_or_create (cx_json cx) True (dk_manifest (crashed kept e)) = Inr (en_manifest e)"
    "tables_on (en_manifest e) (dk_sst (crashed kept e)) T"
    "log_over (dir_log (dk_wal (crashed kept e))) (mf_tables (en_manifest e)) T = m"
    by (rule crashed_disk [OF R sy])
  obtain w where w: "en_wal e = Some w" "wal_ok w" "w_appends_since_sync w = 0"
    using R sy by (auto simp: recoverable_def durable_def synced_def)
  have "dk_wal (crashed kept e) = crash_dir kept (w_dir w)" by (simp add: crashed_def disk_of_def w)
  then show ?thesis using T crashed_settled [OF w(2,3)] by (auto simp: holds_def)
qed

text \<open>An engine over such a disk, without workers.\<close>

definition serves :: "engine_ctx \<Rightarrow> engine \<Rightarrow> (u64 \<Rightarrow> written) \<Rightarrow> store_map \<Rightarrow> u64 \<Rightarrow> bool" where
  "serves cx e T m n \<longleftrightarrow> base_inv e T \<and> contents e T = m \<and> durable e m \<and> saved cx e \<and> log_seqno e = Some n \<and>
     manifest_max_seqno (en_manifest e) \<le> n \<and> ensure_open e = Inr () \<and> \<not> en_workers_running e"

lemma maybe_rotate_workers: "maybe_rotate io b e = (r, e') \<Longrightarrow> en_workers_running e' = en_workers_running e \<and>
    en_closed e' = en_closed e \<and> en_shutting_down e' = en_shutting_down e"
  by (auto simp: maybe_rotate_def rotate_def publish_version_def Let_def split: if_splits option.splits prod.splits sum.splits)

lemma replay_workers: "replay_all io rs e = (r, e') \<Longrightarrow> en_workers_running e' = en_workers_running e"
proof (induction rs arbitrary: e)
  case (Cons p rs)
  obtain sid x where p: "p = (sid, x)" by (cases p)
  obtain q e1 where q: "apply_mutation io True (rec_key x) (rec_value x) (rec_seqno x) (rec_type x = kTypeDel) e = (q, e1)" by fastforce
  have "en_workers_running e1 = en_workers_running e" using maybe_rotate_workers [OF q [unfolded apply_mutation_def]] by simp
  then show ?case using Cons q p by (cases q) auto
qed simp

lemma open_readers_workers: "open_readers io ts e = (r, e') \<Longrightarrow> en_workers_running e' = en_workers_running e"
proof (induction ts arbitrary: e)
  case (Cons t ts)
  then show ?case by (fastforce split: option.splits sum.splits prod.splits)
qed simp

lemma engine_open_workers:
  assumes "engine_open cx io (engine_new cfg d) = (Inr rep, e)"
  shows "\<not> en_workers_running e"
proof -
  obtain m where m: "load_or_create (cx_json cx) (eo_manifest_open io) (dk_manifest d) = Inr m"
    using assms by (auto simp: engine_open_def Let_def engine_new_def split: if_splits sum.splits)
  obtain e3 e4 wrep where r: "open_readers io (mf_tables m) (open_state io m (engine_new cfg d)) = (Inr (), e3)"
    "open_wal io (with_memtable e3) = (Inr wrep, e4)" "e = publish_version (bump_engine_seqno e4)"
    using assms unfolding engine_open_step [OF m] by (auto simp: bind_st_Inr_iff opened_report_def Let_def split: if_splits)
  have "en_workers_running e4 = en_workers_running (with_memtable e3)"
    using r(2) by (auto simp: open_wal_def bind_st_Inr_iff split: prod.splits sum.splits dest!: replay_workers)
  then show ?thesis
    using open_readers_workers [OF r(1)]
    by (simp add: r(3) publish_version_def bump_engine_seqno_def with_memtable_def open_state_def engine_new_def Let_def)
qed

lemma load_open_flag: "load_or_create api b file = Inr m \<Longrightarrow> load_or_create api True file = Inr m"
  by (auto simp: load_or_create_def split: option.splits if_splits)

text \<open>Opening.\<close>

lemma open_serves:
  assumes H: "holds cx d m" and run: "engine_open cx io (engine_new cfg d) = (Inr rep, e)"
  obtains T where "serves cx e T m (disk_seqno cx d)" "en_config e = cfg"
proof -
  obtain man T where man: "load_or_create (cx_json cx) True (dk_manifest d) = Inr man" and on: "tables_on man (dk_sst d) T"
    and m: "log_over (dir_log (dk_wal d)) (mf_tables man) T = m" and S: "settled_dir (dk_wal d)"
    using H by (auto simp: holds_def)
  have asc: "keys_ascending (dk_wal d)" using S by (simp add: settled_dir_def)
  have man': "load_or_create (cx_json cx) (eo_manifest_open io) (dk_manifest d) = Inr man"
  proof -
    obtain man1 where "load_or_create (cx_json cx) (eo_manifest_open io) (dk_manifest d) = Inr man1"
      using run by (auto simp: engine_open_def Let_def engine_new_def split: if_splits sum.splits)
    then show ?thesis using load_open_flag man by fastforce
  qed
  show ?thesis
  proof (rule engine_open_result [OF man' on asc run])
    fix w wrep replayed
    assume E: "base_inv e T" "mem_find e = log_find (dir_log (dk_wal d))" "contents e T = log_over (dir_log (dk_wal d)) (mf_tables man) T"
      "wal_open (eo_wal io) (wal_new (dk_wal d) (wal_fsync_every_n cfg) (wal_segment_roll_bytes cfg)) = (Inr (wrep, replayed), w)"
      "en_wal e = Some (bump_seqno (manifest_max_seqno man) w)" "en_manifest e = man" "en_manifest_file e = dk_manifest d"
      "en_config e = cfg" "\<not> en_closed e" "\<not> en_shutting_down e"
    have W: "wal_ok w" "wal_log w = dir_log (dk_wal d)" "w_last_seqno w = max_rec_seqno (dir_log (dk_wal d))"
      using settled_opens_ok [OF S E(4)] wal_open_result [OF asc E(4)] by simp_all
    have logged: "logged e = dir_log (dk_wal d)" by (simp add: logged_def E(5) W(2)) (simp add: wal_log_def bump_seqno_def W(2) [unfolded wal_log_def])
    have "durable e m" using wal_ok_bump [OF W(1)] by (simp add: durable_def E(2,5) logged split: option.split)
    moreover have "log_seqno e = Some (disk_seqno cx d)" by (simp add: log_seqno_def E(5) bump_seqno_def W(3) disk_seqno_def man max.commute)
    moreover have "manifest_max_seqno (en_manifest e) \<le> disk_seqno cx d" by (simp add: E(6) disk_seqno_def man)
    moreover have "saved cx e" by (simp add: saved_def E(6,7) man)
    ultimately have "serves cx e T m (disk_seqno cx d)"
      using E engine_open_workers [OF run] m by (simp add: serves_def ensure_open_def)
    then show ?thesis using that E(8) by blast
  qed
qed

lemma open_good:
  assumes H: "holds cx d m" and good: "eo_manifest_open io" "eo_mkdir io" "eo_wal io = io_good" "\<forall>i. eo_open io i"
  shows "\<exists>rep e. engine_open cx io (engine_new cfg d) = (Inr rep, e)"
proof -
  obtain man T where man: "load_or_create (cx_json cx) True (dk_manifest d) = Inr man" and on: "tables_on man (dk_sst d) T"
    using H by (auto simp: holds_def)
  show ?thesis using engine_open_good [OF _ on good(2-4)] man good(1) by simp
qed

text \<open>Reading, writing, closing.\<close>

lemma read_serves:
  assumes S: "serves cx e T m n" and k: "k \<noteq> []" and run: "get io k e = (r, e', tr)"
  shows "serves cx e' T m n" "r = Inr (m k) \<or> (\<exists>i. \<not> eo_open io i) \<and> r = Inl (Thrown IOFailure)" "en_config e' = en_config e"
proof -
  have inv: "base_inv e T" "contents e T = m" "ensure_open e = Inr ()" "durable e m" "saved cx e"
    using S by (simp_all add: serves_def)
  have "get_begin k e = Inr (current e)" using inv k by (simp add: get_begin_def base_inv_def)
  then have g: "get_version io (current e) k e = (r, e', tr)" using run by (simp add: get_def)
  note G = get_version_inv(1,2) [OF inv(1) disjI1 [OF refl] g]
  have "\<forall>i \<in> set (ve_tables (current e)). table_ok e T i"
    using tab_invD(6) [OF base_invD(4) [OF inv(1)]] by (auto simp: live_ids_def current_def)
  from get_version_step [OF this g] have ro: "reads_only (set (ve_tables (current e))) e e'" by blast
  note K = reads_only_keeps [OF ro]
  have flags: "en_workers_running e' = en_workers_running e" "ensure_open e' = ensure_open e"
    using ro by (auto simp: reads_only_def ensure_open_def)
  have "durable e' m" by (rule same_durable [OF reads_only_same [OF ro] K(8) inv(4)])
  then show "serves cx e' T m n"
    using S G flags by (simp add: serves_def K saved_def log_seqno_def)
  show "r = Inr (m k) \<or> (\<exists>i. \<not> eo_open io i) \<and> r = Inl (Thrown IOFailure)"
    using get_result [OF inv(1,3) k run] inv(2) by blast
  show "en_config e' = en_config e" by (rule K(9))
qed

lemma do_write_seqno:
  assumes "do_write io d k v e = (Inr s, e')" "en_wal e = Some w"
  shows "s = w_last_seqno w + 1" "log_seqno e' = Some s" "en_workers_running e' = en_workers_running e"
    "en_closed e' = en_closed e" "en_shutting_down e' = en_shutting_down e"
proof -
  have "s = w_last_seqno w + 1 \<and> log_seqno e' = Some s"
    using assms
  proof (cases rule: do_write_cases)
    case (logged s1 w1 e0 q)
    have app: "s1 = w_last_seqno w + 1" "w_last_seqno w1 = s1"
      using logged(1) wal_append_last_seqno by (fastforce simp: append_del_def append_put_def split: if_splits)+
    have "log_seqno e' = Some (w_last_seqno w1)"
      using logged(3,4) wal_roll_last_seqno
      by (auto simp: maybe_rotate_def log_seqno_def split: if_splits sum.splits prod.splits)
    then show ?thesis using app logged(5) by (cases q) auto
  qed simp
  moreover have "en_workers_running e' = en_workers_running e \<and> en_closed e' = en_closed e \<and> en_shutting_down e' = en_shutting_down e"
    using assms(1)
    by (auto simp: do_write_def apply_mutation_def Let_def bind_st_Inr_iff split: prod.splits sum.splits option.splits
        dest!: maybe_rotate_workers)
  ultimately show "s = w_last_seqno w + 1" "log_seqno e' = Some s" "en_workers_running e' = en_workers_running e"
    "en_closed e' = en_closed e" "en_shutting_down e' = en_shutting_down e" by blast+
qed

lemma write_serves:
  assumes S: "serves cx e T m n" and room: "n \<noteq> - 1" and dv: "d \<longrightarrow> v = []"
    and cap: "kMinPayload + length k + length v \<le> kMaxPayload"
    and run: "guarded_write io d k v e = (Some (Inr s), e')"
  shows "serves cx e' T (m(k := written_value d v)) (n + 1)" "s = n + 1"
proof -
  have inv: "base_inv e T" "contents e T = m" "ensure_open e = Inr ()" "durable e m" "saved cx e" "log_seqno e = Some n"
    using S by (simp_all add: serves_def)
  obtain w where w: "en_wal e = Some w" "w_last_seqno w = n" using inv(6) by (auto simp: log_seqno_def)
  obtain e1 where e1: "ensure_write_capacity e = (Some (Inr ()), e1)" "do_write io d k v e1 = (Inr s, e')"
    using run inv(3) by (auto simp: guarded_write_def split: if_splits prod.splits option.splits sum.splits)
  then have same: "e1 = e" using e1(1) inv S by (auto simp: ensure_write_capacity_def Let_def serves_def split: if_splits)
  note do = e1(2) [unfolded same]
  note Q = do_write_seqno [OF do w(1)]
  note M = guarded_write_manifest [OF run]
  have eff: "base_inv e' T" "contents e' T = m(k := written_value d v)"
    using guarded_write_inv [OF inv(1) run] inv(2) by (auto simp: write_effect_def)
  have "durable e' (m(k := written_value d v))"
    using do_write_durable(1) [OF base_invD(3) [OF inv(1)] inv(4) w(1) _ dv cap do] room w(2) by simp
  moreover have "saved cx e'" using inv(5) M by (simp add: saved_def same_manifest_def)
  moreover have "manifest_max_seqno (en_manifest e') \<le> n + 1"
  proof -
    have "manifest_max_seqno (en_manifest e) \<le> n" using S by (simp add: serves_def)
    also have "n \<le> n + 1" using word_less_succ [OF room] by (rule less_imp_le)
    finally show ?thesis using M by (simp add: same_manifest_def)
  qed
  moreover have "ensure_open e' = Inr ()" "\<not> en_workers_running e'"
    using inv(3) S Q(3-5) base_invD(2) [OF eff(1)] by (auto simp: ensure_open_def serves_def split: if_splits)
  ultimately show "serves cx e' T (m(k := written_value d v)) (n + 1)" "s = n + 1"
    using eff Q(1,2) w(2) by (simp_all add: serves_def)
qed

lemma close_holds:
  assumes S: "serves cx e T m n" and run: "close cx io ios graceful e = (Inr u, e')"
  shows "holds cx (disk_of (engine_drop io e')) m" "disk_seqno cx (disk_of (engine_drop io e')) \<le> n"
proof -
  have inv: "base_inv e T" "contents e T = m" "ensure_open e = Inr ()" "durable e m" "saved cx e" "log_seqno e = Some n"
    using S by (simp_all add: serves_def)
  obtain w where w: "en_wal e = Some w" "wal_ok w" "w_last_seqno w = n" using inv(4,6) by (auto simp: durable_def log_seqno_def)
  have "\<not> en_closed e" "\<not> en_workers_running e" using S by (auto simp: serves_def ensure_open_def split: if_splits)
  then obtain w1 u1 where w1: "wal_close (eo_wal io) w = (Inr u1, w1)"
    "e' = e\<lparr>en_shutting_down := True, en_wal := Some w1, en_closed := True\<rparr>"
    using run w(1) by (auto simp: close_def Let_def split: prod.splits sum.splits)
  note C = closed_settled [OF w(2) w1(1)]
  have drop: "dk_wal (disk_of (engine_drop io e')) = w_dir w1" "dk_sst (disk_of (engine_drop io e')) = en_sst e"
    "dk_manifest (disk_of (engine_drop io e')) = en_manifest_file e"
    using C(3) \<open>\<not> en_workers_running e\<close> by (simp_all add: engine_drop_def w1(2) stop_workers_def disk_of_def wal_close_def)
  have log: "dir_log (w_dir w1) = logged e" using C(2) by (simp add: logged_def w(1))
  have over: "log_over (logged e) (mf_tables (en_manifest e)) T = m"
    using durable_log_over [OF _ base_invD(4) [OF inv(1)]] inv(2,4) by simp
  have "load_or_create (cx_json cx) True (en_manifest_file e) = Inr (en_manifest e)" using inv(5) by (simp add: saved_def)
  then show "holds cx (disk_of (engine_drop io e')) m"
    using C(1) over tab_inv_tables_on [OF base_invD(4) [OF inv(1)]] by (auto simp: holds_def drop log)
  have "max_rec_seqno (logged e) \<le> n"
    using wal_okD(9) [OF w(2)] by (intro max_rec_seqno_le) (simp add: logged_def w)
  moreover have "manifest_max_seqno (en_manifest e) \<le> n" using S by (simp add: serves_def)
  ultimately show "disk_seqno cx (disk_of (engine_drop io e')) \<le> n"
    using inv(5) by (simp add: disk_seqno_def drop saved_def log)
qed

lemma close_good:
  assumes S: "serves cx e T m n" and io: "io_sync (eo_wal io)"
  shows "\<exists>e'. close cx io ios graceful e = (Inr (), e')"
proof -
  obtain w where w: "en_wal e = Some w" using S by (auto simp: serves_def log_seqno_def)
  have "\<not> en_closed e" "\<not> en_workers_running e" using S by (auto simp: serves_def ensure_open_def split: if_splits)
  then show ?thesis using w io by (simp add: close_def Let_def wal_close_def)
qed

section \<open>Commands as processes\<close>

lemma cmd_Inr:
  "then_do c f s = (Inr x, s') \<longleftrightarrow> (\<exists>y s1. c s = (Inr y, s1) \<and> f y s1 = (Inr x, s'))"
  "say t s = (Inr u, s') \<longleftrightarrow> s' = s\<lparr>se_out := se_out s @ t\<rparr>"
  "on_engine g s = (Inr x, s') \<longleftrightarrow> (\<exists>e'. g (se_engine s) = (Inr x, e') \<and> s' = s\<lparr>se_engine := e'\<rparr>)"
  "ask h s = (Inr x, s') \<longleftrightarrow> h (se_engine s) = Inr x \<and> s' = s"
  "ret y s = (Inr x, s') \<longleftrightarrow> x = y \<and> s' = s"
proof -
  show "then_do c f s = (Inr x, s') \<longleftrightarrow> (\<exists>y s1. c s = (Inr y, s1) \<and> f y s1 = (Inr x, s'))"
    by (simp only: then_do_def bind_st_Inr_iff)
  show "say t s = (Inr u, s') \<longleftrightarrow> s' = s\<lparr>se_out := se_out s @ t\<rparr>" by (auto simp: say_def)
  show "on_engine g s = (Inr x, s') \<longleftrightarrow> (\<exists>e'. g (se_engine s) = (Inr x, e') \<and> s' = s\<lparr>se_engine := e'\<rparr>)"
    unfolding on_engine_def by (cases "g (se_engine s)") (simp add: eq_commute [of s'])
  show "ask h s = (Inr x, s') \<longleftrightarrow> h (se_engine s) = Inr x \<and> s' = s" by (auto simp only: ask_def prod.inject)
  show "ret y s = (Inr x, s') \<longleftrightarrow> x = y \<and> s' = s" by (auto simp only: ret_def prod.inject sum.inject)
qed

lemma then_engine_Inr:
  "then_do (on_engine g) f s = (Inr x, s') \<longleftrightarrow>
     (\<exists>y e. g (se_engine s) = (Inr y, e) \<and> f y (s\<lparr>se_engine := e\<rparr>) = (Inr x, s'))"
  by (cases "g (se_engine s)") (auto simp: then_do_def on_engine_def bind_st_Inr_iff)

lemma settled_Inr: "settled p = (Inr x, e') \<longleftrightarrow> p = (Some (Inr x), e')"
  by (auto simp: settled_def split: prod.splits option.splits)

lemma open_engine_Inr:
  "open_engine cl su q s = (Inr u, s') \<longleftrightarrow>
     (\<exists>rep e. engine_open (cl_cx cl) (su_open su) (se_engine s) = (Inr rep, e) \<and>
        s' = s\<lparr>se_engine := e, se_out := se_out s @ (if q then [] else recovery_text rep)\<rparr>)"
  by (cases q) (simp_all add: open_engine_def then_engine_Inr cmd_Inr(2-5))

lemma read_key_Inr:
  "read_key cl su i k s = (Inr (v, tr), s') \<longleftrightarrow>
     (\<exists>e. get (su_op su i) k (se_engine s) = (Inr v, e, tr) \<and> s' = s\<lparr>se_engine := e\<rparr>)"
  by (auto simp: read_key_def cmd_Inr split: prod.splits sum.splits)

lemma with_engine_Inr:
  "with_engine su cfg body d = (Inr x, out, d') \<longleftrightarrow>
     (\<exists>s. body \<lparr>se_engine = engine_new cfg d, se_out = [], se_log = log_init\<rparr> = (Inr x, s) \<and> out = se_out s \<and>
        d' = disk_of (engine_drop (su_close su) (se_engine s)))"
  by (auto simp: with_engine_def split: prod.splits)

text \<open>The commands that are steps of a map, each as its command line.\<close>

definition flag_token :: "string \<Rightarrow> string \<Rightarrow> string" where
  "flag_token name v = ''--'' @ name @ ''='' @ v"

lemma parse_flag_token:
  assumes "CHR ''='' \<notin> set name"
  shows "parse_flags (flag_token name v # rest) m = parse_flags rest (m(name \<mapsto> v))"
proof -
  have "takeWhile (\<lambda>c. c \<noteq> CHR ''='') (name @ ''='' @ v) = name" "dropWhile (\<lambda>c. c \<noteq> CHR ''='') (name @ ''='' @ v) = ''='' @ v"
    using assms by (induction name) auto
  then show ?thesis by (simp add: flag_token_def is_flag_def)
qed

datatype command = Put_key string string | Delete_key string | Get_key string

fun args_of :: "command \<Rightarrow> string list" where
  "args_of (Put_key k v) = [''put'', flag_token ''key'' k, flag_token ''value'' v]"
| "args_of (Delete_key k) = [''del'', flag_token ''key'' k]"
| "args_of (Get_key k) = [''get'', flag_token ''key'' k]"

fun key_of :: "command \<Rightarrow> string" where
  "key_of (Put_key k v) = k"
| "key_of (Delete_key k) = k"
| "key_of (Get_key k) = k"

fun command_effect :: "store_map \<Rightarrow> command \<Rightarrow> store_map" where
  "command_effect m (Put_key k v) = m(bytes_of k \<mapsto> bytes_of v)"
| "command_effect m (Delete_key k) = m(bytes_of k := None)"
| "command_effect m (Get_key k) = m"

text \<open>Keys are not empty, and the record of a write fits into what the log reads back.\<close>

fun command_ok :: "command \<Rightarrow> bool" where
  "command_ok (Put_key k v) \<longleftrightarrow> k \<noteq> [] \<and> kMinPayload + length k + length v \<le> kMaxPayload"
| "command_ok (Delete_key k) \<longleftrightarrow> k \<noteq> [] \<and> kMinPayload + length k \<le> kMaxPayload"
| "command_ok (Get_key k) \<longleftrightarrow> k \<noteq> []"

definition answers_with :: "store_map \<Rightarrow> command \<Rightarrow> string \<Rightarrow> bool" where
  "answers_with m c out \<longleftrightarrow>
     (case c of Get_key k \<Rightarrow> \<exists>report. out = report @ value_text (m (bytes_of k)) @ newline | _ \<Rightarrow> True)"

lemma parse_args_of:
  "parse_flags [flag_token ''key'' k] m = m(''key'' \<mapsto> k)"
  "parse_flags [flag_token ''key'' k, flag_token ''value'' v] m = m(''key'' \<mapsto> k, ''value'' \<mapsto> v)"
  by (simp_all add: parse_flag_token del: parse_flags.simps(2))

lemma load_config_plain:
  "flags ''config'' = None \<Longrightarrow> flags ''log-level'' = None \<Longrightarrow> load_config sr flags = load_config sr Map.empty"
  by (simp add: load_config_def resolve_config_path_def flag_def)

lemma exit_0: "exit_status r = Some 0 \<longleftrightarrow> r = Inr 0"
  by (auto simp: exit_status_def split: sum.splits fault.splits if_splits)

text \<open>What a successful process did.\<close>

lemma main_args_of:
  assumes "load_config (cl_sr cl) Map.empty = Inr cfg"
  shows "main cl su (args_of c) d = (Some 0, out, d') \<longleftrightarrow>
     run_mutation cl su (hd (args_of c)) (parse_flags (tl (args_of c)) Map.empty) cfg d = (Inr 0, out, d')"
proof -
  have mut: "main cl su (cmd # rest) d = (Some 0, out, d') \<longleftrightarrow> run_mutation cl su cmd (parse_flags rest Map.empty) cfg d = (Inr 0, out, d')"
    if "run_command cl su cmd (parse_flags rest Map.empty) cfg d = Some (run_mutation cl su cmd (parse_flags rest Map.empty) cfg d)"
      "load_config (cl_sr cl) (parse_flags rest Map.empty) = Inr cfg" for cmd rest
    using that exit_0 by (simp add: main_def Let_def split: prod.split)
  have load: "load_config (cl_sr cl) [''key'' \<mapsto> k] = Inr cfg" "load_config (cl_sr cl) [''key'' \<mapsto> k, ''value'' \<mapsto> v] = Inr cfg" for k v
    using assms load_config_plain [of "[''key'' \<mapsto> k]" "cl_sr cl"] load_config_plain [of "[''key'' \<mapsto> k, ''value'' \<mapsto> v]" "cl_sr cl"]
    by simp_all
  show ?thesis
    by (cases c) (simp_all add: mut parse_args_of load run_command_def del: parse_flags.simps)
qed

lemma write_process:
  assumes f: "flags ''key'' = Some k" "k \<noteq> []"
    and c: "cmd = ''put'' \<and> \<not> d \<and> flags ''value'' = Some v \<or> cmd = ''del'' \<and> d \<and> v = []"
    and run: "run_mutation cl su cmd flags cfg dk = (Inr 0, out, dk')"
  obtains rep e1 s e2 e3 where "engine_open (cl_cx cl) (su_open su) (engine_new cfg dk) = (Inr rep, e1)"
    "guarded_write (su_op su 0) d (bytes_of k) (bytes_of v) e1 = (Some (Inr s), e2)"
    "close (cl_cx cl) (su_close su) (su_flush su) True e2 = (Inr (), e3)" "dk' = disk_of (engine_drop (su_close su) e3)"
proof -
  have r: "require_flag flags ''key'' = Inr k" using f by (simp add: require_flag_cases)
  show ?thesis
    using run c that
    by (auto simp: run_mutation_def r with_engine_Inr cmd_Inr open_engine_Inr settled_Inr say_written_def close_engine_def
        put_def remove_key_def bytes_of_def)
qed

lemma read_process:
  assumes f: "flags ''key'' = Some k" "k \<noteq> []"
  shows "run_mutation cl su ''get'' flags cfg dk = (Inr 0, out, dk') \<longleftrightarrow>
    (\<exists>rep e1 v tr e2 e3. engine_open (cl_cx cl) (su_open su) (engine_new cfg dk) = (Inr rep, e1) \<and>
       get (su_op su 0) (bytes_of k) e1 = (Inr v, e2, tr) \<and>
       close (cl_cx cl) (su_close su) (su_flush su) True e2 = (Inr (), e3) \<and> dk' = disk_of (engine_drop (su_close su) e3) \<and>
       out = (recovery_text rep @ (if log_level cfg = Debug then trace_text tr (v \<noteq> None) else [])) @ value_text v @ newline)"
proof -
  have r: "require_flag flags ''key'' = Inr k" using f by (simp add: require_flag_cases)
  show ?thesis
    by (cases "log_level cfg = Debug") (auto simp: run_mutation_def r with_engine_Inr cmd_Inr open_engine_Inr read_key_Inr close_engine_def)
qed

section \<open>Operations on one engine\<close>

text \<open>The same commands as operations on an open engine without workers, with the system's answers.\<close>

definition engine_exec :: "engine_io \<times> command \<Rightarrow> engine \<Rightarrow> (bytes option \<times> engine) option" where
  "engine_exec p e =
     (case snd p of
        Put_key k v \<Rightarrow> (case guarded_write (fst p) False (bytes_of k) (bytes_of v) e of
            (Some (Inr _), e1) \<Rightarrow> Some (None, e1) | _ \<Rightarrow> None)
      | Delete_key k \<Rightarrow> (case guarded_write (fst p) True (bytes_of k) [] e of
            (Some (Inr _), e1) \<Rightarrow> Some (None, e1) | _ \<Rightarrow> None)
      | Get_key k \<Rightarrow> (case get (fst p) (bytes_of k) e of (Inr v, e1, _) \<Rightarrow> Some (v, e1) | _ \<Rightarrow> None))"

definition engine_rel :: "engine_ctx \<Rightarrow> nat \<Rightarrow> engine \<Rightarrow> store_map \<Rightarrow> bool" where
  "engine_rel cx n e m \<longleftrightarrow> (\<exists>T s. serves cx e T m s \<and> unat s + n < 2 ^ 64)"

definition map_effect :: "store_map \<Rightarrow> 'a \<times> command \<Rightarrow> store_map" where
  "map_effect m p = command_effect m (snd p)"

definition engine_answer :: "store_map \<Rightarrow> engine_io \<times> command \<Rightarrow> bytes option \<Rightarrow> bool" where
  "engine_answer m p v \<longleftrightarrow> (case snd p of Get_key k \<Rightarrow> v = m (bytes_of k) | _ \<Rightarrow> v = None)"

lemma room_left:
  assumes "unat (s :: u64) + Suc n < 2 ^ 64"
  shows "s \<noteq> - 1" "unat (s + 1) = unat s + 1"
proof -
  show "s \<noteq> - 1" using assms by (auto simp: unsigned_minus_1_eq_mask mask_eq_exp_minus_1)
  show "unat (s + 1) = unat s + 1" using assms by (simp add: unat_word_ariths)
qed

interpretation one_engine: simulation "engine_rel cx" engine_exec map_effect engine_answer "command_ok \<circ> snd"
proof unfold_locales
  fix n e m v e' and p :: "engine_io \<times> command"
  assume R: "engine_rel cx (Suc n) e m" and ok: "(command_ok \<circ> snd) p" and run: "engine_exec p e = Some (v, e')"
  obtain T s where S: "serves cx e T m s" "unat s + Suc n < 2 ^ 64" using R by (auto simp: engine_rel_def)
  note room = room_left [OF S(2)]
  have wr: "engine_rel cx n e' (m(bytes_of k := written_value t x))"
    if "guarded_write (fst p) t (bytes_of k) x e = (Some (Inr q), e')" "t \<longrightarrow> x = []"
      "kMinPayload + length (bytes_of k) + length x \<le> kMaxPayload" for k t x q
  proof -
    have "unat (s + 1) + n < 2 ^ 64" using S(2) room(2) by simp
    then show ?thesis using write_serves(1) [OF S(1) room(1) that(2,3,1)] unfolding engine_rel_def by blast
  qed
  have len: "length (bytes_of k) = length k" for k by (simp add: bytes_of_def)
  show "engine_rel cx n e' (map_effect m p) \<and> engine_answer m p v"
  proof (cases "snd p")
    case (Put_key k x)
    then show ?thesis
      using run ok wr [of False k "bytes_of x"]
      by (auto simp: engine_exec_def map_effect_def engine_answer_def written_value_def len split: prod.splits option.splits sum.splits)
  next
    case (Delete_key k)
    then show ?thesis
      using run ok wr [of True k "[]"]
      by (auto simp: engine_exec_def map_effect_def engine_answer_def written_value_def len split: prod.splits option.splits sum.splits)
  next
    case (Get_key k)
    then obtain tr where g: "get (fst p) (bytes_of k) e = (Inr v, e', tr)"
      using run by (auto simp: engine_exec_def split: prod.splits sum.splits)
    have "bytes_of k \<noteq> []" using ok Get_key by (simp add: bytes_of_def)
    note G = read_serves [OF S(1) this g]
    have "unat s + n < 2 ^ 64" using S(2) by simp
    then have "engine_rel cx n e' m" using G(1) unfolding engine_rel_def by blast
    then show ?thesis using G(2) Get_key by (simp add: map_effect_def engine_answer_def)
  qed
qed

end
