(* ===== verification/Cli_Correct.thy ===== *)
theory Cli_Correct
  imports Cli_Store
begin

text \<open>
  The command line as a whole: scripts of commands follow the map they mean, a crashed store answers,
  bad command lines do no harm, flags and HTTP requests are read as they were written.
\<close>

section \<open>Scripts\<close>

lemma process_step:
  assumes H: "holds (cl_cx cl) d m" and cfg: "load_config (cl_sr cl) Map.empty = Inr cfg"
    and ok: "command_ok c" and room: "disk_seqno (cl_cx cl) d \<noteq> - 1"
    and run: "main cl su (args_of c) d = (Some 0, out, d')"
  shows "holds (cl_cx cl) d' (command_effect m c)" "answers_with m c out"
    "disk_seqno (cl_cx cl) d' \<le> disk_seqno (cl_cx cl) d + 1"
proof -
  let ?cx = "cl_cx cl" and ?n = "disk_seqno (cl_cx cl) d"
  have step: "?n \<le> ?n + 1" using word_less_succ [OF room] by (rule less_imp_le)
  have wr: "holds ?cx d' (m(bytes_of k := written_value t (bytes_of v))) \<and> disk_seqno ?cx d' \<le> ?n + 1"
    if f: "flags ''key'' = Some k" "k \<noteq> []"
      and c: "cmd = ''put'' \<and> \<not> t \<and> flags ''value'' = Some v \<or> cmd = ''del'' \<and> t \<and> v = []"
      and cap: "kMinPayload + length k + length v \<le> kMaxPayload"
      and r: "run_mutation cl su cmd flags cfg d = (Inr 0, out, d')" for flags cmd k v t
  proof (rule write_process [OF f c r])
    fix rep e1 s e2 e3
    assume E: "engine_open ?cx (su_open su) (engine_new cfg d) = (Inr rep, e1)"
      "guarded_write (su_op su 0) t (bytes_of k) (bytes_of v) e1 = (Some (Inr s), e2)"
      "close ?cx (su_close su) (su_flush su) True e2 = (Inr (), e3)" "d' = disk_of (engine_drop (su_close su) e3)"
    obtain T where S: "serves ?cx e1 T m ?n" using open_serves [OF H E(1)] by blast
    have "t \<longrightarrow> bytes_of v = []" using c by (auto simp: bytes_of_def)
    note W = write_serves(1) [OF S room this _ E(2)]
    show ?thesis using close_holds [OF W E(3)] cap by (simp add: E(4) bytes_of_def)
  qed
  have "holds ?cx d' (command_effect m c) \<and> answers_with m c out \<and> disk_seqno ?cx d' \<le> ?n + 1"
  proof (cases c)
    case (Put_key k v)
    then have r: "run_mutation cl su ''put'' [''key'' \<mapsto> k, ''value'' \<mapsto> v] cfg d = (Inr 0, out, d')"
      using run [unfolded main_args_of [OF cfg]] by (simp add: parse_args_of del: parse_flags.simps)
    have "holds ?cx d' (m(bytes_of k := written_value False (bytes_of v))) \<and> disk_seqno ?cx d' \<le> ?n + 1"
      by (rule wr [OF _ _ _ _ r]) (use ok Put_key in simp_all)
    then show ?thesis by (simp add: Put_key answers_with_def written_value_def)
  next
    case (Delete_key k)
    then have r: "run_mutation cl su ''del'' [''key'' \<mapsto> k] cfg d = (Inr 0, out, d')"
      using run [unfolded main_args_of [OF cfg]] by (simp add: parse_args_of del: parse_flags.simps)
    have "holds ?cx d' (m(bytes_of k := written_value True (bytes_of []))) \<and> disk_seqno ?cx d' \<le> ?n + 1"
      by (rule wr [OF _ _ _ _ r]) (use ok Delete_key in simp_all)
    then show ?thesis by (simp add: Delete_key answers_with_def written_value_def)
  next
    case (Get_key k)
    then have k: "[''key'' \<mapsto> k] ''key'' = Some k" "k \<noteq> []" "bytes_of k \<noteq> []" using ok by (simp_all add: bytes_of_def)
    have "run_mutation cl su ''get'' [''key'' \<mapsto> k] cfg d = (Inr 0, out, d')"
      using run [unfolded main_args_of [OF cfg]] Get_key by (simp add: parse_args_of del: parse_flags.simps)
    then obtain rep e1 v tr e2 e3 where E: "engine_open ?cx (su_open su) (engine_new cfg d) = (Inr rep, e1)"
      "get (su_op su 0) (bytes_of k) e1 = (Inr v, e2, tr)" "close ?cx (su_close su) (su_flush su) True e2 = (Inr (), e3)"
      "d' = disk_of (engine_drop (su_close su) e3)"
      "out = (recovery_text rep @ (if log_level cfg = Debug then trace_text tr (v \<noteq> None) else [])) @ value_text v @ newline"
      unfolding read_process [where flags = "[''key'' \<mapsto> k]", OF k(1,2)] by blast
    obtain T where S: "serves ?cx e1 T m ?n" using open_serves [OF H E(1)] by blast
    note R = read_serves [OF S k(3) E(2)]
    have "v = m (bytes_of k)" using R(2) by simp
    then show ?thesis
      using close_holds [OF R(1) E(3)] step by (auto simp: Get_key answers_with_def E(4,5))
  qed
  then show "holds ?cx d' (command_effect m c)" "answers_with m c out" "disk_seqno ?cx d' \<le> ?n + 1" by blast+
qed

text \<open>Nothing but the operating system makes a read fail.\<close>

lemma get_process:
  assumes H: "holds (cl_cx cl) d m" and cfg: "load_config (cl_sr cl) Map.empty = Inr cfg" and k: "k \<noteq> []"
    and good: "eo_manifest_open (su_open su)" "eo_mkdir (su_open su)" "eo_wal (su_open su) = io_good"
      "\<forall>i. eo_open (su_open su) i" "\<forall>i. eo_open (su_op su 0) i" "io_sync (eo_wal (su_close su))"
  shows "\<exists>report d'. main cl su (args_of (Get_key k)) d = (Some 0, report @ value_text (m (bytes_of k)) @ newline, d') \<and>
    holds (cl_cx cl) d' m"
proof -
  obtain rep e1 where op: "engine_open (cl_cx cl) (su_open su) (engine_new cfg d) = (Inr rep, e1)"
    using open_good [OF H good(1-4)] by blast
  obtain T where S: "serves (cl_cx cl) e1 T m (disk_seqno (cl_cx cl) d)" using open_serves [OF H op] by blast
  obtain r e2 tr where g: "get (su_op su 0) (bytes_of k) e1 = (r, e2, tr)" by (metis prod_cases3)
  have "bytes_of k \<noteq> []" using k by (simp add: bytes_of_def)
  note R = read_serves [OF S this g]
  have r: "r = Inr (m (bytes_of k))" using R(2) good(5) by simp
  obtain e3 where cl: "close (cl_cx cl) (su_close su) (su_flush su) True e2 = (Inr (), e3)"
    using close_good [OF R(1) good(6)] by blast
  have f: "[''key'' \<mapsto> k] ''key'' = Some k" by simp
  let ?pre = "recovery_text rep @ (if log_level cfg = Debug then trace_text tr (m (bytes_of k) \<noteq> None) else [])"
  let ?d = "disk_of (engine_drop (su_close su) e3)"
  have "run_mutation cl su ''get'' [''key'' \<mapsto> k] cfg d = (Inr 0, ?pre @ value_text (m (bytes_of k)) @ newline, ?d)"
    unfolding read_process [where flags = "[''key'' \<mapsto> k]", OF f k] using op g cl unfolding r by blast
  then have "main cl su (args_of (Get_key k)) d = (Some 0, ?pre @ value_text (m (bytes_of k)) @ newline, ?d)"
    unfolding main_args_of [OF cfg] by (simp add: parse_args_of del: parse_flags.simps)
  then show ?thesis using close_holds(1) [OF R(1) cl] by blast
qed

text \<open>A script: each command a process of its own, with the operating system's answers to it.  It stops at
  the first command that fails.\<close>

definition process :: "'j cli \<Rightarrow> answers \<times> command \<Rightarrow> disk \<Rightarrow> (string \<times> disk) option" where
  "process cl p d =
     (case main cl (fst p) (args_of (snd p)) d of (status, out, d1) \<Rightarrow> if status = Some 0 then Some (out, d1) else None)"

definition run_script :: "'j cli \<Rightarrow> (answers \<times> command) list \<Rightarrow> disk \<Rightarrow> (string list \<times> disk) option" where
  "run_script cl = run_all (process cl)"

definition prints :: "store_map \<Rightarrow> answers \<times> command \<Rightarrow> string \<Rightarrow> bool" where
  "prints m p out \<longleftrightarrow> answers_with m (snd p) out"

definition process_rel :: "'j cli \<Rightarrow> nat \<Rightarrow> disk \<Rightarrow> store_map \<Rightarrow> bool" where
  "process_rel cl n d m \<longleftrightarrow> holds (cl_cx cl) d m \<and> (\<exists>cfg. load_config (cl_sr cl) Map.empty = Inr cfg) \<and>
     unat (disk_seqno (cl_cx cl) d) + n < 2 ^ 64"

interpretation script: simulation "process_rel cl" "process cl" map_effect prints "command_ok \<circ> snd"
proof unfold_locales
  fix n d m out d' and p :: "answers \<times> command"
  assume R: "process_rel cl (Suc n) d m" and ok: "(command_ok \<circ> snd) p" and run: "process cl p d = Some (out, d')"
  obtain cfg where H: "holds (cl_cx cl) d m" "load_config (cl_sr cl) Map.empty = Inr cfg"
    "unat (disk_seqno (cl_cx cl) d) + Suc n < 2 ^ 64" using R by (auto simp: process_rel_def)
  have "main cl (fst p) (args_of (snd p)) d = (Some 0, out, d')" using run by (auto simp: process_def split: prod.splits if_splits)
  note S = process_step [OF H(1,2) ok [unfolded comp_apply] room_left(1) [OF H(3)] this]
  have "unat (disk_seqno (cl_cx cl) d') \<le> unat (disk_seqno (cl_cx cl) d) + 1"
    using S(3) room_left(2) [OF H(3)] by (simp add: word_le_nat_alt)
  then show "process_rel cl n d' (map_effect m p) \<and> prints m p out"
    using S(1,2) H(2,3) by (auto simp: process_rel_def map_effect_def prints_def)
qed

text \<open>A concrete command line.\<close>

definition sample_cli :: "tree cli" where
  "sample_cli = \<lparr>cl_cx = sample_ctx,
     cl_sr = \<lparr>sr_json = tree_lib T_Null, sr_stod = (\<lambda>_. Inl Escaped), sr_env = (\<lambda>_. None), sr_open_ok = (\<lambda>_. True), sr_file = (\<lambda>_. None)\<rparr>,
     cl_show = (\<lambda>_. []), cl_rate = (\<lambda>_. []), cl_percent = (\<lambda>_ _. []), cl_dump = (\<lambda>_. []), cl_what = (\<lambda>_. []),
     cl_random = (\<lambda>_ _. 0)\<rparr>"

definition good_answers :: answers where
  "good_answers = \<lparr>su_open = good_io, su_op = (\<lambda>_. good_io), su_flush = (\<lambda>_. good_io), su_compact = (\<lambda>_. good_io),
     su_close = good_io, su_rounds = [], su_lines = [], su_net = \<lparr>ni_socket = True, ni_host = (\<lambda>_. True), ni_bind = True\<rparr>,
     su_resize = True, su_mtime = 0, su_turns = [], su_elapsed_ms = 0,
     su_support = \<lparr>sp_mkdir = True, sp_before = [], sp_listed = (\<lambda>xs. xs), sp_zip = None, sp_now = 0\<rparr>\<rparr>"

lemma apply_rows_none: "apply_rows (\<lambda>_. None) rows c = Inr c"
  by (induction rows) auto

lemma sample_cli_config: "load_config (cl_sr sample_cli) Map.empty = Inr default_config"
  by (simp add: load_config_def sample_cli_def config_load_def apply_env_def apply_rows_none flag_def)

lemma good_answers_simps [simp]:
  "su_open good_answers = good_io" "su_op good_answers i = good_io" "su_close good_answers = good_io"
  "su_flush good_answers i = good_io" "cl_cx sample_cli = sample_ctx"
  by (simp_all add: good_answers_def sample_cli_def)

lemma sample_put_process: "\<exists>out d. main sample_cli good_answers (args_of (Put_key ''k'' ''v'')) empty_disk = (Some 0, out, d)"
proof -
  obtain rep where op: "engine_open sample_ctx good_io (engine_new default_config empty_disk) = (Inr rep, sample_store)"
    using sample_store_opened by blast
  obtain w where pw: "guarded_write good_io False [107] [118] sample_store = (Some (Inr 1),
       mem_write [107] [118] 1 False (sample_store\<lparr>en_wal := Some w,
         en_bg := (en_bg sample_store)\<lparr>bg_writes_total := bg_writes_total (en_bg sample_store) + 1\<rparr>\<rparr>))" (is "_ = (_, ?e)")
    by (rule sample_put)
  have kv: "bytes_of ''k'' = [107]" "bytes_of ''v'' = [118]" by (simp_all add: bytes_of_def)
  obtain T where S: "serves sample_ctx sample_store T Map.empty 0"
    using open_serves [OF empty_holds(1) op] by (auto simp: empty_holds(2))
  have "serves sample_ctx ?e T (Map.empty([107] := written_value False [118])) (0 + 1)"
    by (rule write_serves(1) [OF S _ _ _ pw]) (simp_all add: kMinPayload_def kMaxPayload_def)
  then obtain e3 where cl: "close sample_ctx good_io (su_flush good_answers) True ?e = (Inr (), e3)"
    using close_good by (fastforce simp: good_io_def io_good_def)
  have "ensure_open ?e = Inr ()"
    using \<open>serves sample_ctx ?e T _ _\<close> by (simp only: serves_def)
  then obtain st where ms: "engine_memtable_stats ?e = Inr st" by (simp add: engine_memtable_stats_def)
  have r: "require_flag [''key'' \<mapsto> ''k'', ''value'' \<mapsto> ''v''] ''key'' = Inr ''k''" by (simp add: require_flag_cases)
  have "\<exists>out d. run_mutation sample_cli good_answers ''put'' [''key'' \<mapsto> ''k'', ''value'' \<mapsto> ''v''] default_config empty_disk = (Inr 0, out, d)"
    by (simp add: ms run_mutation_def r with_engine_Inr cmd_Inr(2-5) then_engine_Inr open_engine_Inr settled_Inr say_written_def
        close_engine_def put_def kv cmd_Inr(1) op pw cl)
  then show ?thesis
    unfolding main_args_of [OF sample_cli_config] by (simp add: parse_args_of del: parse_flags.simps)
qed

section \<open>Properties\<close>

text \<open>C5. Processes refine the map.  Run any script of \<open>put\<close>, \<open>del\<close> and \<open>get\<close> commands, each a process that
  loads the configuration, opens the store on the disk the previous one left, does its work and
  exits, from a disk that holds a map (an empty directory does, and so does a store cut off by a power
  failure).  If every process exits with status 0, the disk left holds the map with the writes
  applied in order, and every \<open>get\<close> has printed the value its key had at that point, or
  \<open>NOT FOUND\<close>; whatever the operating system answered in between, and whatever replay,
  rotation and reopening did to the log.\<close>

theorem processes_refine_map:
  assumes "holds (cl_cx cl) d m" and "load_config (cl_sr cl) Map.empty = Inr cfg"
    and "list_all (command_ok \<circ> snd) cs" and "unat (disk_seqno (cl_cx cl) d) + length cs < 2 ^ 64"
    and "run_script cl cs d = Some (outs, d')"
  shows "holds (cl_cx cl) d' (foldl map_effect m cs) \<and> answers_all prints map_effect m cs outs"
proof -
  have "process_rel cl (length cs + 0) d m" using assms(1,2,4) by (simp add: process_rel_def add.commute)
  from script.run_follows [OF this assms(3) assms(5) [unfolded run_script_def]] show ?thesis by (simp add: process_rel_def)
qed

theorem processes_refine_map_witness:
  "\<exists>out report d'. run_script sample_cli [(good_answers, Put_key ''k'' ''v''), (good_answers, Get_key ''k'')] empty_disk =
     Some ([out, report @ ''v'' @ newline], d') \<and> holds sample_ctx d' [[107] \<mapsto> [118]]"
proof -
  obtain out d1 where put: "main sample_cli good_answers (args_of (Put_key ''k'' ''v'')) empty_disk = (Some 0, out, d1)"
    using sample_put_process by blast
  have kv: "bytes_of ''k'' = [107]" "bytes_of ''v'' = [118]" by (simp_all add: bytes_of_def)
  have H: "holds (cl_cx sample_cli) empty_disk Map.empty" by (simp add: empty_holds)
  have "holds (cl_cx sample_cli) d1 (command_effect Map.empty (Put_key ''k'' ''v''))"
    by (rule process_step(1) [OF H sample_cli_config _ _ put]) (simp_all add: kMinPayload_def kMaxPayload_def empty_holds)
  from get_process [OF this sample_cli_config, of "''k''" good_answers]
  obtain out2 d2 where get: "main sample_cli good_answers (args_of (Get_key ''k'')) d1 = (Some 0, out2, d2)"
    by (auto simp: good_io_def io_good_def)
  let ?cs = "[(good_answers, Put_key ''k'' ''v''), (good_answers, Get_key ''k'')]"
  have run: "run_script sample_cli ?cs empty_disk = Some ([out, out2], d2)" by (simp add: run_script_def process_def put get del: args_of.simps)
  have "holds (cl_cx sample_cli) d2 (foldl map_effect Map.empty ?cs) \<and> answers_all prints map_effect Map.empty ?cs [out, out2]"
    by (rule processes_refine_map [OF H sample_cli_config _ _ run]) (simp_all add: kMinPayload_def kMaxPayload_def empty_holds)
  then have "holds sample_ctx d2 [[107] \<mapsto> [118]]" "\<exists>report. out2 = report @ ''v'' @ newline"
    by (simp_all add: kv map_effect_def prints_def answers_with_def value_text_def text_of_def char_of_def bit_0)
  then show ?thesis using run by blast
qed



section \<open>Flags\<close>

text \<open>The ways to write a flag, what each writes and what each means.\<close>

datatype flag_arg = Equals string string | Spaced string string | Bare string

fun flag_tokens :: "flag_arg \<Rightarrow> string list" where
  "flag_tokens (Equals n v) = [flag_token n v]"
| "flag_tokens (Spaced n v) = [''--'' @ n, v]"
| "flag_tokens (Bare n) = [''--'' @ n]"

fun flag_binding :: "flag_arg \<Rightarrow> string \<times> string" where
  "flag_binding (Equals n v) = (n, v)"
| "flag_binding (Spaced n v) = (n, v)"
| "flag_binding (Bare n) = (n, [])"

fun flag_arg_ok :: "flag_arg \<Rightarrow> bool" where
  "flag_arg_ok (Equals n v) \<longleftrightarrow> CHR ''='' \<notin> set n"
| "flag_arg_ok (Spaced n v) \<longleftrightarrow> CHR ''='' \<notin> set n \<and> \<not> is_flag v"
| "flag_arg_ok (Bare n) \<longleftrightarrow> CHR ''='' \<notin> set n"

lemma flag_tokens_first: "\<exists>t ts. flag_tokens a = t # ts \<and> is_flag t"
  by (cases a) (simp_all add: is_flag_def flag_token_def)

lemma parse_flag_arg:
  assumes ok: "flag_arg_ok a" and rest: "rest = [] \<or> is_flag (hd rest)"
  shows "parse_flags (flag_tokens a @ rest) m = parse_flags rest (m(fst (flag_binding a) \<mapsto> snd (flag_binding a)))"
proof (cases a)
  case (Equals n v)
  then show ?thesis using ok by (simp add: parse_flag_token del: parse_flags.simps(2))
next
  case (Spaced n v)
  then show ?thesis using ok by (simp add: is_flag_def)
next
  case (Bare n)
  then show ?thesis using ok rest by (cases rest) (simp_all add: is_flag_def [of "''--'' @ n"] is_flag_def [of "CHR ''-'' # CHR ''-'' # n"])
qed

lemma parse_flag_args:
  "list_all flag_arg_ok as \<Longrightarrow> parse_flags (concat (map flag_tokens as)) m = m ++ map_of (rev (map flag_binding as))"
proof (induction as arbitrary: m)
  case (Cons a as)
  have "concat (map flag_tokens as) = [] \<or> is_flag (hd (concat (map flag_tokens as)))"
  proof (cases as)
    case (Cons b bs)
    then show ?thesis using flag_tokens_first [of b] by auto
  qed simp
  from parse_flag_arg [OF _ this] Cons show ?case by (simp add: fun_eq_iff map_add_def split: option.split)
qed simp

text \<open>C34. Flags are read as they are written.  A command line of flags in any of the three forms, with
  \<open>=\<close>, with a space, or bare, gives each name the value it was last given, the empty one for
  a bare flag.  The exception is a value that itself starts with two dashes: behind a space it is taken
  for the next flag and the name gets the empty value, so that such a value can only be given with \<open>=\<close>.\<close>

theorem flags_roundtrip:
  assumes "list_all flag_arg_ok as" and "CHR ''='' \<notin> set n" and "is_flag v"
  shows "parse_flags (concat (map flag_tokens as)) m = m ++ map_of (rev (map flag_binding as)) \<and>
    parse_flags [''--'' @ n, v] m = parse_flags [v] (m(n \<mapsto> [])) \<and>
    parse_flags [flag_token n v] m = m(n \<mapsto> v)"
proof -
  have "parse_flags [''--'' @ n, v] m = parse_flags [v] (m(n \<mapsto> []))"
    using assms(2,3) by (simp add: is_flag_def [of "CHR ''-'' # CHR ''-'' # n"])
  moreover have "parse_flags [flag_token n v] m = m(n \<mapsto> v)"
    by (simp only: parse_flag_token [OF assms(2)] parse_flags.simps(1))
  ultimately show ?thesis using parse_flag_args [OF assms(1)] by blast
qed

theorem flags_roundtrip_witness:
  "parse_flags [''--key'', ''a'', ''--json'', ''--key=b'', ''--value'', ''--x''] Map.empty =
     [''json'' \<mapsto> [], ''key'' \<mapsto> ''b'', ''value'' \<mapsto> [], ''x'' \<mapsto> []] \<and>
   parse_flags [''--value'', ''--x''] Map.empty = [''value'' \<mapsto> [], ''x'' \<mapsto> []]"
proof -
  have "list_all flag_arg_ok [Spaced ''key'' ''a'', Bare ''json'', Equals ''key'' ''b'', Bare ''value'', Bare ''x'']"
    by (simp add: is_flag_def)
  from flags_roundtrip [OF this, of "''value''" "''--x''" Map.empty] show ?thesis
    by (auto simp: is_flag_def flag_token_def fun_eq_iff)
qed

section \<open>Refused command lines\<close>

definition command_names :: "string list" where
  "command_names = [''init'', ''put'', ''get'', ''del'', ''probe'', ''stats'', ''close'', ''flush-now'', ''manifest-info'',
     ''version-info'', ''list-sst'', ''verify-sst'', ''sst-info'', ''compaction-run'', ''compaction-stats'',
     ''compaction-pause'', ''compaction-resume'', ''repl'', ''serve'', ''doctor'', ''stress'', ''bg-status'', ''shutdown'',
     ''wal-verify'', ''wal-truncate'', ''-h'', ''--help'', ''help'']"

text \<open>What is wrong with a command, given its flags and the disk.\<close>

definition refused :: "string \<Rightarrow> flags \<Rightarrow> disk \<Rightarrow> bool" where
  "refused cmd flags d \<longleftrightarrow> cmd \<notin> set command_names \<or>
     cmd \<in> {''put'', ''get'', ''del''} \<and> flag flags ''key'' = None \<or>
     cmd \<in> {''verify-sst'', ''sst-info''} \<and> flag flags ''file'' = None \<or>
     cmd = ''wal-truncate'' \<and>
       (case (flag flags ''segment'', flag flags ''offset'') of
          (Some name, Some t) \<Rightarrow>
            (case (stoull t, find_segment name (dk_wal d)) of
               (Inr n, Some i) \<Rightarrow> length (sf_content (file_of i (dk_wal d))) < unat n
             | _ \<Rightarrow> True)
        | _ \<Rightarrow> True)"

lemma refused_truncate:
  assumes "refused ''wal-truncate'' flags d"
  shows "run_wal_truncate su flags d = (Inl (Thrown InvalidArgument), [], d)"
  using assms
  by (auto simp: refused_def command_names_def run_wal_truncate_def require_flag_def split: option.splits sum.splits)



section \<open>The endpoints\<close>

lemma take_takeWhile:
  assumes "length (take n (takeWhile P xs)) = n"
  shows "take n (takeWhile P xs) = take n xs"
proof -
  have n: "n \<le> length (takeWhile P xs)" using assms by simp
  have "takeWhile P xs = take (length (takeWhile P xs)) xs" by (rule takeWhile_eq_take)
  then have "take n (takeWhile P xs) = take n (take (length (takeWhile P xs)) xs)" by (rule arg_cong)
  also have "\<dots> = take n xs" using n by (simp add: min_def)
  finally show ?thesis .
qed

text \<open>C35. What the observability endpoints answer.  While the store is open, a request for a path (without
  blanks, within what one \<open>recv\<close> takes) is answered by the handler for exactly that path, and the handler
  never throws: \<open>/healthz\<close> is 200; \<open>/readyz\<close> is 200 if the workers run and 503 if not;
  \<open>/metrics\<close> is 200 unless the configuration disables it, then 404; \<open>/stats\<close> is 200 with JSON; any
  other path is 404.  A request that is no \<open>GET\<close> is answered as one for \<open>/\<close>, with 404.\<close>

theorem http_answers:
  assumes "ensure_open e = Inr ()" and "en_version e = Some v"
    and "CHR '' '' \<notin> set path" and "CHR 0x00 \<notin> set path" and "length path + 5 \<le> recv_limit"
    and "take 4 other \<noteq> ''GET ''" and "other \<noteq> []"
  shows "\<exists>h. (\<forall>p. http_handler cl cfg lg c e p = Inr (h p)) \<and>
    serve_client (Some h) (''GET '' @ path @ '' '' @ rest) = response_text (h path) \<and>
    serve_client (Some h) other = response_text (h ''/'') \<and> hr_status (h ''/'') = 404 \<and>
    hr_status (h path) = (if path = ''/healthz'' then 200
      else if path = ''/readyz'' then (if en_workers_running e then 200 else 503)
      else if path = ''/metrics'' then (if metrics_enabled cfg then 200 else 404)
      else if path = ''/stats'' then 200 else 404) \<and>
    (hr_content_type (h path) = ''application/json'' \<longleftrightarrow> path = ''/stats'')"
proof -
  obtain w where w: "engine_wal_stats e = Inr w" using assms(1) by (simp add: engine_wal_stats_def)
  obtain m where m: "engine_memtable_stats e = Inr m" using assms(1) by (simp add: engine_memtable_stats_def)
  have v: "current_version e = Inr v" using assms(2) by (simp add: current_version_def)
  obtain t where t: "prometheus_text cl cfg lg e = Inr t" by (simp add: prometheus_text_def w m v Let_def)
  obtain j where j: "stats_json cl cfg c e = Inr j" by (simp add: stats_json_def w m v Let_def)
  have open_: "\<not> en_closed e" using assms(1) by (auto simp: ensure_open_def split: if_splits)
  define h where "h p = projr (http_handler cl cfg lg c e p)" for p
  have H: "http_handler cl cfg lg c e p = Inr (h p)" for p by (simp add: h_def http_handler_def t j)
  have other: "request_path other = ''/''"
  proof -
    have "take 4 (takeWhile (\<lambda>c. c \<noteq> CHR 0x00) (take recv_limit other)) \<noteq> ''GET ''"
    proof
      assume g: "take 4 (takeWhile (\<lambda>c. c \<noteq> CHR 0x00) (take recv_limit other)) = ''GET ''"
      have "take 4 (take recv_limit other) = ''GET ''" using g take_takeWhile [of 4 "\<lambda>c. c \<noteq> CHR 0x00" "take recv_limit other"] by simp
      then show False using assms(6) by (simp add: recv_limit_def min_def)
    qed
    then show ?thesis by (simp add: request_path_def Let_def)
  qed
  have "serve_client (Some h) (''GET '' @ path @ '' '' @ rest) = response_text (h path)"
    using request_path_get [OF assms(3-5), of rest] by (simp add: serve_client_def)
  moreover have "serve_client (Some h) other = response_text (h ''/'')" using other assms(7) by (simp add: serve_client_def)
  moreover have "hr_status (h ''/'') = 404" by (simp add: h_def http_handler_def plain_def)
  moreover have "hr_status (h path) = (if path = ''/healthz'' then 200
      else if path = ''/readyz'' then (if en_workers_running e then 200 else 503)
      else if path = ''/metrics'' then (if metrics_enabled cfg then 200 else 404)
      else if path = ''/stats'' then 200 else 404)"
    using open_ by (simp add: h_def http_handler_def plain_def t j)
  moreover have "hr_content_type (h path) = ''application/json'' \<longleftrightarrow> path = ''/stats''"
    by (simp add: h_def http_handler_def plain_def t j)
  ultimately show ?thesis using H by blast
qed

theorem http_answers_witness:
  "\<exists>h. (\<forall>p. http_handler sample_cli default_config log_init False sample_store p = Inr (h p)) \<and>
     serve_client (Some h) ''GET /readyz HTTP/1.0'' = response_text (h ''/readyz'') \<and> hr_status (h ''/readyz'') = 503"
proof -
  have "\<not> en_workers_running sample_store" using sample_store_opened engine_open_workers by blast
  moreover have "en_version sample_store \<noteq> None"
    using sample_store_opened open_serves [OF empty_holds(1)] by (metis base_inv_def option.distinct(1) serves_def)
  then obtain v where "en_version sample_store = Some v" by blast
  from http_answers [OF sample_store_fields(1) this, of "''/readyz''" "''HEAD''" sample_cli default_config log_init False "''HTTP/1.0''"]
  obtain h where "\<forall>p. http_handler sample_cli default_config log_init False sample_store p = Inr (h p)"
    "serve_client (Some h) (''GET '' @ ''/readyz'' @ '' '' @ ''HTTP/1.0'') = response_text (h ''/readyz'')"
    "hr_status (h ''/readyz'') = (if en_workers_running sample_store then 200 else 503)"
    by (auto simp: recv_limit_def)
  ultimately show ?thesis by auto
qed

end
