(* ===== verification/Spec2Isabelle.thy ===== *)
theory Spec2Isabelle
  imports Wal_Recovery Names Table_Lookup Read_Resources Manifest_Edits Engine_Loops Cli_Correct
begin

text \<open>
  A model of lsmkv, a log-structured key-value store in C++ (\<open>src/src\<close>, \<open>src/include/lsm\<close>), and the
  properties that make it correct.

  The program.  A write appends a record to the write-ahead log (\<open>wal.cpp\<close>) and then updates the
  active memtable (\<open>memtable.cpp\<close>).  A full memtable is frozen and queued; a flush writes the oldest
  one to an SSTable (\<open>sstable.cpp\<close>), lists it in the manifest (\<open>manifest.cpp\<close>) and deletes the log
  segments it covers.  Compaction (\<open>compaction.cpp\<close>, \<open>engine.cpp\<close>) merges adjacent tables into one.
  A read takes the published version once and asks the active memtable, the frozen ones and the
  tables, newest first; a table is asked through its Bloom filter, its sparse index and one checked,
  cached block (\<open>table_reader.cpp\<close>).  \<open>engine.cpp\<close> puts the parts together.

  The theories, in the order of the program.
  Prelude: error codes and results (\<open>errors.hpp\<close>), bytes and little-endian integers, sequencing.
  Checksum: the table-driven CRC-32, equal to the bitwise one; what changes it detects.
  Std_Map: \<open>std::map\<close> as a list with ascending keys; the locale \<open>kv_store\<close> of a key-value store.
  Memtable: \<open>Memtable\<close> with its byte count; interprets \<open>kv_store\<close>.
  Wal_Record, Wal, Wal_Recovery: the format of a log segment and its scan; the class \<open>Wal\<close> with every
  operation and every failure the system can answer with; what a crash leaves and what opening it
  again replays.
  Names: the file names and their parsing.  Config: the record of settings.
  Bloom: the filter of a table.  Sstable, Sstable_Format: writer, \<open>inspect\<close>, \<open>scan\<close> and \<open>verify\<close>;
  the round trip and what damage they find.
  Manifest, Manifest_Edits: the manifest object, its file and its edits.
  Table_Reader, Table_Lookup, Read_Resources: reader, block cache and pool of open files; a lookup
  against the memtable the table was written from; the limits of cache and pool.
  Compaction, Layers: picker, merge and tombstone rule; the abstract store as layers of maps, with
  the locale \<open>layer_merge\<close>, and what merging layers preserves.
  Engine: the class \<open>Engine\<close>, one definition per method and per phase of a method between two lock
  releases.  Engine_View: what a version shows a reader.  Engine_Inv, Engine_Write, Engine_Flush,
  Engine_Order, Engine_Compact: the invariant and what each operation does to it and to the store's
  contents.  Engine_Steps: the step relation of all threads, each step an operation or a phase with the
  system's answers, and that every step is a step of a map.  Engine_Open: opening.  Engine_Durable:
  what is in memory is in the log, what the manifest object says is in its file.  Engine_Correct: the
  refinement of the map, snapshot reads, crash and restart.  Engine_Loops: the loops end, the queue
  stays within its limit.
  Clock, Logging: time stamps; event lines, error counters, crash points (\<open>logging.cpp\<close>).
  Json, Documents: the interface of the JSON library with its laws and an instance; the documents of
  manifest and compaction statistics.  Config_Load: loading and printing the configuration.
  Http: the observability server (\<open>http_server.cpp\<close>).
  Cli_Text, Cli, Cli_Inspect, Cli_Workers, Cli_Doctor, Cli_Main: the command line (\<open>main.cpp\<close>): flags and
  usage; commands over an engine; statistics and the HTTP handler; the workers' rounds and the stress
  test; the support bundle; the other commands, the interactive session and \<open>main\<close>.  Simulation: the locale of
  operations matched by steps of a specification.  Cli_Store: a disk that holds a map, and what a process
  does to it; interprets the locale on one engine, as Cli_Correct does on processes.  Cli_Correct: the properties of the command line.

  How the state corresponds.  A C++ object is a record with the source's members.  A file is its bytes;
  a directory is a map from names (or segment ids) to files; a log segment has a synced part and a
  part the system may still lose.  Memtables and table readers that versions share by pointer live in
  stores addressed by numbers.  A thrown \<open>lsm::Error\<close> is \<open>Inl (Thrown code)\<close>; another C++ exception is
  \<open>Inl Escaped\<close>; undefined behaviour is \<open>Inl Undefined\<close>.  What the operating system answers is an
  argument of the operation.  Machine integers keep their width.

  Parameters.  The JSON library (\<open>json_lib\<close>, and what the manifest and the engine see of it), the
  floating-point formulas of the Bloom filter's size and of the picker's size ratio (\<open>bloom_shape\<close>,
  \<open>size_test\<close>), \<open>std::stod\<close> and the printing of a \<open>double\<close>, random numbers and clock readings are
  arguments; what is assumed of them is a named hypothesis.

  The step relation.  Writes, reads, flushes and compactions of any number of threads interleave at the
  points where the code holds no lock; one flush and one compaction are under way at a time, as the
  creation mutex has it.  A write step is taken while the log's sequence numbers are not used up.
  The failure to save the manifest in the middle of a flush or compaction is in the model
  (\<open>flush_publish\<close>, \<open>compact_publish\<close>, and the theorem \<open>failed_add_keeps_table\<close> shows what it does) but
  not a step.  The crash properties are about executions in which the log never failed
  (\<open>log_worked\<close>: no append failed after it changed the log, and no record exceeded what the reader
  accepts) and in which everything appended is synced, as with the default setting.

  Termination.  Recursion is structural or has a measure; the scan of a segment and of a block
  consumes its input.  The loops of \<open>flush_pending\<close>, \<open>maybe_auto_compact\<close> and \<open>close\<close> take as fuel the
  length of the queue and the number of tables, which every further round makes smaller.

  A script of commands (\<open>run_script\<close>) is a list; the stress test and the session take the turns of
  threads and workers as a list and do not return when it ends early, which is the result \<open>Undefined\<close>.

  Not modelled: the calls of \<open>log_event\<close> and the messages on standard error in the middle of engine
  operations, the texts of error messages, the sleeping of throttled compaction, the socket calls
  beyond their answers, the Windows variants, \<open>std::mt19937_64\<close> and the archiver that \<open>doctor\<close> runs.
\<close>

end
